(* ===== verification/Prelude.thy ===== *)
theory Prelude
  imports Main
begin

text \<open>
  Shared notation, collections and generic lemmas of the development: the fact collections
  the component proofs use, lookup and update in tables kept as lists of rows, and list facts
  about folds and prefixes that several components share.
\<close>

named_theorems prog_simps \<open>unfolding equations of the program combinators\<close>
named_theorems guar_intros \<open>introduction rules for what every atom of a program guarantees\<close>
named_theorems store_simps \<open>how one store operation is seen through another\<close>

section \<open>Tables as lists of rows\<close>

text \<open>
  A database table is the list of its rows in insertion order. \<open>row_find\<close> is a query by a
  predicate that at most one row satisfies, \<open>row_update\<close> is UPDATE ... WHERE, \<open>row_delete\<close> is
  DELETE ... WHERE.
\<close>

definition row_find :: "('a \<Rightarrow> bool) \<Rightarrow> 'a list \<Rightarrow> 'a option" where
  "row_find P rows = List.find P rows"

definition row_update :: "('a \<Rightarrow> bool) \<Rightarrow> ('a \<Rightarrow> 'a) \<Rightarrow> 'a list \<Rightarrow> 'a list" where
  "row_update P f rows = map (\<lambda>x. if P x then f x else x) rows"

definition row_delete :: "('a \<Rightarrow> bool) \<Rightarrow> 'a list \<Rightarrow> 'a list" where
  "row_delete P rows = filter (\<lambda>x. \<not> P x) rows"

lemma row_find_Nil [simp]: "row_find P [] = None"
  by (simp add: row_find_def)

lemma row_find_Cons [simp]:
  "row_find P (x # xs) = (if P x then Some x else row_find P xs)"
  by (simp add: row_find_def)

lemma row_update_Nil [simp]: "row_update P f [] = []"
  by (simp add: row_update_def)

lemma row_update_Cons [simp]:
  "row_update P f (x # xs) = (if P x then f x else x) # row_update P f xs"
  by (simp add: row_update_def)

lemma row_delete_Nil [simp]: "row_delete P [] = []"
  by (simp add: row_delete_def)

lemma row_delete_Cons [simp]:
  "row_delete P (x # xs) = (if P x then row_delete P xs else x # row_delete P xs)"
  by (simp add: row_delete_def)

lemma length_row_update [simp]: "length (row_update P f xs) = length xs"
  by (simp add: row_update_def)

lemma row_find_SomeD: "row_find P xs = Some x \<Longrightarrow> x \<in> set xs \<and> P x"
  by (induction xs) (auto split: if_splits)

lemma row_find_None: "row_find P xs = None \<longleftrightarrow> (\<forall>x \<in> set xs. \<not> P x)"
  by (induction xs) auto

lemma row_find_append:
  "row_find P (xs @ ys) = (case row_find P xs of None \<Rightarrow> row_find P ys | Some x \<Rightarrow> Some x)"
  by (induction xs) auto

text \<open>A row that the update keeps in (or out of) a query is found updated (or unchanged).\<close>

lemma row_find_update:
  assumes "\<And>x. P x \<Longrightarrow> Q (f x) = Q x"
  shows "row_find Q (row_update P f xs) = map_option (\<lambda>x. if P x then f x else x) (row_find Q xs)"
  using assms by (induction xs) auto

lemma row_find_delete_same [simp]: "row_find P (row_delete P xs) = None"
  by (induction xs) auto

lemma row_find_delete_other:
  assumes "\<And>x. Q x \<Longrightarrow> \<not> P x"
  shows "row_find Q (row_delete P xs) = row_find Q xs"
  using assms by (induction xs) auto

lemma map_row_update:
  assumes "\<And>x. g (f x) = g x"
  shows "map g (row_update P f xs) = map g xs"
  using assms by (induction xs) auto

lemma row_find_unique:
  assumes "distinct (map key xs)" and "x \<in> set xs"
  shows "row_find (\<lambda>y. key y = key x) xs = Some x"
  using assms by (induction xs) force+

section \<open>Lists\<close>

lemma All_comp [simp]: "All (P \<circ> k) \<longleftrightarrow> (\<forall>x. P (k x))"
  by (simp add: comp_def)

lemma filter_snoc: "filter P (xs @ [x]) = (if P x then filter P xs @ [x] else filter P xs)"
  by simp

lemma foldl_snoc: "foldl f a (xs @ [x]) = f (foldl f a xs) x"
  by simp

text \<open>A list is a prefix of another: append-only histories.\<close>

definition extends :: "'a list \<Rightarrow> 'a list \<Rightarrow> bool" where
  "extends ys xs \<longleftrightarrow> take (length xs) ys = xs"

lemma extends_iff: "extends ys xs \<longleftrightarrow> (\<exists>zs. ys = xs @ zs)"
proof
  assume "extends ys xs"
  then have "ys = xs @ drop (length xs) ys"
    unfolding extends_def by (metis append_take_drop_id)
  then show "\<exists>zs. ys = xs @ zs" by blast
next
  assume "\<exists>zs. ys = xs @ zs"
  then show "extends ys xs" by (auto simp: extends_def)
qed

lemma extends_refl [simp]: "extends xs xs"
  by (simp add: extends_def)

lemma extends_append [simp]: "extends (xs @ ys) xs"
  by (simp add: extends_def)

lemma extends_trans: "extends zs ys \<Longrightarrow> extends ys xs \<Longrightarrow> extends zs xs"
  by (auto simp: extends_iff)

lemma extends_set: "extends ys xs \<Longrightarrow> x \<in> set xs \<Longrightarrow> x \<in> set ys"
  by (auto simp: extends_iff)

lemma extends_filter: "extends ys xs \<Longrightarrow> extends (filter P ys) (filter P xs)"
  by (auto simp: extends_iff)

end
