(* ===== verification/Prog.thy ===== *)
theory Prog
  imports Prelude
begin

text \<open>
  The shape of the asynchronous code. A coroutine is a tree of atoms: an atom is one
  uninterruptible piece of it (a database statement, a read of the clock, a step of a tool's
  body, an update of the in-memory context), which changes the state it runs in and says how
  the coroutine goes on. Between two atoms the process may die, the clock may move on and other
  processes may run. \<open>run\<close> runs a coroutine alone to its end, \<open>crash n\<close> is the state a process
  leaves behind when it dies after its first \<open>n\<close> atoms, and \<open>guar\<close> states what every atom
  guarantees whatever happens between atoms.
\<close>

section \<open>Programs\<close>

datatype (dead 's, 'r) prog =
    Ret 'r
  | Atom "'s \<Rightarrow> 's \<times> ('s, 'r) prog"

primrec bind :: "('s, 'a) prog \<Rightarrow> ('a \<Rightarrow> ('s, 'b) prog) \<Rightarrow> ('s, 'b) prog" where
  "bind (Ret r) k = k r"
| "bind (Atom f) k = Atom (map_prod id (\<lambda>p. bind p k) \<circ> f)"

primrec run :: "('s, 'r) prog \<Rightarrow> 's \<Rightarrow> 's \<times> 'r" where
  "run (Ret r) = (\<lambda>s. (s, r))"
| "run (Atom f) = (\<lambda>s. case (map_prod id run \<circ> f) s of (s', g) \<Rightarrow> g s')"

text \<open>One atom that computes a result, reads the state, or changes it.\<close>

definition atom :: "('s \<Rightarrow> 's \<times> 'r) \<Rightarrow> ('s, 'r) prog" where
  "atom f = Atom (map_prod id Ret \<circ> f)"

definition gets :: "('s \<Rightarrow> 'r) \<Rightarrow> ('s, 'r) prog" where
  "gets f = atom (\<lambda>s. (s, f s))"

definition modify :: "('s \<Rightarrow> 's) \<Rightarrow> ('s, unit) prog" where
  "modify f = atom (\<lambda>s. (f s, ()))"

text \<open>Exceptions are values of a sum: \<open>ebind\<close> is sequencing, \<open>catch\<close> a try block.\<close>

definition ebind :: "('s, 'e + 'a) prog \<Rightarrow> ('a \<Rightarrow> ('s, 'e + 'b) prog) \<Rightarrow> ('s, 'e + 'b) prog" where
  "ebind p k = bind p (\<lambda>x. case x of Inl e \<Rightarrow> Ret (Inl e) | Inr a \<Rightarrow> k a)"

definition ok :: "('s, 'a) prog \<Rightarrow> ('s, 'e + 'a) prog" where
  "ok p = bind p (\<lambda>a. Ret (Inr a))"

text \<open>A program over one component of the state, run in the whole state.\<close>

primrec lift :: "('s \<Rightarrow> 'x) \<Rightarrow> ('x \<Rightarrow> 's \<Rightarrow> 's) \<Rightarrow> ('x, 'r) prog \<Rightarrow> ('s, 'r) prog" where
  "lift gt pt (Ret r) = Ret r"
| "lift gt pt (Atom f) = Atom (\<lambda>s. case (map_prod id (lift gt pt) \<circ> f) (gt s) of (x', p) \<Rightarrow> (pt x' s, p))"

section \<open>Running alone\<close>

text \<open>The recursion goes through the result of the atom's function; this is the induction rule that says so.\<close>

lemma prog_induct [case_names Ret Atom, induct type: prog]:
  assumes "\<And>r. P (Ret r)" and "\<And>f. (\<And>s. P (snd (f s))) \<Longrightarrow> P (Atom f)"
  shows "P p"
proof (rule prog.induct)
  fix f :: "'b \<Rightarrow> 'b \<times> ('b, 'a) prog"
  assume IH: "\<And>x p'. x \<in> range f \<Longrightarrow> p' \<in> Basic_BNFs.snds x \<Longrightarrow> P p'"
  have "P (snd (f s))" for s
  proof (rule IH [OF rangeI])
    show "snd (f s) \<in> Basic_BNFs.snds (f s)" by (cases "f s") simp
  qed
  then show "P (Atom f)" by (rule assms(2))
qed (rule assms(1))

lemma bind_Atom: "bind (Atom f) k = Atom (\<lambda>s. (fst (f s), bind (snd (f s)) k))"
  by (auto simp: map_prod_def split_def fun_eq_iff)

lemma run_Atom: "run (Atom f) s = run (snd (f s)) (fst (f s))"
  by (simp add: map_prod_def split_def)

lemma lift_Atom:
  "lift gt pt (Atom f) = Atom (\<lambda>s. (pt (fst (f (gt s))) s, lift gt pt (snd (f (gt s)))))"
  by (simp add: map_prod_def split_def)

declare bind.simps(2) [simp del] run.simps(2) [simp del] lift.simps(2) [simp del]
declare bind_Atom [simp] run_Atom [simp] lift_Atom [simp]

lemma run_atom [simp]: "run (atom f) s = f s"
  by (simp add: atom_def map_prod_def split_def)

lemma run_gets [simp]: "run (gets f) s = (s, f s)"
  by (simp add: gets_def)

lemma run_modify [simp]: "run (modify f) s = (f s, ())"
  by (simp add: modify_def)

lemma run_bind [simp]: "run (bind p k) s = run (k (snd (run p s))) (fst (run p s))"
  by (induction p arbitrary: s) simp_all

lemma run_ebind [simp]:
  "run (ebind p k) s =
     (case snd (run p s) of Inl e \<Rightarrow> (fst (run p s), Inl e) | Inr a \<Rightarrow> run (k a) (fst (run p s)))"
  by (simp add: ebind_def split: sum.splits)

lemma run_ok [simp]: "run (ok p) s = (fst (run p s), Inr (snd (run p s)))"
  by (simp add: ok_def)

text \<open>Lawful component access: the lifted run is the run on the component.\<close>

lemma run_lift:
  assumes "\<And>x s. gt (pt x s) = x" and "\<And>x y s. pt x (pt y s) = pt x s" and "\<And>s. pt (gt s) s = s"
  shows "run (lift gt pt p) s = (pt (fst (run p (gt s))) s, snd (run p (gt s)))"
  by (induction p arbitrary: s) (simp_all add: assms)

section \<open>Dying after a number of atoms\<close>

primrec crash :: "nat \<Rightarrow> ('s, 'r) prog \<Rightarrow> 's \<Rightarrow> 's" where
  "crash 0 p s = s"
| "crash (Suc n) p s = (case p of Ret r \<Rightarrow> s | Atom f \<Rightarrow> crash n (snd (f s)) (fst (f s)))"

text \<open>\<open>always I p s\<close>: running \<open>p\<close> from \<open>s\<close>, the state satisfies \<open>I\<close> at the start and after every atom.\<close>

primrec always :: "('s \<Rightarrow> bool) \<Rightarrow> ('s, 'r) prog \<Rightarrow> 's \<Rightarrow> bool" where
  "always I (Ret r) = I"
| "always I (Atom f) = (\<lambda>s. I s \<and> (case (map_prod id (always I) \<circ> f) s of (s', g) \<Rightarrow> g s'))"

lemma always_Ret [simp]: "always I (Ret r) s = I s"
  by simp

lemma always_Atom: "always I (Atom f) s = (I s \<and> always I (snd (f s)) (fst (f s)))"
  by (simp add: map_prod_def split_def)

declare always.simps [simp del]
declare always_Atom [simp] always_Ret [simp]

lemma always_atom [simp]: "always I (atom f) s = (I s \<and> I (fst (f s)))"
  by (simp add: atom_def map_prod_def split_def)

lemma always_gets [simp]: "always I (gets f) s = I s"
  by (simp add: gets_def)

lemma always_modify [simp]: "always I (modify f) s = (I s \<and> I (f s))"
  by (simp add: modify_def)

lemma always_start: "always I p s \<Longrightarrow> I s"
  by (cases p) simp_all

lemma always_end: "always I p s \<Longrightarrow> I (fst (run p s))"
  by (induction p arbitrary: s) simp_all

lemma always_bind [simp]:
  "always I (bind p k) s \<longleftrightarrow> always I p s \<and> always I (k (snd (run p s))) (fst (run p s))"
  by (induction p arbitrary: s) (auto dest: always_start)

lemma always_ebind [simp]:
  "always I (ebind p k) s \<longleftrightarrow>
     always I p s \<and>
     (case snd (run p s) of Inl e \<Rightarrow> True | Inr a \<Rightarrow> always I (k a) (fst (run p s)))"
  by (auto simp: ebind_def split: sum.splits dest: always_end)

lemma always_ok [simp]: "always I (ok p) s = always I p s"
  by (auto simp: ok_def dest: always_end)

lemma always_mono: "always I p s \<Longrightarrow> (\<And>s. I s \<Longrightarrow> J s) \<Longrightarrow> always J p s"
  by (induction p arbitrary: s) simp_all

text \<open>What always holds holds wherever the process dies, and the other way round.\<close>

lemma always_crash: "always I p s \<Longrightarrow> I (crash n p s)"
proof (induction n arbitrary: p s)
  case 0
  then show ?case by (auto dest: always_start)
next
  case (Suc n)
  then show ?case by (cases p) simp_all
qed

lemma crash_always: "(\<And>n. I (crash n p s)) \<Longrightarrow> always I p s"
proof (induction p arbitrary: s)
  case (Ret r)
  from Ret [of 0] show ?case by simp
next
  case (Atom f)
  have "always I (snd (f s)) (fst (f s))"
  proof (rule Atom.IH)
    show "I (crash n (snd (f s)) (fst (f s)))" for n
      using Atom.prems [of "Suc n"] by simp
  qed
  moreover have "I s" using Atom.prems [of 0] by simp
  ultimately show ?case by simp
qed

text \<open>A process that is never killed is one that dies after all its atoms.\<close>

lemma crash_complete: "\<exists>n. crash n p s = fst (run p s)"
proof (induction p arbitrary: s)
  case (Ret r)
  show ?case by (rule exI [of _ 0]) simp
next
  case (Atom f)
  then obtain n where "crash n (snd (f s)) (fst (f s)) = fst (run (snd (f s)) (fst (f s)))"
    by blast
  then have "crash (Suc n) (Atom f) s = fst (run (Atom f) s)" by simp
  then show ?case by blast
qed

section \<open>What every atom guarantees\<close>

text \<open>
  \<open>guar R p\<close>: every atom of \<open>p\<close> makes a step in \<open>R\<close>, from whatever state it is run. The state
  may have been changed arbitrarily by others since the previous atom.
\<close>

primrec guar :: "('s \<Rightarrow> 's \<Rightarrow> bool) \<Rightarrow> ('s, 'r) prog \<Rightarrow> bool" where
  "guar R (Ret r) = True"
| "guar R (Atom f) = (\<forall>s. case (map_prod id (guar R) \<circ> f) s of (s', g) \<Rightarrow> R s s' \<and> g)"

lemma guar_Ret [guar_intros, intro!]: "guar R (Ret r)"
  by simp

lemma guar_Atom: "guar R (Atom f) \<longleftrightarrow> (\<forall>s. R s (fst (f s)) \<and> guar R (snd (f s)))"
  by (simp add: map_prod_def split_def)

declare guar.simps(2) [simp del]
declare guar_Atom [simp]

lemma guar_atomI [guar_intros]: "(\<And>s. R s (fst (f s))) \<Longrightarrow> guar R (atom f)"
  by (simp add: atom_def map_prod_def split_def)

lemma guar_modifyI [guar_intros]: "(\<And>s. R s (f s)) \<Longrightarrow> guar R (modify f)"
  unfolding modify_def by (rule guar_atomI) simp

lemma guar_getsI [guar_intros]: "(\<And>s. R s s) \<Longrightarrow> guar R (gets f)"
  unfolding gets_def by (rule guar_atomI) simp

lemma guar_bindI [guar_intros]: "guar R p \<Longrightarrow> (\<And>r. guar R (k r)) \<Longrightarrow> guar R (bind p k)"
  by (induction p) simp_all

lemma guar_ebindI [guar_intros]: "guar R p \<Longrightarrow> (\<And>a. guar R (k a)) \<Longrightarrow> guar R (ebind p k)"
  unfolding ebind_def by (rule guar_bindI) (auto split: sum.splits)

lemma guar_okI [guar_intros]: "guar R p \<Longrightarrow> guar R (ok p)"
  unfolding ok_def by (rule guar_bindI) auto

text \<open>A lifted program only changes its component.\<close>

lemma guar_liftI [guar_intros]: "(\<And>x s. R s (pt x s)) \<Longrightarrow> guar R (lift gt pt p)"
  by (induction p) simp_all

text \<open>A guarantee that implies an invariant's preservation makes it hold throughout a run.\<close>

lemma guar_always:
  assumes "guar R p" and "\<And>s s'. R s s' \<Longrightarrow> I s \<Longrightarrow> I s'" and "I s"
  shows "always I p s"
  using assms(1,3)
proof (induction p arbitrary: s)
  case (Ret r)
  then show ?case by simp
next
  case (Atom f)
  then show ?case by (auto intro: assms(2))
qed

lemma guar_mono: "guar R p \<Longrightarrow> (\<And>s s'. R s s' \<Longrightarrow> Q s s') \<Longrightarrow> guar Q p"
  by (induction p) simp_all

text \<open>A guarantee also holds between the start and any later state, if it is a preorder.\<close>

lemma guar_always_from:
  assumes "guar R p" and "\<And>s. R s s" and "\<And>s t u. R s t \<Longrightarrow> R t u \<Longrightarrow> R s u"
  shows "always (R s) p s"
  by (rule guar_always [OF assms(1)]) (blast intro: assms(2,3))+

lemma guar_run:
  assumes "guar R p" and "\<And>s. R s s" and "\<And>s t u. R s t \<Longrightarrow> R t u \<Longrightarrow> R s u"
  shows "R s (fst (run p s))"
  by (rule always_end) (rule guar_always_from [OF assms])

lemma guar_crash:
  assumes "guar R p" and "\<And>s. R s s" and "\<And>s t u. R s t \<Longrightarrow> R t u \<Longrightarrow> R s u"
  shows "R s (crash n p s)"
  by (rule always_crash) (rule guar_always_from [OF assms])

section \<open>Private state\<close>

text \<open>
  A program over a shared and a private component (the object a coroutine keeps to itself), as a
  program over the shared component alone: the private part lives in the coroutine, and dies with it.
\<close>

primrec local :: "('s \<times> 'c, 'r) prog \<Rightarrow> 'c \<Rightarrow> ('s, 'r \<times> 'c) prog" where
  "local (Ret r) = (\<lambda>c. Ret (r, c))"
| "local (Atom f) = (\<lambda>c. Atom (\<lambda>s. case (map_prod id local \<circ> f) (s, c) of ((s', c'), g) \<Rightarrow> (s', g c')))"

lemma local_Atom:
  "local (Atom f) c = Atom (\<lambda>s. (fst (fst (f (s, c))), local (snd (f (s, c))) (snd (fst (f (s, c))))))"
  by (simp add: map_prod_def split_def)

declare local.simps(2) [simp del]
declare local_Atom [simp]

lemma run_local [simp]:
  "run (local p c) s =
     (fst (fst (run p (s, c))), (snd (run p (s, c)), snd (fst (run p (s, c)))))"
  by (induction p arbitrary: s c) simp_all

lemma always_local [simp]: "always I (local p c) s \<longleftrightarrow> always (\<lambda>(s, c). I s) p (s, c)"
  by (induction p arbitrary: s c) simp_all

lemma guar_localI [guar_intros]:
  "guar (\<lambda>(s, c) (s', c'). R s s') p \<Longrightarrow> guar R (local p c)"
  by (induction p arbitrary: c) (simp_all add: split_def)

text \<open>The same when the private part keeps a property \<open>J\<close> that the guarantee needs.\<close>

lemma guar_local_inv:
  assumes "guar (\<lambda>\<sigma> \<sigma>'. J (snd \<sigma>) \<longrightarrow> R (fst \<sigma>) (fst \<sigma>') \<and> J (snd \<sigma>')) p" and "J c"
  shows "guar R (local p c)"
  using assms
proof (induction p arbitrary: c)
  case (Atom f)
  have "R s (fst (fst (f (s, c)))) \<and> J (snd (fst (f (s, c))))" for s
    using Atom.prems by simp
  moreover have "guar R (local (snd (f (s, c))) (snd (fst (f (s, c)))))" for s
    using Atom.prems by (intro Atom.IH) simp_all
  ultimately show ?case by simp
qed simp

lemma guar_bind_gets: "(\<And>s. R s s) \<Longrightarrow> (\<And>s. guar R (k (f s))) \<Longrightarrow> guar R (bind (gets f) k)"
  by (simp add: gets_def atom_def map_prod_def)

lemma guar_ebind_Ret: "(\<And>a. x = Inr a \<Longrightarrow> guar R (k a)) \<Longrightarrow> guar R (ebind (Ret x) k)"
  by (cases x) (simp_all add: ebind_def)

section \<open>Triples\<close>

text \<open>
  \<open>triple I P p Q\<close>: from a state with \<open>P\<close>, the program keeps \<open>I\<close> at its start and after every
  atom, and ends with a result and a state in \<open>Q\<close>.
\<close>

definition triple ::
  "('s \<Rightarrow> bool) \<Rightarrow> ('s \<Rightarrow> bool) \<Rightarrow> ('s, 'r) prog \<Rightarrow> ('r \<Rightarrow> 's \<Rightarrow> bool) \<Rightarrow> bool" where
  "triple I P p Q \<longleftrightarrow> (\<forall>s. P s \<longrightarrow> always I p s \<and> Q (snd (run p s)) (fst (run p s)))"

lemma triple_pre: "triple I P p Q \<Longrightarrow> (\<And>s. P' s \<Longrightarrow> P s) \<Longrightarrow> triple I P' p Q"
  by (simp add: triple_def)

lemma triple_post: "triple I P p Q \<Longrightarrow> (\<And>r s. Q r s \<Longrightarrow> Q' r s) \<Longrightarrow> triple I P p Q'"
  by (simp add: triple_def)

lemma triple_always: "triple I P p Q \<Longrightarrow> P s \<Longrightarrow> always I p s"
  by (simp add: triple_def)

lemma triple_run: "triple I P p Q \<Longrightarrow> P s \<Longrightarrow> Q (snd (run p s)) (fst (run p s))"
  by (simp add: triple_def)

lemma triple_Ret: "(\<And>s. P s \<Longrightarrow> I s \<and> Q r s) \<Longrightarrow> triple I P (Ret r) Q"
  by (simp add: triple_def)

lemma triple_atom:
  "(\<And>s. P s \<Longrightarrow> I s \<and> I (fst (f s)) \<and> Q (snd (f s)) (fst (f s))) \<Longrightarrow> triple I P (atom f) Q"
  by (simp add: triple_def)

lemma triple_bind:
  "triple I P p M \<Longrightarrow> (\<And>r. triple I (M r) (k r) Q) \<Longrightarrow> triple I P (bind p k) Q"
  by (auto simp: triple_def)

lemma triple_ebind:
  assumes "triple I P p M" and "\<And>a. triple I (M (Inr a)) (k a) Q"
    and "\<And>e s. M (Inl e) s \<Longrightarrow> Q (Inl e) s"
  shows "triple I P (ebind p k) Q"
  using assms by (fastforce simp: triple_def split: sum.splits)

lemma triple_ok: "triple I P p (\<lambda>r. Q (Inr r)) \<Longrightarrow> triple I P (ok p) Q"
  by (simp add: triple_def)

lemma triple_conj:
  "triple I P p Q \<Longrightarrow> triple I P p Q' \<Longrightarrow> triple I P p (\<lambda>r s. Q r s \<and> Q' r s)"
  by (simp add: triple_def)

lemma triple_guar:
  assumes "guar R p" and "\<And>s s'. R s s' \<Longrightarrow> P s \<Longrightarrow> P s'"
  shows "triple P P p (\<lambda>r. P)"
  using guar_always [OF assms(1), of P] assms(2) by (auto simp: triple_def dest: always_end)

lemma triple_inv: "triple I P p Q \<Longrightarrow> (\<And>s. I s \<Longrightarrow> J s) \<Longrightarrow> triple J P p Q"
  by (auto simp: triple_def intro: always_mono)

lemma triple_ex: "(\<And>u. triple I (P u) p Q) \<Longrightarrow> triple I (\<lambda>s. \<exists>u. P u s) p Q"
  by (auto simp: triple_def)

text \<open>What every atom preserves is kept across the whole program.\<close>

lemma triple_frame:
  assumes "triple I P p Q" and "guar R p" and "\<And>s s'. R s s' \<Longrightarrow> F s \<Longrightarrow> F s'"
  shows "triple I (\<lambda>s. P s \<and> F s) p (\<lambda>r s. Q r s \<and> F s)"
  using assms(1) guar_always [OF assms(2), of F] assms(3) by (auto simp: triple_def dest: always_end)

lemma triple_bind_gets:
  "(\<And>x. triple I (\<lambda>s. P s \<and> f s = x) (k x) Q) \<Longrightarrow> (\<And>s. P s \<Longrightarrow> I s) \<Longrightarrow> triple I P (bind (gets f) k) Q"
  by (simp add: triple_def)

end
