(* ===== verification/Py_Values.thy ===== *)
theory Py_Values
  imports Complex_Main Prelude
begin

text \<open>
  The Python values the runtime handles and the standard-library functions it applies to them:
  dictionaries in insertion order, truth values, decimal and \<open>repr\<close> formatting, and what
  \<open>json.loads (json.dumps v)\<close> returns, which is what the event log gives back for a value that
  was written to it. Integers are unbounded as in Python. A float is the rational number it
  denotes; the rounding of float arithmetic is not modelled, nor are infinities and NaN.
\<close>

section \<open>Values\<close>

datatype pykey = KStr string | KInt int | KBool bool | KNone | KObj string

datatype pyval =
    PNone
  | PBool bool
  | PInt int
  | PFloat rat
  | PStr string
  | PList "pyval list"
  | PTuple "pyval list"
  | PDict "(pykey \<times> pyval) list"
  | PObj string \<comment> \<open>an object of any other class, by its class name\<close>

type_synonym pydict = "(pykey \<times> pyval) list"

fun dict_set :: "('k \<times> 'v) list \<Rightarrow> 'k \<Rightarrow> 'v \<Rightarrow> ('k \<times> 'v) list" where
  "dict_set [] k v = [(k, v)]"
| "dict_set ((k', v') # d) k v = (if k' = k then (k, v) # d else (k', v') # dict_set d k v)"

definition dict_update :: "('k \<times> 'v) list \<Rightarrow> ('k \<times> 'v) list \<Rightarrow> ('k \<times> 'v) list" where
  "dict_update d e = foldl (\<lambda>d (k, v). dict_set d k v) d e"

definition dict_get :: "pydict \<Rightarrow> string \<Rightarrow> pyval option" where
  "dict_get d k = map_of d (KStr k)"

text \<open>\<open>v.get(k, default)\<close>, for a value that is a dictionary.\<close>

definition py_get :: "pyval \<Rightarrow> string \<Rightarrow> pyval \<Rightarrow> pyval" where
  "py_get v k dflt =
     (case v of PDict d \<Rightarrow> (case dict_get d k of None \<Rightarrow> dflt | Some x \<Rightarrow> x) | _ \<Rightarrow> dflt)"

definition pydict_of :: "pyval \<Rightarrow> pydict" where
  "pydict_of v = (case v of PDict d \<Rightarrow> d | _ \<Rightarrow> [])"

fun truthy :: "pyval \<Rightarrow> bool" where
  "truthy PNone = False"
| "truthy (PBool b) = b"
| "truthy (PInt i) = (i \<noteq> 0)"
| "truthy (PFloat r) = (r \<noteq> 0)"
| "truthy (PStr s) = (s \<noteq> [])"
| "truthy (PList xs) = (xs \<noteq> [])"
| "truthy (PTuple xs) = (xs \<noteq> [])"
| "truthy (PDict d) = (d \<noteq> [])"
| "truthy (PObj _) = True"

lemma map_of_dict_set: "map_of (dict_set d k v) = (map_of d)(k \<mapsto> v)"
  by (induction d) (auto simp: fun_eq_iff)

lemma dict_get_Cons [simp]:
  "dict_get ((KStr k', v) # d) k = (if k' = k then Some v else dict_get d k)"
  by (simp add: dict_get_def)

lemma dict_get_Nil [simp]: "dict_get [] k = None"
  by (simp add: dict_get_def)

lemma py_get_Cons [simp]:
  "py_get (PDict ((KStr k', v) # d)) k dflt = (if k' = k then v else py_get (PDict d) k dflt)"
  by (simp add: py_get_def)

lemma py_get_Nil [simp]: "py_get (PDict []) k dflt = dflt"
  by (simp add: py_get_def)

lemma dict_set_new: "k \<notin> fst ` set d \<Longrightarrow> dict_set d k v = d @ [(k, v)]"
  by (induction d) force+

lemma distinct_dict_set: "distinct (map fst d) \<Longrightarrow> distinct (map fst (dict_set d k v))"
proof (induction d)
  case Nil
  then show ?case by simp
next
  case (Cons p d)
  have "fst ` set (dict_set d k v) = insert k (fst ` set d)"
    by (induction d) force+
  with Cons show ?case by (cases p) auto
qed

section \<open>Decimal numbers and repr\<close>

definition digit :: "nat \<Rightarrow> char" where
  "digit n = char_of (48 + n)"

fun str_nat :: "nat \<Rightarrow> string" where
  "str_nat n = (if n < 10 then [digit n] else str_nat (n div 10) @ [digit (n mod 10)])"

declare str_nat.simps [simp del]

definition str_int :: "int \<Rightarrow> string" where
  "str_int i = (if i < 0 then CHR 0x2D # str_nat (nat (- i)) else str_nat (nat i))"

text \<open>Reading the digits back.\<close>

definition undigit :: "char \<Rightarrow> nat" where
  "undigit c = of_char c - 48"

definition nat_str :: "string \<Rightarrow> nat" where
  "nat_str s = foldl (\<lambda>a c. 10 * a + undigit c) 0 s"

definition is_digit :: "char \<Rightarrow> bool" where
  "is_digit c \<longleftrightarrow> 48 \<le> (of_char c :: nat) \<and> (of_char c :: nat) < 58"

lemma of_char_digit: "n < 10 \<Longrightarrow> of_char (digit n) = (48 + n :: nat)"
  by (simp add: digit_def of_char_of)

lemma undigit_digit [simp]: "n < 10 \<Longrightarrow> undigit (digit n) = n"
  by (simp add: undigit_def of_char_digit)

lemma is_digit_digit [simp]: "n < 10 \<Longrightarrow> is_digit (digit n)"
  by (simp add: is_digit_def of_char_digit)

lemma nat_str_str_nat [simp]: "nat_str (str_nat n) = n"
proof (induction n rule: str_nat.induct)
  case (1 n)
  show ?case
  proof (cases "n < 10")
    case True
    then show ?thesis by (subst str_nat.simps) (simp add: nat_str_def)
  next
    case False
    with 1 have "nat_str (str_nat (n div 10)) = n div 10" by simp
    with False show ?thesis by (subst str_nat.simps) (simp add: nat_str_def)
  qed
qed

lemma str_nat_inj [simp]: "str_nat m = str_nat n \<longleftrightarrow> m = n"
  by (metis nat_str_str_nat)

lemma str_nat_digits: "c \<in> set (str_nat n) \<Longrightarrow> is_digit c"
proof (induction n rule: str_nat.induct)
  case (1 n)
  show ?case
  proof (cases "n < 10")
    case True
    with "1.prems" show ?thesis by (simp add: str_nat.simps [of n])
  next
    case False
    with 1 show ?thesis by (auto simp: str_nat.simps [of n])
  qed
qed

lemma str_nat_nonempty [simp]: "str_nat n \<noteq> []"
  by (subst str_nat.simps) simp

text \<open>\<open>repr\<close> of a string: single quotes unless the text has one and no double quote.\<close>

definition hex_digit :: "nat \<Rightarrow> char" where
  "hex_digit n = (if n < 10 then char_of (48 + n) else char_of (87 + n))"

definition repr_char :: "char \<Rightarrow> char \<Rightarrow> string" where
  "repr_char q c =
     (let n = (of_char c :: nat) in
      if c = q \<or> c = CHR 0x5C then [CHR 0x5C, c]
      else if n = 10 then [CHR 0x5C, CHR ''n'']
      else if n = 13 then [CHR 0x5C, CHR ''r'']
      else if n = 9 then [CHR 0x5C, CHR ''t'']
      else if n < 32 \<or> (127 \<le> n \<and> n \<le> 160) \<or> n = 173
        then [CHR 0x5C, CHR ''x'', hex_digit (n div 16), hex_digit (n mod 16)]
      else [c])"

definition repr_str :: "string \<Rightarrow> string" where
  "repr_str s =
     (let q = (if CHR 0x27 \<in> set s \<and> CHR 0x22 \<notin> set s then CHR 0x22 else CHR 0x27)
      in q # concat (map (repr_char q) s) @ [q])"

text \<open>\<open>round (x, n)\<close>: to \<open>n\<close> decimals, ties to the even neighbour.\<close>

definition round_half_even :: "rat \<Rightarrow> int" where
  "round_half_even x =
     (let f = \<lfloor>x\<rfloor>; d = x - of_int f
      in if d < 1 / 2 then f else if 1 / 2 < d then f + 1 else if even f then f else f + 1)"

definition py_round :: "rat \<Rightarrow> nat \<Rightarrow> rat" where
  "py_round x n = of_int (round_half_even (x * 10 ^ n)) / 10 ^ n"

section \<open>JSON\<close>

text \<open>
  \<open>json_ok v\<close>: \<open>json.dumps v\<close> does not raise. \<open>json_norm v\<close> is what \<open>json.loads\<close> makes of the
  text: a tuple comes back as a list, a key that is no string as its text.
\<close>

fun json_key_ok :: "pykey \<Rightarrow> bool" where
  "json_key_ok (KObj _) = False"
| "json_key_ok _ = True"

fun json_key :: "pykey \<Rightarrow> string" where
  "json_key (KStr s) = s"
| "json_key (KInt i) = str_int i"
| "json_key (KBool b) = (if b then ''true'' else ''false'')"
| "json_key KNone = ''null''"
| "json_key (KObj s) = s"

fun json_ok :: "pyval \<Rightarrow> bool" where
  "json_ok (PList xs) = list_all json_ok xs"
| "json_ok (PTuple xs) = list_all json_ok xs"
| "json_ok (PDict d) = list_all (\<lambda>(k, v). json_key_ok k \<and> json_ok v) d"
| "json_ok (PObj _) = False"
| "json_ok _ = True"

fun json_norm :: "pyval \<Rightarrow> pyval" where
  "json_norm (PList xs) = PList (map json_norm xs)"
| "json_norm (PTuple xs) = PList (map json_norm xs)"
| "json_norm (PDict d) = PDict (dict_update [] (map (\<lambda>(k, v). (KStr (json_key k), json_norm v)) d))"
| "json_norm v = v"

text \<open>A value that JSON carries as it is: lists for sequences, distinct string keys.\<close>

fun is_str_key :: "pykey \<Rightarrow> bool" where
  "is_str_key (KStr _) = True"
| "is_str_key _ = False"

fun json_native :: "pyval \<Rightarrow> bool" where
  "json_native (PList xs) = list_all json_native xs"
| "json_native (PTuple xs) = False"
| "json_native (PDict d) =
     (distinct (map fst d) \<and> list_all (\<lambda>(k, v). is_str_key k \<and> json_native v) d)"
| "json_native (PObj _) = False"
| "json_native _ = True"

lemma dict_update_append:
  "distinct (map fst (d @ e)) \<Longrightarrow> dict_update d e = d @ e"
proof (induction e arbitrary: d)
  case Nil
  then show ?case by (simp add: dict_update_def)
next
  case (Cons p e)
  from Cons.prems have "fst p \<notin> fst ` set d" by auto
  then have "dict_set d (fst p) (snd p) = d @ [p]" by (simp add: dict_set_new)
  moreover have "dict_update (d @ [p]) e = (d @ [p]) @ e"
    using Cons.prems by (intro Cons.IH) simp
  ultimately show ?case by (simp add: dict_update_def split_def)
qed

lemma dict_update_distinct: "distinct (map fst d) \<Longrightarrow> distinct (map fst (dict_update d e))"
  by (induction e arbitrary: d) (auto simp: dict_update_def distinct_dict_set)

lemma dict_update_vals:
  "list_all P d \<Longrightarrow> list_all P e \<Longrightarrow> list_all P (dict_update d e)"
proof (induction e arbitrary: d)
  case Nil
  then show ?case by (simp add: dict_update_def)
next
  case (Cons p e)
  have "list_all P (dict_set d (fst p) (snd p))"
    using Cons.prems by (induction d) auto
  with Cons show ?case by (simp add: dict_update_def split_def)
qed

lemma json_native_ok: "json_native v \<Longrightarrow> json_ok v"
proof (induction v rule: json_ok.induct)
  case (3 d)
  then show ?case by (fastforce simp: list_all_iff elim: is_str_key.elims)
qed (auto simp: list_all_iff)

text \<open>A native value survives the log unchanged.\<close>

lemma json_norm_native: "json_native v \<Longrightarrow> json_norm v = v"
proof (induction v rule: json_norm.induct)
  case (1 xs)
  then show ?case by (simp add: list_all_iff map_idI)
next
  case (3 d)
  have "(KStr (json_key k), json_norm v) = (k, v)" if kv: "(k, v) \<in> set d" for k v
  proof -
    from "3.prems" kv have "is_str_key k" and nv: "json_native v"
      by (auto simp: list_all_iff)
    then have "KStr (json_key k) = k" by (cases k) simp_all
    moreover have "json_norm v = v" using "3.IH" [OF kv refl nv] .
    ultimately show ?thesis by simp
  qed
  then have "map (\<lambda>(k, v). (KStr (json_key k), json_norm v)) d = d"
    by (intro map_idI) auto
  with "3.prems" show ?case by (simp add: dict_update_append [of "[]", simplified])
qed auto

text \<open>What the log gives back is native, so a second round trip changes nothing more.\<close>

lemma json_native_norm: "json_ok v \<Longrightarrow> json_native (json_norm v)"
proof (induction v rule: json_norm.induct)
  case (3 d)
  let ?e = "map (\<lambda>(k, v). (KStr (json_key k), json_norm v)) d"
  have "list_all (\<lambda>(k, v). is_str_key k \<and> json_native v) ?e"
    using 3 by (fastforce simp: list_all_iff)
  then have "list_all (\<lambda>(k, v). is_str_key k \<and> json_native v) (dict_update [] ?e)"
    by (intro dict_update_vals) simp_all
  moreover have "distinct (map fst (dict_update [] ?e))"
    by (rule dict_update_distinct) simp
  ultimately show ?case by simp
qed (auto simp: list_all_iff)

lemma json_norm_idem: "json_ok v \<Longrightarrow> json_norm (json_norm v) = json_norm v"
  by (intro json_norm_native json_native_norm)

section \<open>Rounding\<close>

text \<open>Rounding to the nearest integer, halves to the even one.\<close>

definition round_even :: "rat \<Rightarrow> int" where
  "round_even r = (if of_int \<lfloor>r\<rfloor> + 1 / 2 = r \<and> even \<lfloor>r\<rfloor> then \<lfloor>r\<rfloor> else \<lfloor>r + 1 / 2\<rfloor>)"

lemma round_even_int: "round_even (of_int i) = i"
proof -
  have "\<lfloor>of_int i + 1 / 2 :: rat\<rfloor> = i" by (rule floor_unique) simp_all
  then show ?thesis by (simp add: round_even_def)
qed

lemma round_even_nonneg: "0 \<le> r \<Longrightarrow> 0 \<le> round_even r"
  by (simp add: round_even_def)

end
