(* ===== verification/Events.thy ===== *)
theory Events
  imports Py_Values "HOL-Library.Word"
begin

unbundle bit_operations_syntax

text \<open>
  \<open>src/anchor/events.py\<close>: the event vocabulary and the derivation of a step's idempotency token.
  The token is \<open>uuid.uuid5\<close> of the run and the step key, so the theory also holds what the
  standard library computes for it: a UUID as its 128-bit integer, its text, SHA-1, and the
  version and variant bits of \<open>uuid5\<close>. Text is hashed as its bytes, which is its UTF-8 encoding
  for the ASCII text the runtime hashes.
\<close>

section \<open>Event vocabulary\<close>

datatype event_type =
    RUN_STARTED | RUN_RESUMED | STEP_STARTED | STEP_COMPLETED | STEP_RETRIED | STEP_FAILED
  | MODEL_CALLED | TOOL_INVOKED | BUDGET_EXCEEDED | CANCEL_REQUESTED | RUN_COMPLETED
  | RUN_FAILED | RUN_CANCELLED | RUN_NEEDS_REVIEW

fun event_type_name :: "event_type \<Rightarrow> string" where
  "event_type_name RUN_STARTED = ''RunStarted''"
| "event_type_name RUN_RESUMED = ''RunResumed''"
| "event_type_name STEP_STARTED = ''StepStarted''"
| "event_type_name STEP_COMPLETED = ''StepCompleted''"
| "event_type_name STEP_RETRIED = ''StepRetried''"
| "event_type_name STEP_FAILED = ''StepFailed''"
| "event_type_name MODEL_CALLED = ''ModelCalled''"
| "event_type_name TOOL_INVOKED = ''ToolInvoked''"
| "event_type_name BUDGET_EXCEEDED = ''BudgetExceeded''"
| "event_type_name CANCEL_REQUESTED = ''CancelRequested''"
| "event_type_name RUN_COMPLETED = ''RunCompleted''"
| "event_type_name RUN_FAILED = ''RunFailed''"
| "event_type_name RUN_CANCELLED = ''RunCancelled''"
| "event_type_name RUN_NEEDS_REVIEW = ''RunNeedsReview''"

section \<open>SHA-1\<close>

type_synonym u8 = "8 word"
type_synonym u32 = "32 word"

definition word_bytes :: "nat \<Rightarrow> 'a::len word \<Rightarrow> u8 list" where
  "word_bytes n x = map (\<lambda>i. ucast (drop_bit (8 * i) x)) (rev [0..<n])"

definition rotl32 :: "nat \<Rightarrow> u32 \<Rightarrow> u32" where
  "rotl32 n x = push_bit n x OR drop_bit (32 - n) x"

definition sha1_pad :: "u8 list \<Rightarrow> u8 list" where
  "sha1_pad m =
     m @ [0x80] @ replicate (nat ((55 - int (length m)) mod 64)) 0 @ word_bytes 8 (word_of_nat (8 * length m) :: 64 word)"

fun u32s_of_bytes :: "u8 list \<Rightarrow> u32 list" where
  "u32s_of_bytes (a # b # c # d # bs) =
     (push_bit 24 (ucast a) OR push_bit 16 (ucast b) OR push_bit 8 (ucast c) OR ucast d)
       # u32s_of_bytes bs"
| "u32s_of_bytes _ = []"

text \<open>The message schedule, latest word first.\<close>

fun sha1_schedule :: "nat \<Rightarrow> u32 list \<Rightarrow> u32 list" where
  "sha1_schedule 0 ws = ws"
| "sha1_schedule (Suc n) ws =
     sha1_schedule n (rotl32 1 (ws ! 2 XOR ws ! 7 XOR ws ! 13 XOR ws ! 15) # ws)"

definition sha1_f :: "nat \<Rightarrow> u32 \<Rightarrow> u32 \<Rightarrow> u32 \<Rightarrow> u32" where
  "sha1_f t b c d =
     (if t < 20 then (b AND c) OR (NOT b AND d)
      else if t < 40 then b XOR c XOR d
      else if t < 60 then (b AND c) OR (b AND d) OR (c AND d)
      else b XOR c XOR d)"

definition sha1_k :: "nat \<Rightarrow> u32" where
  "sha1_k t =
     (if t < 20 then 0x5A827999 else if t < 40 then 0x6ED9EBA1
      else if t < 60 then 0x8F1BBCDC else 0xCA62C1D6)"

type_synonym sha1_state = "u32 \<times> u32 \<times> u32 \<times> u32 \<times> u32"

fun sha1_rounds :: "nat \<Rightarrow> u32 list \<Rightarrow> sha1_state \<Rightarrow> sha1_state" where
  "sha1_rounds t [] h = h"
| "sha1_rounds t (w # ws) (a, b, c, d, e) =
     sha1_rounds (Suc t) ws
       (rotl32 5 a + sha1_f t b c d + e + w + sha1_k t, a, rotl32 30 b, c, d)"

fun sha1_block :: "u32 list \<Rightarrow> sha1_state \<Rightarrow> sha1_state" where
  "sha1_block ws (a, b, c, d, e) =
     (case sha1_rounds 0 (rev (sha1_schedule 64 (rev ws))) (a, b, c, d, e) of
        (a', b', c', d', e') \<Rightarrow> (a + a', b + b', c + c', d + d', e + e'))"

function sha1_blocks :: "u32 list \<Rightarrow> sha1_state \<Rightarrow> sha1_state" where
  "sha1_blocks ws h =
     (if length ws < 16 then h else sha1_blocks (drop 16 ws) (sha1_block (take 16 ws) h))"
  by pat_completeness auto
termination
  by (relation "measure (\<lambda>(ws, h). length ws)") auto

definition sha1 :: "u8 list \<Rightarrow> u32 list" where
  "sha1 m =
     (case sha1_blocks (u32s_of_bytes (sha1_pad m))
             (0x67452301, 0xEFCDAB89, 0x98BADCFE, 0x10325476, 0xC3D2E1F0)
      of (a, b, c, d, e) \<Rightarrow> [a, b, c, d, e])"

section \<open>UUIDs\<close>

type_synonym uuid = "128 word"

definition uuid_nibbles :: "uuid \<Rightarrow> nat list" where
  "uuid_nibbles u = map (\<lambda>i. unat (drop_bit (4 * i) u) mod 16) (rev [0..<32])"

text \<open>\<open>str(u)\<close>: 32 hexadecimal digits in groups of 8, 4, 4, 4 and 12.\<close>

definition uuid_str :: "uuid \<Rightarrow> string" where
  "uuid_str u =
     (let h = map hex_digit (uuid_nibbles u); dash = [CHR 0x2D]
      in take 8 h @ dash @ take 4 (drop 8 h) @ dash @ take 4 (drop 12 h) @ dash
         @ take 4 (drop 16 h) @ dash @ drop 20 h)"

definition uuid_bytes :: "uuid \<Rightarrow> u8 list" where
  "uuid_bytes u = word_bytes 16 u"

text \<open>\<open>uuid.UUID(bytes=b, version=5)\<close> overwrites the variant and the version bits.\<close>

definition set_version5 :: "uuid \<Rightarrow> uuid" where
  "set_version5 u =
     (((u AND NOT (push_bit 48 0xC000)) OR push_bit 48 0x8000)
        AND NOT (push_bit 64 0xF000)) OR push_bit 76 5"

definition uuid5 :: "uuid \<Rightarrow> string \<Rightarrow> uuid" where
  "uuid5 ns name =
     (case sha1 (uuid_bytes ns @ map of_char name) of
        a # b # c # d # _ \<Rightarrow>
          set_version5 (push_bit 96 (ucast a) OR push_bit 64 (ucast b)
                        OR push_bit 32 (ucast c) OR ucast d)
      | _ \<Rightarrow> 0)"

definition TOKEN_NAMESPACE :: uuid where
  "TOKEN_NAMESPACE = 0x6f1b7a4e3c254a8f9f6f2f0d1c9b8a77"

definition step_token :: "uuid \<Rightarrow> string \<Rightarrow> uuid" where
  "step_token run_id step_key = uuid5 TOKEN_NAMESPACE (uuid_str run_id @ '':'' @ step_key)"

end
