(* ===== verification/Errors.thy ===== *)
theory Errors
  imports Py_Values
begin

text \<open>
  \<open>src/anchor/errors.py\<close>: the exception hierarchy as a datatype, the texts the exceptions carry,
  and the class names the engine records. Every other exception a tool, a model provider or the
  library raises is a \<open>PyError\<close> with its class name and its message. Messages that print a float
  use the parameter \<open>float_str\<close>, Python's shortest decimal text of a float.
\<close>

datatype exn =
    WorkflowNotFound string
  | ToolNotFound string
  | StepFailedError (sf_step_key: string) (sf_attempts: int) (sf_cause: exn)
  | BudgetExceededError (be_dimension: string) (be_limit: pyval) (be_observed: pyval)
  | CancellationRequested string
  | AmbiguousStepError (am_step_key: string) (am_token: string)
  | LeaseLost string
  | PyError (py_class: string) (py_message: "string option")

text \<open>\<open>type(exc).__name__\<close>\<close>

fun exn_type :: "exn \<Rightarrow> string" where
  "exn_type (WorkflowNotFound _) = ''WorkflowNotFound''"
| "exn_type (ToolNotFound _) = ''ToolNotFound''"
| "exn_type (StepFailedError _ _ _) = ''StepFailedError''"
| "exn_type (BudgetExceededError _ _ _) = ''BudgetExceededError''"
| "exn_type (CancellationRequested _) = ''CancellationRequested''"
| "exn_type (AmbiguousStepError _ _) = ''AmbiguousStepError''"
| "exn_type (LeaseLost _) = ''LeaseLost''"
| "exn_type (PyError c _) = c"

fun num_str :: "(rat \<Rightarrow> string) \<Rightarrow> pyval \<Rightarrow> string" where
  "num_str fs (PInt i) = str_int i"
| "num_str fs (PFloat r) = fs r"
| "num_str fs _ = []"

text \<open>\<open>str(exc)\<close> and \<open>repr(exc)\<close>. Every runtime error is built from one message.\<close>

fun exn_str :: "(rat \<Rightarrow> string) \<Rightarrow> exn \<Rightarrow> string" and exn_repr :: "(rat \<Rightarrow> string) \<Rightarrow> exn \<Rightarrow> string" where
  "exn_str fs (WorkflowNotFound m) = m"
| "exn_str fs (ToolNotFound m) = m"
| "exn_str fs (StepFailedError k n c) =
     ''step '' @ repr_str k @ '' failed after '' @ str_int n @ '' attempt(s): '' @ exn_repr fs c"
| "exn_str fs (BudgetExceededError d l ob) =
     ''budget exceeded on '' @ d @ '': '' @ num_str fs ob @ '' > '' @ num_str fs l"
| "exn_str fs (CancellationRequested m) = m"
| "exn_str fs (AmbiguousStepError k t) =
     ''step '' @ repr_str k @ '' (token '' @ t @ '') started but never completed; ''
       @ ''outcome unknown and step is declared at-most-once''"
| "exn_str fs (LeaseLost m) = m"
| "exn_str fs (PyError c m) = (case m of None \<Rightarrow> [] | Some s \<Rightarrow> s)"
| "exn_repr fs (PyError c None) = c @ ''()''"
| "exn_repr fs (WorkflowNotFound m) = ''WorkflowNotFound('' @ repr_str m @ '')''"
| "exn_repr fs (ToolNotFound m) = ''ToolNotFound('' @ repr_str m @ '')''"
| "exn_repr fs (StepFailedError k n c) =
     ''StepFailedError('' @ repr_str (''step '' @ repr_str k @ '' failed after '' @ str_int n
       @ '' attempt(s): '' @ exn_repr fs c) @ '')''"
| "exn_repr fs (BudgetExceededError d l ob) =
     ''BudgetExceededError('' @ repr_str (''budget exceeded on '' @ d @ '': '' @ num_str fs ob
       @ '' > '' @ num_str fs l) @ '')''"
| "exn_repr fs (CancellationRequested m) = ''CancellationRequested('' @ repr_str m @ '')''"
| "exn_repr fs (AmbiguousStepError k t) =
     ''AmbiguousStepError('' @ repr_str (''step '' @ repr_str k @ '' (token '' @ t
       @ '') started but never completed; ''
       @ ''outcome unknown and step is declared at-most-once'') @ '')''"
| "exn_repr fs (LeaseLost m) = ''LeaseLost('' @ repr_str m @ '')''"
| "exn_repr fs (PyError c (Some s)) = c @ ''('' @ repr_str s @ '')''"

text \<open>Within the hierarchy a message and its \<open>repr\<close> agree: the class name around the quoted message.\<close>

lemma exn_repr_str:
  assumes "\<And>c. e \<noteq> PyError c None"
  shows "exn_repr fs e = exn_type e @ ''('' @ repr_str (exn_str fs e) @ '')''"
proof (cases e)
  case (PyError c m)
  with assms obtain s where "m = Some s" by (cases m) auto
  with PyError show ?thesis by simp
qed simp_all

text \<open>The two exceptions a step's retry loop lets through.\<close>

fun passes_retry :: "exn \<Rightarrow> bool" where
  "passes_retry (CancellationRequested _) = True"
| "passes_retry (LeaseLost _) = True"
| "passes_retry _ = False"

text \<open>A Python function returns a value or raises.\<close>

type_synonym 'a py_result = "exn + 'a"

end
