(* ===== verification/Models.thy ===== *)
theory Models
  imports Events Errors
begin

text \<open>
  \<open>src/anchor/models.py\<close>: the value types the engine, the store and the API share. Times are
  rational seconds since an epoch.
\<close>

datatype run_status = PENDING | RUNNING | COMPLETED | FAILED | CANCELLED | NEEDS_REVIEW

definition terminal :: "run_status \<Rightarrow> bool" where
  "terminal st \<longleftrightarrow> st \<in> {COMPLETED, FAILED, CANCELLED, NEEDS_REVIEW}"

lemma terminal_simps [simp]:
  "\<not> terminal PENDING" "\<not> terminal RUNNING" "terminal COMPLETED" "terminal FAILED"
  "terminal CANCELLED" "terminal NEEDS_REVIEW"
  by (simp_all add: terminal_def)

fun status_value :: "run_status \<Rightarrow> string" where
  "status_value PENDING = ''PENDING''"
| "status_value RUNNING = ''RUNNING''"
| "status_value COMPLETED = ''COMPLETED''"
| "status_value FAILED = ''FAILED''"
| "status_value CANCELLED = ''CANCELLED''"
| "status_value NEEDS_REVIEW = ''NEEDS_REVIEW''"

definition run_statuses :: "run_status list" where
  "run_statuses = [PENDING, RUNNING, COMPLETED, FAILED, CANCELLED, NEEDS_REVIEW]"

datatype step_idempotency = AT_LEAST_ONCE | AT_MOST_ONCE

fun idempotency_value :: "step_idempotency \<Rightarrow> string" where
  "idempotency_value AT_LEAST_ONCE = ''at_least_once''"
| "idempotency_value AT_MOST_ONCE = ''at_most_once''"

section \<open>Budgets\<close>

record budget =
  b_max_tokens :: "int option"
  b_max_tool_calls :: "int option"
  b_max_model_calls :: "int option"
  b_max_wall_seconds :: "rat option"
  b_max_cost_usd :: "rat option"

definition no_budget :: budget where
  "no_budget = \<lparr>b_max_tokens = None, b_max_tool_calls = None, b_max_model_calls = None,
                b_max_wall_seconds = None, b_max_cost_usd = None\<rparr>"

definition opt_item :: "string \<Rightarrow> ('a \<Rightarrow> pyval) \<Rightarrow> 'a option \<Rightarrow> pydict" where
  "opt_item k mk v = (case v of None \<Rightarrow> [] | Some x \<Rightarrow> [(KStr k, mk x)])"

definition budget_to_dict :: "budget \<Rightarrow> pydict" where
  "budget_to_dict b =
     opt_item ''max_tokens'' PInt (b_max_tokens b)
     @ opt_item ''max_tool_calls'' PInt (b_max_tool_calls b)
     @ opt_item ''max_model_calls'' PInt (b_max_model_calls b)
     @ opt_item ''max_wall_seconds'' PFloat (b_max_wall_seconds b)
     @ opt_item ''max_cost_usd'' PFloat (b_max_cost_usd b)"

text \<open>Reading a number back; the fields of other types that Python would accept are not modelled.\<close>

fun as_int :: "pyval \<Rightarrow> int option" where
  "as_int (PInt i) = Some i"
| "as_int _ = None"

fun as_rat :: "pyval \<Rightarrow> rat option" where
  "as_rat (PInt i) = Some (of_int i)"
| "as_rat (PFloat r) = Some r"
| "as_rat _ = None"

definition dict_int :: "pydict \<Rightarrow> string \<Rightarrow> int option" where
  "dict_int d k = Option.bind (dict_get d k) as_int"

definition dict_rat :: "pydict \<Rightarrow> string \<Rightarrow> rat option" where
  "dict_rat d k = Option.bind (dict_get d k) as_rat"

definition budget_from_dict :: "pydict \<Rightarrow> budget" where
  "budget_from_dict d =
     \<lparr>b_max_tokens = dict_int d ''max_tokens'', b_max_tool_calls = dict_int d ''max_tool_calls'',
      b_max_model_calls = dict_int d ''max_model_calls'',
      b_max_wall_seconds = dict_rat d ''max_wall_seconds'',
      b_max_cost_usd = dict_rat d ''max_cost_usd''\<rparr>"

lemma budget_dict_roundtrip: "budget_from_dict (budget_to_dict b) = b"
  by (cases b) (auto simp: budget_from_dict_def budget_to_dict_def dict_int_def dict_rat_def
      opt_item_def split: option.splits)

section \<open>Usage\<close>

record usage =
  u_input_tokens :: int
  u_output_tokens :: int
  u_tool_calls :: int
  u_model_calls :: int
  u_cost_usd :: rat

definition no_usage :: usage where
  "no_usage = \<lparr>u_input_tokens = 0, u_output_tokens = 0, u_tool_calls = 0, u_model_calls = 0,
               u_cost_usd = 0\<rparr>"

definition total_tokens :: "usage \<Rightarrow> int" where
  "total_tokens u = u_input_tokens u + u_output_tokens u"

definition usage_to_dict :: "usage \<Rightarrow> pydict" where
  "usage_to_dict u =
     [(KStr ''input_tokens'', PInt (u_input_tokens u)),
      (KStr ''output_tokens'', PInt (u_output_tokens u)),
      (KStr ''tool_calls'', PInt (u_tool_calls u)),
      (KStr ''model_calls'', PInt (u_model_calls u)),
      (KStr ''cost_usd'', PFloat (u_cost_usd u)),
      (KStr ''total_tokens'', PInt (total_tokens u))]"

definition usage_from_dict :: "pydict \<Rightarrow> usage" where
  "usage_from_dict d =
     (let int0 = (\<lambda>k. case dict_int d k of None \<Rightarrow> 0 | Some i \<Rightarrow> i)
      in \<lparr>u_input_tokens = int0 ''input_tokens'', u_output_tokens = int0 ''output_tokens'',
          u_tool_calls = int0 ''tool_calls'', u_model_calls = int0 ''model_calls'',
          u_cost_usd = (case dict_rat d ''cost_usd'' of None \<Rightarrow> 0 | Some r \<Rightarrow> r)\<rparr>)"

lemma usage_dict_roundtrip: "usage_from_dict (usage_to_dict u) = u"
  by (simp add: usage_from_dict_def usage_to_dict_def dict_int_def dict_rat_def)

lemma json_native_budget: "json_native (PDict (budget_to_dict b))"
  by (auto simp: budget_to_dict_def opt_item_def split: option.splits)

lemma json_native_usage: "json_native (PDict (usage_to_dict u))"
  by (simp add: usage_to_dict_def)

section \<open>Runs, events and claims\<close>

record run_record =
  rr_run_id :: uuid
  rr_workflow :: string
  rr_input :: pyval
  rr_idempotency_key :: string
  rr_status :: run_status
  rr_event_seq :: nat
  rr_attempt :: nat
  rr_budget :: budget
  rr_usage :: usage
  rr_result :: pyval
  rr_error :: pyval
  rr_cancel_requested :: bool
  rr_created_at :: rat
  rr_updated_at :: rat
  rr_finished_at :: "rat option"

record event =
  ev_seq :: nat
  ev_type :: event_type
  ev_step_key :: "string option"
  ev_payload :: pyval
  ev_created_at :: rat

record claim =
  cl_run_id :: uuid
  cl_attempts :: nat

text \<open>The API's view of a run and of an event; \<open>isoformat\<close> prints a time.\<close>

definition opt_str :: "string option \<Rightarrow> pyval" where
  "opt_str s = (case s of None \<Rightarrow> PNone | Some x \<Rightarrow> PStr x)"

definition run_to_api :: "(rat \<Rightarrow> string) \<Rightarrow> run_record \<Rightarrow> pydict" where
  "run_to_api isoformat r =
     [(KStr ''run_id'', PStr (uuid_str (rr_run_id r))),
      (KStr ''workflow'', PStr (rr_workflow r)),
      (KStr ''status'', PStr (status_value (rr_status r))),
      (KStr ''attempt'', PInt (int (rr_attempt r))),
      (KStr ''idempotency_key'', PStr (rr_idempotency_key r)),
      (KStr ''budget'', PDict (budget_to_dict (rr_budget r))),
      (KStr ''usage'', PDict (usage_to_dict (rr_usage r))),
      (KStr ''result'', rr_result r),
      (KStr ''error'', rr_error r),
      (KStr ''cancel_requested'', PBool (rr_cancel_requested r)),
      (KStr ''created_at'', PStr (isoformat (rr_created_at r))),
      (KStr ''updated_at'', PStr (isoformat (rr_updated_at r))),
      (KStr ''finished_at'', opt_str (map_option isoformat (rr_finished_at r)))]"

definition event_to_api :: "(rat \<Rightarrow> string) \<Rightarrow> event \<Rightarrow> pydict" where
  "event_to_api isoformat e =
     [(KStr ''seq'', PInt (int (ev_seq e))),
      (KStr ''type'', PStr (event_type_name (ev_type e))),
      (KStr ''step_key'', opt_str (ev_step_key e)),
      (KStr ''payload'', ev_payload e),
      (KStr ''created_at'', PStr (isoformat (ev_created_at e)))]"

end
