(* ===== verification/Providers.thy ===== *)
theory Providers
  imports Prog Models
begin

text \<open>
  \<open>src/anchor/providers/\<close>: the narrow interface to a language model (\<open>base.py\<close>) and the
  deterministic provider the repository runs its tests and its demo against (\<open>echo.py\<close>). Code
  outside the runtime (a provider, a tool body, a verifier) is a program over the clock and the
  state \<open>'x\<close> of the outside world.
\<close>

type_synonym ('x, 'r) outside = "(rat \<times> 'x, 'r py_result) prog"

section \<open>Responses\<close>

record tool_call =
  tc_id :: string
  tc_name :: string
  tc_arguments :: pydict

definition tool_call_to_dict :: "tool_call \<Rightarrow> pyval" where
  "tool_call_to_dict c =
     PDict [(KStr ''id'', PStr (tc_id c)), (KStr ''name'', PStr (tc_name c)),
            (KStr ''arguments'', PDict (tc_arguments c))]"

record model_response =
  mr_text :: string
  mr_tool_calls :: "tool_call list"
  mr_stop_reason :: string
  mr_input_tokens :: int
  mr_output_tokens :: int
  mr_cost_usd :: rat
  mr_model :: string

definition wants_tools :: "model_response \<Rightarrow> bool" where
  "wants_tools r \<longleftrightarrow> mr_tool_calls r \<noteq> []"

definition response_to_dict :: "model_response \<Rightarrow> pyval" where
  "response_to_dict r =
     PDict [(KStr ''text'', PStr (mr_text r)),
            (KStr ''tool_calls'', PList (map tool_call_to_dict (mr_tool_calls r))),
            (KStr ''stop_reason'', PStr (mr_stop_reason r)),
            (KStr ''input_tokens'', PInt (mr_input_tokens r)),
            (KStr ''output_tokens'', PInt (mr_output_tokens r)),
            (KStr ''cost_usd'', PFloat (mr_cost_usd r)),
            (KStr ''model'', PStr (mr_model r))]"

text \<open>
  Reading a recorded response back. A missing \<open>id\<close> or \<open>name\<close> raises \<open>KeyError\<close>; the other fields
  have defaults. The fields' types are those \<open>to_dict\<close> writes: a field of another type, which
  Python would carry along unchecked, raises here.
\<close>

definition type_error :: "string \<Rightarrow> exn" where
  "type_error m = PyError ''TypeError'' (Some m)"

definition key_error :: "string \<Rightarrow> exn" where
  "key_error k = PyError ''KeyError'' (Some (repr_str k))"

fun as_str :: "pyval \<Rightarrow> string py_result" where
  "as_str (PStr s) = Inr s"
| "as_str _ = Inl (type_error ''not a string'')"

definition get_str :: "pyval \<Rightarrow> string \<Rightarrow> string \<Rightarrow> string py_result" where
  "get_str v k dflt = as_str (py_get v k (PStr dflt))"

definition item_str :: "pyval \<Rightarrow> string \<Rightarrow> string py_result" where
  "item_str v k =
     (case v of
        PDict d \<Rightarrow> (case dict_get d k of None \<Rightarrow> Inl (key_error k) | Some x \<Rightarrow> as_str x)
      | _ \<Rightarrow> Inl (type_error ''not a dict''))"

definition get_int :: "pyval \<Rightarrow> string \<Rightarrow> int py_result" where
  "get_int v k =
     (case as_int (py_get v k (PInt 0)) of None \<Rightarrow> Inl (type_error ''not an int'') | Some i \<Rightarrow> Inr i)"

definition get_float :: "pyval \<Rightarrow> string \<Rightarrow> rat py_result" where
  "get_float v k =
     (case as_rat (py_get v k (PFloat 0)) of None \<Rightarrow> Inl (type_error ''not a float'') | Some i \<Rightarrow> Inr i)"

definition res_bind :: "'a py_result \<Rightarrow> ('a \<Rightarrow> 'b py_result) \<Rightarrow> 'b py_result" where
  "res_bind x f = (case x of Inl e \<Rightarrow> Inl e | Inr a \<Rightarrow> f a)"

lemma res_bind_simps [simp]: "res_bind (Inl e) f = Inl e" "res_bind (Inr a) f = f a"
  by (simp_all add: res_bind_def)

fun res_map :: "('a \<Rightarrow> 'b py_result) \<Rightarrow> 'a list \<Rightarrow> 'b list py_result" where
  "res_map f [] = Inr []"
| "res_map f (x # xs) = res_bind (f x) (\<lambda>y. res_bind (res_map f xs) (\<lambda>ys. Inr (y # ys)))"

definition tool_call_from_dict :: "pyval \<Rightarrow> tool_call py_result" where
  "tool_call_from_dict v =
     res_bind (item_str v ''id'') (\<lambda>i.
     res_bind (item_str v ''name'') (\<lambda>n.
     (case py_get v ''arguments'' PNone of
        PDict d \<Rightarrow> Inr \<lparr>tc_id = i, tc_name = n, tc_arguments = d\<rparr>
      | a \<Rightarrow> if truthy a then Inl (type_error ''not a dict'')
             else Inr \<lparr>tc_id = i, tc_name = n, tc_arguments = []\<rparr>)))"

definition response_from_dict :: "pyval \<Rightarrow> model_response py_result" where
  "response_from_dict v =
     res_bind (get_str v ''text'' []) (\<lambda>tx.
     res_bind (case py_get v ''tool_calls'' (PList []) of
                 PList xs \<Rightarrow> res_map tool_call_from_dict xs
               | _ \<Rightarrow> Inl (type_error ''not a list'')) (\<lambda>tcs.
     res_bind (get_str v ''stop_reason'' ''end_turn'') (\<lambda>sr.
     res_bind (get_int v ''input_tokens'') (\<lambda>inp.
     res_bind (get_int v ''output_tokens'') (\<lambda>out.
     res_bind (get_float v ''cost_usd'') (\<lambda>cost.
     res_bind (get_str v ''model'' ''unknown'') (\<lambda>m.
       Inr \<lparr>mr_text = tx, mr_tool_calls = tcs, mr_stop_reason = sr, mr_input_tokens = inp,
            mr_output_tokens = out, mr_cost_usd = cost, mr_model = m\<rparr>)))))))"

lemma tool_call_roundtrip: "tool_call_from_dict (tool_call_to_dict c) = Inr c"
  by (simp add: tool_call_from_dict_def tool_call_to_dict_def item_str_def)

lemma res_map_Inr: "(\<And>x. x \<in> set xs \<Longrightarrow> f (g x) = Inr x) \<Longrightarrow> res_map f (map g xs) = Inr xs"
  by (induction xs) simp_all

lemma response_roundtrip: "response_from_dict (response_to_dict r) = Inr r"
  by (simp add: response_from_dict_def response_to_dict_def get_str_def get_int_def get_float_def
      tool_call_roundtrip res_map_Inr)

text \<open>Through the event log as well, when the model's tool arguments are JSON.\<close>

definition response_native :: "model_response \<Rightarrow> bool" where
  "response_native r \<longleftrightarrow> (\<forall>c \<in> set (mr_tool_calls r). json_native (PDict (tc_arguments c)))"

lemma json_native_response: "response_native r \<Longrightarrow> json_native (response_to_dict r)"
  by (auto simp: response_native_def response_to_dict_def tool_call_to_dict_def list_all_iff)

lemma response_log_roundtrip:
  "response_native r \<Longrightarrow> response_from_dict (json_norm (response_to_dict r)) = Inr r"
  by (simp add: json_norm_native json_native_response response_roundtrip)

section \<open>Providers\<close>

record model_request =
  rq_messages :: "pyval list"
  rq_tools :: "pyval list option"
  rq_system :: "string option"
  rq_max_tokens :: int

record 'x provider =
  pv_name :: string
  pv_complete :: "model_request \<Rightarrow> ('x, model_response) outside"

end
