(* ===== verification/Registry.thy ===== *)
theory Registry
  imports Config "HOL-Library.List_Lexorder" "HOL-Library.Char_ord"
begin

text \<open>
  \<open>src/anchor/registry.py\<close>: tools, workflows and the registry that finds them by name; and how
  \<open>src/anchor/context.py\<close> calls a function with the arguments it declares (\<open>_invoke\<close>).

  A Python function is its parameter names, whether it takes \<open>**kwargs\<close>, and its body, which
  gets the arguments by name. A workflow is an interaction tree: it returns, raises, or calls one
  operation of its context and goes on with what that operation returned or raised. The tree is
  the documented programming model: everything that reaches outside the workflow goes through
  \<open>ctx\<close>, and a workflow does the same again when it sees the same results. Every path of the
  tree is finite, so a workflow that would call its context forever is outside the model.
\<close>

section \<open>Functions and their calls\<close>

datatype pyarg = ArgCtx uuid | ArgToken uuid | ArgVal pyval

record 'x pyfn =
  pf_params :: "string list"
  pf_var_kwargs :: bool
  pf_code :: "(string \<times> pyarg) list \<Rightarrow> ('x, pyval) outside"

fun key_str :: "pykey \<Rightarrow> string" where
  "key_str (KStr s) = s"
| "key_str _ = []"

definition invoke :: "'x pyfn \<Rightarrow> uuid \<Rightarrow> uuid \<Rightarrow> pydict \<Rightarrow> ('x, pyval) outside" where
  "invoke fn run_id token arguments =
     (let params = pf_params fn;
          injected = (if ''ctx'' \<in> set params then [(''ctx'', ArgCtx run_id)] else [])
                     @ (if ''token'' \<in> set params \<or> pf_var_kwargs fn then [(''token'', ArgToken token)] else []);
          passed = (if pf_var_kwargs fn
                    then filter (\<lambda>(k, v). k \<notin> KStr ` fst ` set injected) arguments
                    else filter (\<lambda>(k, v). k \<in> KStr ` set params) arguments)
      in if \<exists>(k, v) \<in> set passed. \<not> is_str_key k
         then Ret (Inl (type_error ''keywords must be strings''))
         else if \<exists>(k, v) \<in> set passed. k \<in> KStr ` fst ` set injected
         then Ret (Inl (type_error ''got multiple values for keyword argument''))
         else pf_code fn (injected @ map (\<lambda>(k, v). (key_str k, ArgVal v)) passed))"

section \<open>Tools and workflows\<close>

record 'x tool_spec =
  ts_name :: string
  ts_fn :: "'x pyfn"
  ts_description :: string
  ts_input_schema :: pyval
  ts_idempotency :: step_idempotency
  ts_verify :: "'x pyfn option"

definition to_model_schema :: "'x tool_spec \<Rightarrow> pyval" where
  "to_model_schema s =
     PDict [(KStr ''name'', PStr (ts_name s)), (KStr ''description'', PStr (ts_description s)),
            (KStr ''input_schema'', ts_input_schema s)]"

datatype (dead 'x) wf =
    WReturn pyval
  | WRaise exn
  | WStep string "'x pyfn" step_idempotency "'x pyfn option" "int option" pydict
      "pyval py_result \<Rightarrow> 'x wf"
  | WTool string pydict "pyval py_result \<Rightarrow> 'x wf"
  | WModel string model_request "model_response py_result \<Rightarrow> 'x wf"
  | WCounters "nat \<times> nat \<Rightarrow> 'x wf" \<comment> \<open>reads \<open>ctx.executed_steps\<close> and \<open>ctx.replayed_steps\<close>\<close>

text \<open>Induction on a workflow, for every result of the call it waits for.\<close>

lemma wf_induct [case_names Return Raise Step Tool Model Counters, induct type: wf]:
  assumes "\<And>v. P (WReturn v)" and "\<And>e. P (WRaise e)"
    and "\<And>name fn idem verify n kwargs k. (\<And>x. P (k x)) \<Longrightarrow> P (WStep name fn idem verify n kwargs k)"
    and "\<And>name args k. (\<And>x. P (k x)) \<Longrightarrow> P (WTool name args k)"
    and "\<And>name req k. (\<And>x. P (k x)) \<Longrightarrow> P (WModel name req k)"
    and "\<And>k. (\<And>x. P (k x)) \<Longrightarrow> P (WCounters k)"
  shows "P w"
  by (rule wf.induct) (auto intro: assms)

section \<open>The registry\<close>

text \<open>Every registered object carries its identity, which is what \<open>is\<close> compares.\<close>

record 'x registry =
  rg_workflows :: "(string \<times> nat \<times> (pyval \<Rightarrow> 'x wf)) list"
  rg_tools :: "(string \<times> nat \<times> 'x tool_spec) list"

definition empty_registry :: "'x registry" where
  "empty_registry = \<lparr>rg_workflows = [], rg_tools = []\<rparr>"

definition value_error :: "string \<Rightarrow> exn" where
  "value_error m = PyError ''ValueError'' (Some m)"

definition register_workflow ::
  "string \<Rightarrow> nat \<Rightarrow> (pyval \<Rightarrow> 'x wf) \<Rightarrow> 'x registry \<Rightarrow> 'x registry py_result" where
  "register_workflow name oid fn g =
     (case map_of (rg_workflows g) name of
        Some (oid', fn') \<Rightarrow>
          if oid' \<noteq> oid then Inl (value_error (''workflow '' @ repr_str name @ '' is already registered''))
          else Inr (g\<lparr>rg_workflows := dict_set (rg_workflows g) name (oid, fn)\<rparr>)
      | None \<Rightarrow> Inr (g\<lparr>rg_workflows := dict_set (rg_workflows g) name (oid, fn)\<rparr>))"

definition register_tool :: "nat \<Rightarrow> 'x tool_spec \<Rightarrow> 'x registry \<Rightarrow> 'x registry py_result" where
  "register_tool oid spec g =
     (case map_of (rg_tools g) (ts_name spec) of
        Some (oid', spec') \<Rightarrow>
          if oid' \<noteq> oid then Inl (value_error (''tool '' @ repr_str (ts_name spec) @ '' is already registered''))
          else Inr (g\<lparr>rg_tools := dict_set (rg_tools g) (ts_name spec) (oid, spec)\<rparr>)
      | None \<Rightarrow> Inr (g\<lparr>rg_tools := dict_set (rg_tools g) (ts_name spec) (oid, spec)\<rparr>))"

fun join :: "string \<Rightarrow> string list \<Rightarrow> string" where
  "join sep [] = []"
| "join sep [x] = x"
| "join sep (x # xs) = x @ sep @ join sep xs"

definition known_names :: "string list \<Rightarrow> string" where
  "known_names names =
     (let known = join '', '' (sort names) in if known = [] then ''<none>'' else known)"

definition lookup_workflow :: "'x registry \<Rightarrow> string \<Rightarrow> (pyval \<Rightarrow> 'x wf) py_result" where
  "lookup_workflow g name =
     (case map_of (rg_workflows g) name of
        Some (oid, fn) \<Rightarrow> Inr fn
      | None \<Rightarrow> Inl (WorkflowNotFound (repr_str name @ '' not registered (known: ''
                   @ known_names (map fst (rg_workflows g)) @ '')'')))"

definition lookup_tool :: "'x registry \<Rightarrow> string \<Rightarrow> 'x tool_spec py_result" where
  "lookup_tool g name =
     (case map_of (rg_tools g) name of
        Some (oid, spec) \<Rightarrow> Inr spec
      | None \<Rightarrow> Inl (ToolNotFound (repr_str name @ '' not registered (known: ''
                   @ known_names (map fst (rg_tools g)) @ '')'')))"

definition tool_names :: "'x registry \<Rightarrow> string list" where
  "tool_names g = sort (map fst (rg_tools g))"

definition workflow_names :: "'x registry \<Rightarrow> string list" where
  "workflow_names g = sort (map fst (rg_workflows g))"

definition tool_schemas :: "'x registry \<Rightarrow> string list option \<Rightarrow> pyval list py_result" where
  "tool_schemas g names =
     res_map (\<lambda>n. res_bind (lookup_tool g n) (\<lambda>s. Inr (to_model_schema s)))
       (case names of None \<Rightarrow> tool_names g | Some ns \<Rightarrow> ns)"

definition registry_clear :: "'x registry \<Rightarrow> 'x registry" where
  "registry_clear g = \<lparr>rg_workflows = [], rg_tools = []\<rparr>"

section \<open>What was registered is found\<close>

lemma lookup_register_tool:
  assumes "register_tool oid spec g = Inr g'"
  shows "lookup_tool g' n = (if n = ts_name spec then Inr spec else
           case lookup_tool g n of Inr s \<Rightarrow> Inr s | Inl _ \<Rightarrow> lookup_tool g' n)"
  using assms by (auto simp: register_tool_def lookup_tool_def map_of_dict_set
      split: option.splits if_splits prod.splits)

lemma register_tool_keeps:
  assumes "register_tool oid spec g = Inr g'" and "map_of (rg_tools g) n = Some (o', s')"
    and "o' = oid \<longrightarrow> s' = spec"
  shows "map_of (rg_tools g') n = Some (o', s')"
  using assms by (auto simp: register_tool_def map_of_dict_set split: option.splits if_splits prod.splits)

end
