(* ===== verification/Budgets.thy ===== *)
theory Budgets
  imports Models
begin

text \<open>
  \<open>src/anchor/budget.py\<close>: the budget tracker of a run. The clock is an argument, \<open>now\<close>; wall
  clock is measured from the run's creation. \<open>check\<close> returns the exception it raises, if any.
\<close>

record budget_tracker =
  bt_budget :: budget
  bt_usage :: usage
  bt_run_created_at :: rat

definition elapsed_seconds :: "rat \<Rightarrow> budget_tracker \<Rightarrow> rat" where
  "elapsed_seconds now bt = now - bt_run_created_at bt"

text \<open>One ceiling: raises when the limit is set and breached.\<close>

definition ceiling_exn ::
  "string \<Rightarrow> ('a \<Rightarrow> pyval) \<Rightarrow> ('a \<Rightarrow> bool) \<Rightarrow> pyval \<Rightarrow> 'a option \<Rightarrow> exn option" where
  "ceiling_exn dimension mk breached observed limit =
     (case limit of
        None \<Rightarrow> None
      | Some m \<Rightarrow> if breached m then Some (BudgetExceededError dimension (mk m) observed) else None)"

fun first_raise :: "exn option list \<Rightarrow> exn option" where
  "first_raise [] = None"
| "first_raise (Some e # _) = Some e"
| "first_raise (None # xs) = first_raise xs"

definition check :: "rat \<Rightarrow> budget_tracker \<Rightarrow> exn option" where
  "check now bt =
     (let b = bt_budget bt; u = bt_usage bt; elapsed = elapsed_seconds now bt in
      first_raise
        [ceiling_exn ''wall_seconds'' PFloat (\<lambda>m. elapsed > m) (PFloat (py_round elapsed 3))
           (b_max_wall_seconds b),
         ceiling_exn ''tokens'' PInt (\<lambda>m. total_tokens u > m) (PInt (total_tokens u))
           (b_max_tokens b),
         ceiling_exn ''tool_calls'' PInt (\<lambda>m. u_tool_calls u \<ge> m) (PInt (u_tool_calls u))
           (b_max_tool_calls b),
         ceiling_exn ''model_calls'' PInt (\<lambda>m. u_model_calls u \<ge> m) (PInt (u_model_calls u))
           (b_max_model_calls b),
         ceiling_exn ''cost_usd'' PFloat (\<lambda>m. u_cost_usd u > m) (PFloat (py_round (u_cost_usd u) 6))
           (b_max_cost_usd b)])"

definition add_model_usage :: "int \<Rightarrow> int \<Rightarrow> rat \<Rightarrow> usage \<Rightarrow> usage" where
  "add_model_usage inp out cost u =
     u\<lparr>u_input_tokens := u_input_tokens u + inp, u_output_tokens := u_output_tokens u + out,
       u_cost_usd := u_cost_usd u + cost, u_model_calls := u_model_calls u + 1\<rparr>"

definition add_tool_call :: "usage \<Rightarrow> usage" where
  "add_tool_call u = u\<lparr>u_tool_calls := u_tool_calls u + 1\<rparr>"

definition snapshot :: "rat \<Rightarrow> budget_tracker \<Rightarrow> pydict" where
  "snapshot now bt =
     dict_update (usage_to_dict (bt_usage bt))
       [(KStr ''elapsed_seconds'', PFloat (py_round (elapsed_seconds now bt) 3))]"

section \<open>What the check accepts\<close>

text \<open>The five ceilings as one predicate: the declarative reading of the check.\<close>

definition within_budget :: "rat \<Rightarrow> budget_tracker \<Rightarrow> bool" where
  "within_budget now bt \<longleftrightarrow>
     (\<forall>m. b_max_wall_seconds (bt_budget bt) = Some m \<longrightarrow> now - bt_run_created_at bt \<le> m) \<and>
     (\<forall>m. b_max_tokens (bt_budget bt) = Some m \<longrightarrow> total_tokens (bt_usage bt) \<le> m) \<and>
     (\<forall>m. b_max_tool_calls (bt_budget bt) = Some m \<longrightarrow> u_tool_calls (bt_usage bt) < m) \<and>
     (\<forall>m. b_max_model_calls (bt_budget bt) = Some m \<longrightarrow> u_model_calls (bt_usage bt) < m) \<and>
     (\<forall>m. b_max_cost_usd (bt_budget bt) = Some m \<longrightarrow> u_cost_usd (bt_usage bt) \<le> m)"

lemma first_raise_None: "first_raise xs = None \<longleftrightarrow> (\<forall>x \<in> set xs. x = None)"
  by (induction xs rule: first_raise.induct) auto

lemma first_raise_Some: "first_raise xs = Some e \<Longrightarrow> Some e \<in> set xs"
  by (induction xs rule: first_raise.induct) auto

lemma ceiling_exn_None:
  "ceiling_exn d mk br ob l = None \<longleftrightarrow> (\<forall>m. l = Some m \<longrightarrow> \<not> br m)"
  by (auto simp: ceiling_exn_def split: option.splits)

lemma check_None_iff: "check now bt = None \<longleftrightarrow> within_budget now bt"
  by (simp add: check_def within_budget_def elapsed_seconds_def Let_def not_less not_le
      first_raise_None ceiling_exn_None)

lemma check_Some: "check now bt = Some e \<Longrightarrow> \<exists>d l ob. e = BudgetExceededError d l ob"
  by (auto simp: check_def Let_def ceiling_exn_def dest!: first_raise_Some
      split: option.splits if_splits)

lemma check_no_budget [simp]: "bt_budget bt = no_budget \<Longrightarrow> check now bt = None"
  by (simp add: check_def no_budget_def ceiling_exn_def)

end
