(* ===== verification/Store.thy ===== *)
theory Store
  imports Budgets
begin

text \<open>
  \<open>src/anchor/store/__init__.py\<close>: the \<open>Store\<close> protocol as a record of operations on a backend's
  state \<open>'st\<close>, so that the context, the engine and the worker are written once over any backend.
  The time of a statement and the fresh \<open>uuid4\<close> of a submission are arguments. An operation
  whose statement can raise returns a sum. The two side-effect operations of the protocol stand
  for a downstream system and are in the theory \<open>Postgres\<close>, on that system's state.

  The locales are the contracts the clients rely on: \<open>guaranteed_store\<close> (what every operation
  guarantees of the state, for arguments under any interleaving), \<open>log_store\<close> and \<open>run_store\<close>
  (how the log and the run row read after each operation, for arguments about one worker) and \<open>lease_store\<close> (who
  owns a run).
\<close>

record 'st store =
  st_submit_run ::
    "rat \<Rightarrow> uuid \<Rightarrow> string \<Rightarrow> pyval \<Rightarrow> string \<Rightarrow> budget \<Rightarrow> 'st \<Rightarrow> 'st \<times> (run_record \<times> bool) py_result"
  st_get_run :: "uuid \<Rightarrow> 'st \<Rightarrow> run_record option"
  st_load_events :: "uuid \<Rightarrow> 'st \<Rightarrow> event list"
  st_append_event ::
    "rat \<Rightarrow> uuid \<Rightarrow> event_type \<Rightarrow> string option \<Rightarrow> pyval \<Rightarrow> 'st \<Rightarrow> 'st \<times> nat option py_result"
  st_set_status ::
    "rat \<Rightarrow> uuid \<Rightarrow> run_status \<Rightarrow> pyval \<Rightarrow> pyval \<Rightarrow> 'st \<Rightarrow> 'st \<times> unit py_result"
  st_bump_attempt :: "rat \<Rightarrow> uuid \<Rightarrow> 'st \<Rightarrow> 'st \<times> nat option py_result"
  st_save_usage :: "rat \<Rightarrow> uuid \<Rightarrow> usage \<Rightarrow> 'st \<Rightarrow> 'st"
  st_request_cancel :: "rat \<Rightarrow> uuid \<Rightarrow> 'st \<Rightarrow> 'st \<times> bool"
  st_is_cancel_requested :: "uuid \<Rightarrow> 'st \<Rightarrow> bool"
  st_claim :: "rat \<Rightarrow> string \<Rightarrow> rat \<Rightarrow> 'st \<Rightarrow> 'st \<times> claim option"
  st_heartbeat :: "rat \<Rightarrow> uuid \<Rightarrow> string \<Rightarrow> rat \<Rightarrow> 'st \<Rightarrow> 'st \<times> bool"
  st_release :: "rat \<Rightarrow> uuid \<Rightarrow> string \<Rightarrow> rat \<Rightarrow> 'st \<Rightarrow> 'st"
  st_dequeue :: "uuid \<Rightarrow> 'st \<Rightarrow> 'st"

section \<open>What every operation guarantees\<close>

text \<open>
  \<open>R\<close> holds between the state before and after any operation. A client that touches the store
  only through the protocol then makes \<open>R\<close> steps only, whatever other clients do in between.
\<close>

locale guaranteed_store =
  fixes S :: "'st store" and R :: "'st \<Rightarrow> 'st \<Rightarrow> bool"
  assumes R_refl: "R d d"
    and R_submit: "R d (fst (st_submit_run S t r nm p k b d))"
    and R_append: "R d (fst (st_append_event S t r ty sk p d))"
    and R_set_status: "R d (fst (st_set_status S t r st res err d))"
    and R_bump_attempt: "R d (fst (st_bump_attempt S t r d))"
    and R_save_usage: "R d (st_save_usage S t r u d)"
    and R_request_cancel: "R d (fst (st_request_cancel S t r d))"
    and R_claim: "R d (fst (st_claim S t w l d))"
    and R_heartbeat: "R d (fst (st_heartbeat S t r w l d))"
    and R_release: "R d (st_release S t r w l d)"
    and R_dequeue: "R d (st_dequeue S r d)"
begin

lemmas R_ops = R_refl R_submit R_append R_set_status R_bump_attempt R_save_usage
  R_request_cancel R_claim R_heartbeat R_release R_dequeue

end

section \<open>The log of one run\<close>

text \<open>
  \<open>has_run r d\<close>: the run exists and its log is well formed. Appending adds one event at the end
  with the payload as JSON gives it back; every other operation adds at most events without a
  step key, and no operation removes anything.
\<close>

definition keyless_growth :: "'st store \<Rightarrow> uuid \<Rightarrow> 'st \<Rightarrow> 'st \<Rightarrow> bool" where
  "keyless_growth S r d d' \<longleftrightarrow>
     (let l = st_load_events S r d; l' = st_load_events S r d'
      in extends l' l \<and> (\<forall>e \<in> set (drop (length l) l'). ev_step_key e = None))"

lemma keyless_growthI:
  "st_load_events S r d' = st_load_events S r d @ es \<Longrightarrow> (\<forall>e \<in> set es. ev_step_key e = None) \<Longrightarrow>
   keyless_growth S r d d'"
  by (simp add: keyless_growth_def Let_def)

lemma keyless_growth_same:
  "st_load_events S r d' = st_load_events S r d \<Longrightarrow> keyless_growth S r d d'"
  by (simp add: keyless_growth_def Let_def)

lemma keyless_growthE:
  assumes "keyless_growth S r d d'"
  obtains es where "st_load_events S r d' = st_load_events S r d @ es"
    "\<And>e. e \<in> set es \<Longrightarrow> ev_step_key e = None"
  using assms by (auto simp: keyless_growth_def Let_def extends_iff)

locale log_store =
  fixes S :: "'st store" and has_run :: "uuid \<Rightarrow> 'st \<Rightarrow> bool"
  assumes append_bad: "\<not> json_ok p \<Longrightarrow> \<exists>e. st_append_event S t r ty sk p d = (d, Inl e)"
    and append_Inr:
      "has_run r d \<Longrightarrow> json_ok p \<Longrightarrow> \<exists>n. snd (st_append_event S t r ty sk p d) = Inr (Some n)"
    and load_append:
      "has_run r d \<Longrightarrow> json_ok p \<Longrightarrow> \<exists>e. ev_type e = ty \<and> ev_step_key e = sk \<and>
         ev_payload e = json_norm p \<and>
         st_load_events S r (fst (st_append_event S t r ty sk p d)) = st_load_events S r d @ [e]"
    and load_append_other:
      "has_run r d \<Longrightarrow> r' \<noteq> r \<Longrightarrow>
         keyless_growth S r d (fst (st_append_event S t r' ty sk p d))"
    and has_append: "has_run r d \<Longrightarrow> has_run r (fst (st_append_event S t r' ty sk p d))"
    and has_save_usage: "has_run r d \<Longrightarrow> has_run r (st_save_usage S t r' u d)"
    and load_save_usage: "has_run r d \<Longrightarrow> keyless_growth S r d (st_save_usage S t r' u d)"
    and has_set_status: "has_run r d \<Longrightarrow> has_run r (fst (st_set_status S t r' st res err d))"
    and load_set_status:
      "has_run r d \<Longrightarrow> keyless_growth S r d (fst (st_set_status S t r' st res err d))"
    and has_bump: "has_run r d \<Longrightarrow> has_run r (fst (st_bump_attempt S t r' d))"
    and load_bump: "has_run r d \<Longrightarrow> keyless_growth S r d (fst (st_bump_attempt S t r' d))"
    and has_request_cancel: "has_run r d \<Longrightarrow> has_run r (fst (st_request_cancel S t r' d))"
    and load_request_cancel: "has_run r d \<Longrightarrow> keyless_growth S r d (fst (st_request_cancel S t r' d))"
    and has_claim: "has_run r d \<Longrightarrow> has_run r (fst (st_claim S t w l d))"
    and load_claim: "has_run r d \<Longrightarrow> keyless_growth S r d (fst (st_claim S t w l d))"
    and has_heartbeat: "has_run r d \<Longrightarrow> has_run r (fst (st_heartbeat S t r' w l d))"
    and load_heartbeat: "has_run r d \<Longrightarrow> keyless_growth S r d (fst (st_heartbeat S t r' w l d))"
    and has_release: "has_run r d \<Longrightarrow> has_run r (st_release S t r' w l d)"
    and load_release: "has_run r d \<Longrightarrow> keyless_growth S r d (st_release S t r' w l d)"
    and has_dequeue: "has_run r d \<Longrightarrow> has_run r (st_dequeue S r' d)"
    and load_dequeue: "has_run r d \<Longrightarrow> keyless_growth S r d (st_dequeue S r' d)"
    and get_run: "has_run r d \<Longrightarrow> \<exists>rr. st_get_run S r d = Some rr"
    and get_run_id: "st_get_run S r d = Some rr \<Longrightarrow> rr_run_id rr = r"

text \<open>How the status of a run reads: it changes only by \<open>set_status\<close>, which always takes effect.\<close>

definition status_of :: "'st store \<Rightarrow> uuid \<Rightarrow> 'st \<Rightarrow> run_status option" where
  "status_of S r d = map_option rr_status (st_get_run S r d)"

locale run_store = log_store S has_run
  for S :: "'st store" and has_run :: "uuid \<Rightarrow> 'st \<Rightarrow> bool" +
  assumes status_set:
      "has_run r d \<Longrightarrow> json_ok res \<Longrightarrow> json_ok err \<Longrightarrow>
         snd (st_set_status S t r st res err d) = Inr () \<and>
         status_of S r (fst (st_set_status S t r st res err d)) = Some st"
    and status_set_bad:
      "\<not> (json_ok res \<and> json_ok err) \<Longrightarrow> \<exists>e. st_set_status S t r st res err d = (d, Inl e)"
    and status_append:
      "has_run r d \<Longrightarrow> status_of S r (fst (st_append_event S t r' ty sk p d)) = status_of S r d"
    and status_save_usage:
      "has_run r d \<Longrightarrow> status_of S r (st_save_usage S t r' u d) = status_of S r d"
    and status_bump:
      "has_run r d \<Longrightarrow> status_of S r (fst (st_bump_attempt S t r' d)) = status_of S r d"
    and bump_Inr:
      "has_run r d \<Longrightarrow> \<exists>n. snd (st_bump_attempt S t r d) = Inr (Some n)"

section \<open>Leases\<close>

text \<open>
  \<open>holds t r w d\<close>: at time \<open>t\<close> worker \<open>w\<close> holds a live lease on run \<open>r\<close>. A heartbeat succeeds
  exactly for the holder and extends the lease; a claim hands out a run nobody holds.
\<close>

locale lease_store =
  fixes S :: "'st store" and wf :: "'st \<Rightarrow> bool"
    and holds :: "rat \<Rightarrow> uuid \<Rightarrow> string \<Rightarrow> 'st \<Rightarrow> bool"
  assumes holds_unique: "wf d \<Longrightarrow> holds t r w d \<Longrightarrow> holds t r w' d \<Longrightarrow> w = w'"
    and holds_antimono: "holds t r w d \<Longrightarrow> t' \<le> t \<Longrightarrow> holds t' r w d"
    and heartbeat_iff: "wf d \<Longrightarrow> snd (st_heartbeat S t r w l d) \<longleftrightarrow> holds t r w d"
    and heartbeat_extends:
      "wf d \<Longrightarrow> holds t r w d \<Longrightarrow> holds t' r w (fst (st_heartbeat S t r w l d)) \<longleftrightarrow> t' < t + l"
    and heartbeat_other:
      "wf d \<Longrightarrow> (r', w') \<noteq> (r, w) \<Longrightarrow>
         holds t' r' w' (fst (st_heartbeat S t r w l d)) = holds t' r' w' d"
    and claim_free:
      "wf d \<Longrightarrow> snd (st_claim S t w l d) = Some c \<Longrightarrow> \<not> holds t (cl_run_id c) w' d"
    and claim_holds:
      "wf d \<Longrightarrow> snd (st_claim S t w l d) = Some c \<Longrightarrow>
         holds t' (cl_run_id c) w (fst (st_claim S t w l d)) \<longleftrightarrow> t' < t + l"
    and claim_other:
      "wf d \<Longrightarrow> snd (st_claim S t w l d) = Some c \<Longrightarrow> r' \<noteq> cl_run_id c \<Longrightarrow>
         holds t' r' w' (fst (st_claim S t w l d)) = holds t' r' w' d"
    and claim_none: "snd (st_claim S t w l d) = None \<Longrightarrow> fst (st_claim S t w l d) = d"
    and release_drops: "wf d \<Longrightarrow> \<not> holds t' r w (st_release S t r w l d)"
    and release_other:
      "wf d \<Longrightarrow> (r', w') \<noteq> (r, w) \<Longrightarrow> holds t' r' w' (st_release S t r w l d) = holds t' r' w' d"
begin

text \<open>A run is never handed to a second worker while its lease lives.\<close>

lemma claim_not_held:
  assumes "wf d" and "holds t r w d"
  shows "map_option cl_run_id (snd (st_claim S t w' l d)) \<noteq> Some r"
  using claim_free [OF assms(1)] assms(2) by (cases "snd (st_claim S t w' l d)") auto

text \<open>After a claim, every other worker's heartbeat on the run is rejected.\<close>

lemma claim_excludes:
  assumes "wf d" and "snd (st_claim S t w l d) = Some c" and "0 < l"
    and "wf (fst (st_claim S t w l d))" and "w' \<noteq> w" and "t \<le> t'" and "t' < t + l"
  shows "\<not> snd (st_heartbeat S t' (cl_run_id c) w' l' (fst (st_claim S t w l d)))"
  using assms claim_holds holds_unique heartbeat_iff by blast

end

end
