(* ===== verification/Context.thy ===== *)
theory Context
  imports Registry Store
begin

text \<open>
  \<open>src/anchor/context.py\<close>: the execution context of one attempt. Its operations are coroutines
  over the system (clock, database, outside world) and the context object, which belongs to the
  attempt and dies with it.
\<close>

section \<open>The system and the context\<close>

text \<open>
  \<open>sy_calls\<close> is a history variable, not state of the program: the run and the step key of every
  entry into a step's body, in order. The body is what has effects outside.
\<close>

record ('st, 'x) sys =
  sy_now :: rat
  sy_db :: 'st
  sy_ext :: 'x
  sy_calls :: "(uuid \<times> string) list"

record ctx =
  cx_run :: run_record
  cx_budget :: budget_tracker
  cx_ordinals :: "string \<Rightarrow> nat option"
  cx_completed :: "string \<Rightarrow> pyval option"
  cx_unresolved :: "string \<Rightarrow> pyval option"
  cx_replayed_steps :: nat
  cx_executed_steps :: nat

text \<open>What the engine hands to a context; \<open>d_float_str\<close> and \<open>d_traceback\<close> print for error texts.\<close>

record ('st, 'x) deps =
  d_store :: "'st store"
  d_registry :: "'x registry"
  d_provider :: "'x provider"
  d_settings :: settings
  d_lease_guard :: "(rat \<Rightarrow> 'st \<Rightarrow> 'st \<times> bool) option"
  d_float_str :: "rat \<Rightarrow> string"
  d_traceback :: "exn \<Rightarrow> string"

type_synonym ('st, 'x, 'r) ctx_prog = "(('st, 'x) sys \<times> ctx, 'r) prog"
type_synonym ('st, 'x) body = "uuid \<Rightarrow> ('st, 'x, pyval py_result) ctx_prog"

definition cx_run_id :: "ctx \<Rightarrow> uuid" where
  "cx_run_id c = rr_run_id (cx_run c)"

section \<open>Atoms\<close>

text \<open>One database statement at the current time, and one update of the context object.\<close>

definition db_op :: "(rat \<Rightarrow> 'st \<Rightarrow> 'st \<times> 'r) \<Rightarrow> (('st, 'x) sys, 'r) prog" where
  "db_op f = atom (\<lambda>s. let (d, r) = f (sy_now s) (sy_db s) in (s\<lparr>sy_db := d\<rparr>, r))"

definition ctx_db_op :: "(ctx \<Rightarrow> rat \<Rightarrow> 'st \<Rightarrow> 'st \<times> 'r) \<Rightarrow> ('st, 'x, 'r) ctx_prog" where
  "ctx_db_op f =
     atom (\<lambda>(s, c). let (d, r) = f c (sy_now s) (sy_db s) in ((s\<lparr>sy_db := d\<rparr>, c), r))"

definition ctx_modify :: "(ctx \<Rightarrow> ctx) \<Rightarrow> ('st, 'x, unit) ctx_prog" where
  "ctx_modify f = modify (apsnd f)"

definition ctx_gets :: "(ctx \<Rightarrow> 'r) \<Rightarrow> ('st, 'x, 'r) ctx_prog" where
  "ctx_gets f = gets (f \<circ> snd)"

definition sleep :: "rat \<Rightarrow> ('st, 'x, unit) ctx_prog" where
  "sleep dt = modify (apfst (\<lambda>s. s\<lparr>sy_now := sy_now s + dt\<rparr>))"

text \<open>Code outside the runtime sees the clock and the outside world.\<close>

definition outside :: "('x, 'r) outside \<Rightarrow> ('st, 'x, 'r py_result) ctx_prog" where
  "outside p =
     lift (\<lambda>(s, c). (sy_now s, sy_ext s)) (\<lambda>(t, x) (s, c). (s\<lparr>sy_now := t, sy_ext := x\<rparr>, c)) p"

definition log_call :: "string \<Rightarrow> ('st, 'x, unit) ctx_prog" where
  "log_call key =
     modify (\<lambda>(s, c). (s\<lparr>sy_calls := sy_calls s @ [(cx_run_id c, key)]\<rparr>, c))"

section \<open>Replay state\<close>

text \<open>\<open>_completed\<close> and \<open>_unresolved\<close>, from the events in order.\<close>

definition replay_event ::
  "(string \<Rightarrow> pyval option) \<times> (string \<Rightarrow> pyval option) \<Rightarrow> event
    \<Rightarrow> (string \<Rightarrow> pyval option) \<times> (string \<Rightarrow> pyval option)" where
  "replay_event cu e =
     (case ev_step_key e of
        None \<Rightarrow> cu
      | Some key \<Rightarrow>
          (case ev_type e of
             STEP_STARTED \<Rightarrow>
               (fst cu, (snd cu)(key \<mapsto> py_get (ev_payload e) ''token'' (PStr [])))
           | STEP_COMPLETED \<Rightarrow>
               ((fst cu)(key \<mapsto> py_get (ev_payload e) ''result'' PNone), (snd cu)(key := None))
           | STEP_FAILED \<Rightarrow> (fst cu, (snd cu)(key := None))
           | _ \<Rightarrow> cu))"

definition build_replay_state ::
  "event list \<Rightarrow> (string \<Rightarrow> pyval option) \<times> (string \<Rightarrow> pyval option)" where
  "build_replay_state events = foldl replay_event (\<lambda>_. None, \<lambda>_. None) events"

definition new_context :: "run_record \<Rightarrow> event list \<Rightarrow> ctx" where
  "new_context r events =
     \<lparr>cx_run = r,
      cx_budget = \<lparr>bt_budget = rr_budget r, bt_usage = rr_usage r, bt_run_created_at = rr_created_at r\<rparr>,
      cx_ordinals = (\<lambda>_. None),
      cx_completed = fst (build_replay_state events),
      cx_unresolved = snd (build_replay_state events),
      cx_replayed_steps = 0, cx_executed_steps = 0\<rparr>"

text \<open>The Nth call of a name has the key \<open>name#N\<close>.\<close>

definition step_key :: "string \<Rightarrow> nat \<Rightarrow> string" where
  "step_key name n = name @ ''#'' @ str_nat n"

definition ordinal :: "ctx \<Rightarrow> string \<Rightarrow> nat" where
  "ordinal c name = (case cx_ordinals c name of None \<Rightarrow> 0 | Some n \<Rightarrow> n)"

definition next_key :: "string \<Rightarrow> ('st, 'x, string) ctx_prog" where
  "next_key name =
     atom (\<lambda>(s, c). let n = ordinal c name + 1 in
       ((s, c\<lparr>cx_ordinals := (cx_ordinals c)(name \<mapsto> n)\<rparr>), step_key name n))"

section \<open>Events, usage and the checks at a step boundary\<close>

definition append ::
  "('st, 'x) deps \<Rightarrow> event_type \<Rightarrow> string option \<Rightarrow> pyval \<Rightarrow> ('st, 'x, nat option py_result) ctx_prog" where
  "append E ty sk p = ctx_db_op (\<lambda>c t. st_append_event (d_store E) t (cx_run_id c) ty sk p)"

definition persist_usage :: "('st, 'x) deps \<Rightarrow> ('st, 'x, unit) ctx_prog" where
  "persist_usage E =
     ctx_db_op (\<lambda>c t d. (st_save_usage (d_store E) t (cx_run_id c) (bt_usage (cx_budget c)) d, ()))"

definition raise :: "exn \<Rightarrow> ('s, 'a py_result) prog" where
  "raise e = Ret (Inl e)"

definition checkpoint_guards :: "('st, 'x) deps \<Rightarrow> ('st, 'x, unit py_result) ctx_prog" where
  "checkpoint_guards E =
     bind (case d_lease_guard E of
             None \<Rightarrow> Ret True
           | Some guard \<Rightarrow> ctx_db_op (\<lambda>c. guard)) (\<lambda>owned.
     bind (ctx_gets cx_run_id) (\<lambda>rid.
     if \<not> owned then raise (LeaseLost (''lease lost for run '' @ uuid_str rid))
     else
       bind (ctx_db_op (\<lambda>c t d. (d, st_is_cancel_requested (d_store E) (cx_run_id c) d))) (\<lambda>cancel.
       if cancel then raise (CancellationRequested (''run '' @ uuid_str rid @ '' was cancelled''))
       else
         bind (gets (\<lambda>(s, c). check (sy_now s) (cx_budget c))) (\<lambda>exceeded.
         case exceeded of None \<Rightarrow> Ret (Inr ()) | Some e \<Rightarrow> raise e))))"

section \<open>Durable steps\<close>

fun type_name :: "pyval \<Rightarrow> string" where
  "type_name PNone = ''NoneType''"
| "type_name (PBool _) = ''bool''"
| "type_name (PInt _) = ''int''"
| "type_name (PFloat _) = ''float''"
| "type_name (PStr _) = ''str''"
| "type_name (PList _) = ''list''"
| "type_name (PTuple _) = ''tuple''"
| "type_name (PDict _) = ''dict''"
| "type_name (PObj c) = c"

definition ensure_json :: "pyval \<Rightarrow> string \<Rightarrow> pyval py_result" where
  "ensure_json v key =
     (if json_ok v then Inr v
      else Inl (type_error (''step '' @ repr_str key
        @ '' returned a value that is not JSON-serialisable ('' @ type_name v
        @ ''); step results are persisted to the event log'')))"

definition complete_step :: "string \<Rightarrow> pyval \<Rightarrow> ctx \<Rightarrow> ctx" where
  "complete_step key v c =
     c\<lparr>cx_completed := (cx_completed c)(key \<mapsto> v), cx_unresolved := (cx_unresolved c)(key := None)\<rparr>"

text \<open>\<open>Inr None\<close> is the sentinel \<open>_UNRESOLVED\<close>.\<close>

definition resolve_crash_window ::
  "('st, 'x) deps \<Rightarrow> string \<Rightarrow> uuid \<Rightarrow> step_idempotency \<Rightarrow> ('st, 'x) body option
    \<Rightarrow> ('st, 'x, pyval option py_result) ctx_prog" where
  "resolve_crash_window E key token idempotency verify =
     ebind (case verify of None \<Rightarrow> Ret (Inr PNone) | Some v \<Rightarrow> v token) (\<lambda>outcome.
     if outcome \<noteq> PNone then
       ebind (Ret (ensure_json outcome key)) (\<lambda>res.
       ebind (append E STEP_COMPLETED (Some key)
                (PDict [(KStr ''result'', res), (KStr ''recovered_by'', PStr ''verify'')])) (\<lambda>_.
       bind (ctx_modify (complete_step key outcome)) (\<lambda>_.
       Ret (Inr (Some outcome)))))
     else if idempotency = AT_LEAST_ONCE then
       ebind (append E STEP_RETRIED (Some key)
                (PDict [(KStr ''reason'', PStr ''crash_window''),
                        (KStr ''token'', PStr (uuid_str token))])) (\<lambda>_.
       Ret (Inr None))
     else raise (AmbiguousStepError key (uuid_str token)))"

text \<open>
  One pass of the retry loop, its outcome handled: the result is recorded, or the exception is
  passed on, or it is recorded and the step is tried again or failed. \<open>left\<close> passes remain.
\<close>

definition finish_step ::
  "('st, 'x) deps \<Rightarrow> string \<Rightarrow> int \<Rightarrow> pyval \<Rightarrow> ('st, 'x, (pyval \<times> bool) py_result) ctx_prog" where
  "finish_step E key attempt result =
     ebind (Ret (ensure_json result key)) (\<lambda>res.
     ebind (append E STEP_COMPLETED (Some key)
              (PDict [(KStr ''result'', res), (KStr ''attempt'', PInt attempt)])) (\<lambda>_.
     bind (ctx_modify (\<lambda>c. (complete_step key result c)
              \<lparr>cx_executed_steps := cx_executed_steps c + 1\<rparr>)) (\<lambda>_.
     bind (persist_usage E) (\<lambda>_.
     Ret (Inr (result, True))))))"

definition retry_payload :: "(rat \<Rightarrow> string) \<Rightarrow> int \<Rightarrow> exn \<Rightarrow> pyval" where
  "retry_payload fs attempt e =
     PDict [(KStr ''attempt'', PInt attempt), (KStr ''error'', PStr (exn_repr fs e)),
            (KStr ''reason'', PStr ''step_error'')]"

definition failed_payload :: "(rat \<Rightarrow> string) \<Rightarrow> int \<Rightarrow> exn \<Rightarrow> pyval" where
  "failed_payload fs attempt e =
     PDict [(KStr ''attempts'', PInt attempt), (KStr ''error'', PStr (exn_repr fs e))]"

primrec attempt_loop ::
  "('st, 'x) deps \<Rightarrow> string \<Rightarrow> ('st, 'x, pyval py_result) ctx_prog \<Rightarrow> int \<Rightarrow> nat
    \<Rightarrow> ('st, 'x, (pyval \<times> bool) py_result) ctx_prog" where
  "attempt_loop E key body attempts 0 =
     raise (StepFailedError key attempts (PyError ''RuntimeError'' (Some ''unknown'')))"
| "attempt_loop E key body attempts (Suc left) =
     bind (log_call key) (\<lambda>_.
     bind body (\<lambda>r.
     case r of
       Inr result \<Rightarrow> finish_step E key (attempts - int left) result
     | Inl e \<Rightarrow>
         if passes_retry e then raise e
         else if left > 0 then
           ebind (append E STEP_RETRIED (Some key)
                    (retry_payload (d_float_str E) (attempts - int left) e)) (\<lambda>_.
           bind (sleep (se_step_backoff_base (d_settings E) * 2 ^ nat (attempts - int left - 1))) (\<lambda>_.
           attempt_loop E key body attempts left))
         else
           ebind (append E STEP_FAILED (Some key)
                    (failed_payload (d_float_str E) (attempts - int left) e)) (\<lambda>_.
           raise (StepFailedError key (attempts - int left) e))))"

definition max_step_attempts :: "('st, 'x) deps \<Rightarrow> int option \<Rightarrow> int" where
  "max_step_attempts E max_attempts =
     (case max_attempts of
        None \<Rightarrow> se_step_max_attempts (d_settings E)
      | Some n \<Rightarrow> if n = 0 then se_step_max_attempts (d_settings E) else n)"

text \<open>Before the body runs, the log says so, or the crash window of an earlier attempt is resolved.\<close>

definition announce_step ::
  "('st, 'x) deps \<Rightarrow> string \<Rightarrow> uuid \<Rightarrow> bool \<Rightarrow> step_idempotency \<Rightarrow> ('st, 'x) body option
    \<Rightarrow> ('st, 'x, pyval option py_result) ctx_prog" where
  "announce_step E key token recovering idempotency verify =
     (if recovering then resolve_crash_window E key token idempotency verify
      else
        ebind (append E STEP_STARTED (Some key) (PDict [(KStr ''token'', PStr (uuid_str token))])) (\<lambda>_.
        Ret (Inr None)))"

text \<open>A step without a recorded result, and any step.\<close>

definition execute_step ::
  "('st, 'x) deps \<Rightarrow> string \<Rightarrow> ('st, 'x) body \<Rightarrow> step_idempotency \<Rightarrow> ('st, 'x) body option \<Rightarrow> int option
    \<Rightarrow> ('st, 'x, (pyval \<times> bool) py_result) ctx_prog" where
  "execute_step E key fn idempotency verify max_attempts =
     ebind (checkpoint_guards E) (\<lambda>_.
     bind (ctx_gets (\<lambda>c. (step_token (cx_run_id c) key, cx_unresolved c key \<noteq> None))) (\<lambda>(token, recovering).
     ebind (announce_step E key token recovering idempotency verify) (\<lambda>resolved.
     case resolved of
       Some v \<Rightarrow> Ret (Inr (v, False))
     | None \<Rightarrow>
         attempt_loop E key (fn token) (max_step_attempts E max_attempts)
           (nat (max_step_attempts E max_attempts)))))"

definition step_with_key ::
  "('st, 'x) deps \<Rightarrow> string \<Rightarrow> ('st, 'x) body \<Rightarrow> step_idempotency \<Rightarrow> ('st, 'x) body option \<Rightarrow> int option
    \<Rightarrow> ('st, 'x, (pyval \<times> bool) py_result) ctx_prog" where
  "step_with_key E key fn idempotency verify max_attempts =
     bind (ctx_gets (\<lambda>c. cx_completed c key)) (\<lambda>recorded.
     case recorded of
       Some v \<Rightarrow>
         bind (ctx_modify (\<lambda>c. c\<lparr>cx_replayed_steps := cx_replayed_steps c + 1\<rparr>)) (\<lambda>_.
         Ret (Inr (v, False)))
     | None \<Rightarrow> execute_step E key fn idempotency verify max_attempts)"

section \<open>The public operations\<close>

definition call_fn :: "'x pyfn \<Rightarrow> pydict \<Rightarrow> ('st, 'x) body" where
  "call_fn fn arguments = (\<lambda>token.
     bind (ctx_gets cx_run_id) (\<lambda>rid. outside (invoke fn rid token arguments)))"

definition ctx_step ::
  "('st, 'x) deps \<Rightarrow> string \<Rightarrow> 'x pyfn \<Rightarrow> step_idempotency \<Rightarrow> 'x pyfn option \<Rightarrow> int option \<Rightarrow> pydict
    \<Rightarrow> ('st, 'x, pyval py_result) ctx_prog" where
  "ctx_step E name fn idempotency verify max_attempts kwargs =
     bind (next_key name) (\<lambda>key.
     ebind (step_with_key E key (call_fn fn kwargs) idempotency
              (map_option (\<lambda>v. call_fn v kwargs) verify) max_attempts) (\<lambda>(result, _).
     Ret (Inr result)))"

definition tool_body :: "'x tool_spec \<Rightarrow> pydict \<Rightarrow> ('st, 'x) body" where
  "tool_body spec args = (\<lambda>token.
     bind (ctx_modify (\<lambda>c. c\<lparr>cx_budget := (cx_budget c)
              \<lparr>bt_usage := add_tool_call (bt_usage (cx_budget c))\<rparr>\<rparr>)) (\<lambda>_.
     call_fn (ts_fn spec) args token))"

definition tool_invoked_payload :: "'x tool_spec \<Rightarrow> pydict \<Rightarrow> pyval" where
  "tool_invoked_payload spec args =
     PDict [(KStr ''tool'', PStr (ts_name spec)), (KStr ''arguments'', PDict args),
            (KStr ''idempotency'', PStr (idempotency_value (ts_idempotency spec)))]"

definition ctx_call_tool ::
  "('st, 'x) deps \<Rightarrow> string \<Rightarrow> pydict \<Rightarrow> ('st, 'x, pyval py_result) ctx_prog" where
  "ctx_call_tool E name args =
     (case lookup_tool (d_registry E) name of
        Inl e \<Rightarrow> raise e
      | Inr spec \<Rightarrow>
          bind (next_key (''tool:'' @ ts_name spec)) (\<lambda>key.
          ebind (step_with_key E key (tool_body spec args) (ts_idempotency spec)
                   (map_option (\<lambda>v. call_fn v args) (ts_verify spec)) None) (\<lambda>(result, executed).
          if executed then
            ebind (append E TOOL_INVOKED (Some key) (tool_invoked_payload spec args)) (\<lambda>_.
            Ret (Inr result))
          else Ret (Inr result))))"

definition model_body :: "('st, 'x) deps \<Rightarrow> model_request \<Rightarrow> ('st, 'x) body" where
  "model_body E req = (\<lambda>_.
     ebind (outside (pv_complete (d_provider E) req)) (\<lambda>resp. Ret (Inr (response_to_dict resp))))"

definition model_called_payload :: "model_response \<Rightarrow> pyval" where
  "model_called_payload resp =
     PDict [(KStr ''model'', PStr (mr_model resp)), (KStr ''stop_reason'', PStr (mr_stop_reason resp)),
            (KStr ''input_tokens'', PInt (mr_input_tokens resp)),
            (KStr ''output_tokens'', PInt (mr_output_tokens resp)),
            (KStr ''tool_calls'', PList (map (PStr \<circ> tc_name) (mr_tool_calls resp)))]"

definition ctx_model ::
  "('st, 'x) deps \<Rightarrow> string \<Rightarrow> model_request \<Rightarrow> ('st, 'x, model_response py_result) ctx_prog" where
  "ctx_model E name req =
     bind (next_key name) (\<lambda>key.
     ebind (step_with_key E key (model_body E req) AT_LEAST_ONCE None None) (\<lambda>(raw, executed).
     ebind (Ret (response_from_dict raw)) (\<lambda>response.
     if executed then
       bind (ctx_modify (\<lambda>c. c\<lparr>cx_budget := (cx_budget c)
               \<lparr>bt_usage := add_model_usage (mr_input_tokens response) (mr_output_tokens response)
                  (mr_cost_usd response) (bt_usage (cx_budget c))\<rparr>\<rparr>)) (\<lambda>_.
       bind (persist_usage E) (\<lambda>_.
       ebind (append E MODEL_CALLED (Some key) (model_called_payload response)) (\<lambda>_.
       Ret (Inr response))))
     else Ret (Inr response))))"

section \<open>Running a workflow\<close>

primrec interp :: "('st, 'x) deps \<Rightarrow> 'x wf \<Rightarrow> ('st, 'x, pyval py_result) ctx_prog" where
  "interp E (WReturn v) = Ret (Inr v)"
| "interp E (WRaise e) = raise e"
| "interp E (WStep name fn idem verify max_attempts kwargs k) =
     bind (ctx_step E name fn idem verify max_attempts kwargs) (interp E \<circ> k)"
| "interp E (WTool name args k) = bind (ctx_call_tool E name args) (interp E \<circ> k)"
| "interp E (WModel name req k) = bind (ctx_model E name req) (interp E \<circ> k)"
| "interp E (WCounters k) =
     bind (ctx_gets (\<lambda>c. (cx_executed_steps c, cx_replayed_steps c))) (interp E \<circ> k)"

end
