(* ===== verification/Engine.thy ===== *)
theory Engine
  imports Context
begin

text \<open>
  \<open>src/anchor/engine.py\<close>: one attempt of one run. \<open>execute\<close> is a coroutine over the system; the
  context object it creates is private to it.
\<close>

record outcome =
  oc_run_id :: uuid
  oc_status :: run_status
  oc_result :: pyval
  oc_error :: pyval
  oc_replayed_steps :: nat
  oc_executed_steps :: nat

definition should_dequeue :: "outcome \<Rightarrow> bool" where
  "should_dequeue oc \<longleftrightarrow> terminal (oc_status oc)"

definition make_outcome :: "run_status \<Rightarrow> pyval \<Rightarrow> pyval \<Rightarrow> ctx \<Rightarrow> outcome" where
  "make_outcome status result error c =
     \<lparr>oc_run_id = cx_run_id c, oc_status = status, oc_result = result, oc_error = error,
      oc_replayed_steps = cx_replayed_steps c, oc_executed_steps = cx_executed_steps c\<rparr>"

section \<open>How an attempt ends\<close>

text \<open>\<open>_fail\<close>: the event, the usage, the status, in this order.\<close>

definition set_run_status ::
  "('st, 'x) deps \<Rightarrow> run_status \<Rightarrow> pyval \<Rightarrow> pyval \<Rightarrow> ('st, 'x, unit py_result) ctx_prog" where
  "set_run_status E status result error =
     ctx_db_op (\<lambda>c t. st_set_status (d_store E) t (cx_run_id c) status result error)"

definition fail ::
  "('st, 'x) deps \<Rightarrow> string \<Rightarrow> string \<Rightarrow> bool \<Rightarrow> pydict \<Rightarrow> ('st, 'x, outcome py_result) ctx_prog" where
  "fail E tname message retryable extra =
     (let error = PDict (dict_update [(KStr ''type'', PStr tname), (KStr ''message'', PStr message),
                                      (KStr ''retryable'', PBool retryable)] extra)
      in ebind (append E RUN_FAILED None error) (\<lambda>_.
         bind (persist_usage E) (\<lambda>_.
         ebind (set_run_status E FAILED PNone error) (\<lambda>_.
         bind (ctx_gets (make_outcome FAILED PNone error)) (\<lambda>oc. Ret (Inr oc))))))"

text \<open>One handler per exception class, in the order of the code.\<close>

fun handle :: "('st, 'x) deps \<Rightarrow> exn \<Rightarrow> ('st, 'x, outcome py_result) ctx_prog" where
  "handle E (CancellationRequested m) =
     ebind (append E RUN_CANCELLED None
              (PDict [(KStr ''reason'', PStr (exn_str (d_float_str E) (CancellationRequested m)))])) (\<lambda>_.
     ebind (set_run_status E CANCELLED PNone PNone) (\<lambda>_.
     bind (ctx_gets (make_outcome CANCELLED PNone PNone)) (\<lambda>oc. Ret (Inr oc))))"
| "handle E (BudgetExceededError d limit ob) =
     ebind (append E BUDGET_EXCEEDED None
              (PDict [(KStr ''dimension'', PStr d), (KStr ''limit'', limit), (KStr ''observed'', ob)])) (\<lambda>_.
     fail E ''BudgetExceededError'' (exn_str (d_float_str E) (BudgetExceededError d limit ob)) False
       [(KStr ''dimension'', PStr d)])"
| "handle E (AmbiguousStepError key token) =
     ebind (append E RUN_NEEDS_REVIEW (Some key)
              (PDict [(KStr ''token'', PStr token),
                      (KStr ''reason'', PStr ''unresolved_at_most_once_step'')])) (\<lambda>_.
     ebind (set_run_status E NEEDS_REVIEW PNone
              (PDict [(KStr ''type'', PStr ''AmbiguousStepError''),
                      (KStr ''message'', PStr (exn_str (d_float_str E) (AmbiguousStepError key token))),
                      (KStr ''step_key'', PStr key), (KStr ''token'', PStr token),
                      (KStr ''retryable'', PBool False)])) (\<lambda>_.
     bind (ctx_gets (make_outcome NEEDS_REVIEW PNone PNone)) (\<lambda>oc. Ret (Inr oc))))"
| "handle E (LeaseLost m) =
     bind (ctx_gets (make_outcome RUNNING PNone
             (PDict [(KStr ''type'', PStr ''LeaseLost''),
                     (KStr ''message'', PStr (exn_str (d_float_str E) (LeaseLost m)))]))) (\<lambda>oc.
     Ret (Inr oc))"
| "handle E (StepFailedError key n cause) =
     fail E ''StepFailedError'' (exn_str (d_float_str E) (StepFailedError key n cause)) False
       [(KStr ''step_key'', PStr key), (KStr ''attempts'', PInt n)]"
| "handle E e =
     (let m = exn_str (d_float_str E) e
      in fail E (exn_type e) (if m = [] then exn_repr (d_float_str E) e else m) False
           [(KStr ''traceback'', PStr (d_traceback E e))])"

definition complete :: "('st, 'x) deps \<Rightarrow> pyval \<Rightarrow> ('st, 'x, outcome py_result) ctx_prog" where
  "complete E result =
     bind (gets (\<lambda>(s, c). PDict
       [(KStr ''usage'', PDict (snapshot (sy_now s) (cx_budget c))),
        (KStr ''replayed_steps'', PInt (int (cx_replayed_steps c))),
        (KStr ''executed_steps'', PInt (int (cx_executed_steps c)))])) (\<lambda>payload.
     ebind (append E RUN_COMPLETED None payload) (\<lambda>_.
     bind (persist_usage E) (\<lambda>_.
     ebind (set_run_status E COMPLETED result PNone) (\<lambda>_.
     bind (ctx_gets (make_outcome COMPLETED result PNone)) (\<lambda>oc. Ret (Inr oc))))))"

section \<open>An attempt\<close>

text \<open>What runs once the context exists: the lookup of the workflow, the workflow, its end.\<close>

definition drive :: "('st, 'x) deps \<Rightarrow> run_record \<Rightarrow> ('st, 'x, outcome py_result) ctx_prog" where
  "drive E r =
     (case lookup_workflow (d_registry E) (rr_workflow r) of
        Inl e \<Rightarrow> fail E ''WorkflowNotFound'' (exn_str (d_float_str E) e) False []
      | Inr workflow_fn \<Rightarrow>
          bind (interp E (workflow_fn (rr_input r))) (\<lambda>x.
          case x of Inl e \<Rightarrow> handle E e | Inr result \<Rightarrow> complete E result))"

text \<open>The statements before it: a new attempt number, the event of a resumption, the status.\<close>

definition begin_attempt :: "('st, 'x) deps \<Rightarrow> uuid \<Rightarrow> run_record \<Rightarrow> (('st, 'x) sys, unit py_result) prog" where
  "begin_attempt E run_id r =
     ebind (db_op (\<lambda>t. st_bump_attempt (d_store E) t run_id)) (\<lambda>attempt.
     case attempt of
       None \<Rightarrow> raise (type_error ''not supported between instances of NoneType and int'')
     | Some n \<Rightarrow>
         ebind (if n > 1
                then ebind (db_op (\<lambda>t. st_append_event (d_store E) t run_id RUN_RESUMED None
                        (PDict [(KStr ''attempt'', PInt (int n)),
                                (KStr ''events_before_resume'', PInt (int (rr_event_seq r)))]))) (\<lambda>_.
                     Ret (Inr ()))
                else Ret (Inr ())) (\<lambda>_.
         db_op (\<lambda>t. st_set_status (d_store E) t run_id RUNNING PNone PNone)))"

text \<open>The context is built from the run row and the log as they are then, and driven.\<close>

definition run_attempt :: "('st, 'x) deps \<Rightarrow> uuid \<Rightarrow> (('st, 'x) sys, outcome py_result) prog" where
  "run_attempt E run_id =
     bind (gets (\<lambda>s. st_get_run (d_store E) run_id (sy_db s))) (\<lambda>ro.
     bind (gets (\<lambda>s. st_load_events (d_store E) run_id (sy_db s))) (\<lambda>events.
     case ro of
       None \<Rightarrow> raise (PyError ''AttributeError'' (Some ''NoneType object has no attribute run_id''))
     | Some r \<Rightarrow> bind (local (drive E r) (new_context r events)) (\<lambda>(x, c). Ret x)))"

definition execute :: "('st, 'x) deps \<Rightarrow> uuid \<Rightarrow> (('st, 'x) sys, outcome py_result) prog" where
  "execute E run_id =
     bind (gets (\<lambda>s. st_get_run (d_store E) run_id (sy_db s))) (\<lambda>ro.
     case ro of
       None \<Rightarrow> raise (PyError ''LookupError'' (Some (''run '' @ uuid_str run_id @ '' does not exist'')))
     | Some r \<Rightarrow>
         if terminal (rr_status r)
         then Ret (Inr \<lparr>oc_run_id = run_id, oc_status = rr_status r, oc_result = rr_result r,
                        oc_error = rr_error r, oc_replayed_steps = 0, oc_executed_steps = 0\<rparr>)
         else ebind (begin_attempt E run_id r) (\<lambda>_. run_attempt E run_id))"

end
