(* ===== verification/Worker.thy ===== *)
theory Worker
  imports Engine
begin

text \<open>
  \<open>src/anchor/worker.py\<close>: a worker claims a run, drives it through the engine with its lease as
  the guard, and takes it off the queue or hands it back. The heartbeat task of a run is the one
  statement \<open>heartbeat_tick\<close>, which the event loop interleaves with the rest.
\<close>

record worker_stats =
  ws_claimed :: nat
  ws_completed :: nat
  ws_failed :: nat
  ws_cancelled :: nat
  ws_needs_review :: nat
  ws_lease_lost :: nat
  ws_replayed_steps :: nat
  ws_by_status :: "(string \<times> nat) list"

definition new_stats :: worker_stats where
  "new_stats =
     \<lparr>ws_claimed = 0, ws_completed = 0, ws_failed = 0, ws_cancelled = 0, ws_needs_review = 0,
      ws_lease_lost = 0, ws_replayed_steps = 0, ws_by_status = []\<rparr>"

definition record_outcome :: "outcome \<Rightarrow> worker_stats \<Rightarrow> worker_stats" where
  "record_outcome oc st =
     (let name = status_value (oc_status oc);
          seen = (case map_of (ws_by_status st) name of None \<Rightarrow> 0 | Some n \<Rightarrow> n);
          st = st\<lparr>ws_replayed_steps := ws_replayed_steps st + oc_replayed_steps oc,
                  ws_by_status := dict_set (ws_by_status st) name (seen + 1)\<rparr>
      in if oc_status oc = COMPLETED then st\<lparr>ws_completed := ws_completed st + 1\<rparr>
         else if oc_status oc = FAILED then st\<lparr>ws_failed := ws_failed st + 1\<rparr>
         else if oc_status oc = CANCELLED then st\<lparr>ws_cancelled := ws_cancelled st + 1\<rparr>
         else if oc_status oc = NEEDS_REVIEW then st\<lparr>ws_needs_review := ws_needs_review st + 1\<rparr>
         else st\<lparr>ws_lease_lost := ws_lease_lost st + 1\<rparr>)"

definition lease_seconds :: "('st, 'x) deps \<Rightarrow> rat" where
  "lease_seconds E = se_lease_seconds (d_settings E)"

text \<open>\<open>_owns\<close>, the lease guard of the runs a worker executes.\<close>

definition owns :: "('st, 'x) deps \<Rightarrow> string \<Rightarrow> uuid \<Rightarrow> rat \<Rightarrow> 'st \<Rightarrow> 'st \<times> bool" where
  "owns E worker_id run_id t = st_heartbeat (d_store E) t run_id worker_id (lease_seconds E)"

definition guarded :: "('st, 'x) deps \<Rightarrow> string \<Rightarrow> uuid \<Rightarrow> ('st, 'x) deps" where
  "guarded E worker_id run_id = E\<lparr>d_lease_guard := Some (owns E worker_id run_id)\<rparr>"

definition heartbeat_tick :: "('st, 'x) deps \<Rightarrow> string \<Rightarrow> uuid \<Rightarrow> (('st, 'x) sys, bool) prog" where
  "heartbeat_tick E worker_id run_id = db_op (owns E worker_id run_id)"

type_synonym ('st, 'x) worker_prog = "(('st, 'x) sys, worker_stats \<times> outcome option) prog"

text \<open>\<open>_process\<close>: an exception of the engine releases the run; a terminal outcome dequeues it.\<close>

definition process :: "('st, 'x) deps \<Rightarrow> string \<Rightarrow> uuid \<Rightarrow> worker_stats \<Rightarrow> ('st, 'x) worker_prog" where
  "process E worker_id run_id st =
     bind (execute (guarded E worker_id run_id) run_id) (\<lambda>x.
     case x of
       Inl e \<Rightarrow>
         bind (db_op (\<lambda>t d. (st_release (d_store E) t run_id worker_id
                 (se_poll_interval_seconds (d_settings E)) d, ()))) (\<lambda>_.
         Ret (st, None))
     | Inr oc \<Rightarrow>
         if should_dequeue oc
         then bind (db_op (\<lambda>t d. (st_dequeue (d_store E) run_id d, ()))) (\<lambda>_.
              Ret (record_outcome oc st, Some oc))
         else Ret (record_outcome oc st, Some oc))"

definition run_once :: "('st, 'x) deps \<Rightarrow> string \<Rightarrow> worker_stats \<Rightarrow> ('st, 'x) worker_prog" where
  "run_once E worker_id st =
     bind (db_op (\<lambda>t. st_claim (d_store E) t worker_id (lease_seconds E))) (\<lambda>c.
     case c of
       None \<Rightarrow> Ret (st, None)
     | Some cl \<Rightarrow> process E worker_id (cl_run_id cl) (st\<lparr>ws_claimed := ws_claimed st + 1\<rparr>))"

section \<open>The statistics\<close>

text \<open>Every recorded outcome is counted once, under its status.\<close>

definition stats_total :: "worker_stats \<Rightarrow> nat" where
  "stats_total st =
     ws_completed st + ws_failed st + ws_cancelled st + ws_needs_review st + ws_lease_lost st"

lemma stats_total_record: "stats_total (record_outcome oc st) = stats_total st + 1"
  by (simp add: record_outcome_def stats_total_def Let_def)

lemma sum_dict_set:
  "sum_list (map snd (dict_set d k (v + 1 :: nat))) =
     sum_list (map snd d) + 1" if "(case map_of d k of None \<Rightarrow> 0 | Some n \<Rightarrow> n) = v"
  using that by (induction d) (auto split: option.splits if_splits)

lemma by_status_record:
  "sum_list (map snd (ws_by_status st)) = stats_total st \<Longrightarrow>
   sum_list (map snd (ws_by_status (record_outcome oc st))) = stats_total (record_outcome oc st)"
  unfolding stats_total_record by (simp add: record_outcome_def Let_def sum_dict_set [simplified])

end
