(* ===== verification/Postgres.thy ===== *)
theory Postgres
  imports Store
begin

text \<open>
  \<open>src/anchor/store/postgres.py\<close> over the tables of \<open>schema/001_init.sql\<close>. A table is the list of
  its rows in insertion order; every operation is one transaction, so one function. A \<open>jsonb\<close>
  parameter goes through \<open>json.dumps\<close> (which raises on a value that is not JSON) and comes back
  through \<open>json.loads\<close>. SQL's \<open>NULL\<close> is \<open>None\<close>; a comparison with it is not true.
\<close>

section \<open>Tables\<close>

record run_row =
  rw_run_id :: uuid
  rw_workflow :: string
  rw_input :: pyval
  rw_idempotency_key :: string
  rw_status :: run_status
  rw_event_seq :: nat
  rw_attempt :: nat
  rw_budget :: pyval
  rw_usage :: pyval
  rw_result :: "pyval option"
  rw_error :: "pyval option"
  rw_cancel_requested :: bool
  rw_created_at :: rat
  rw_updated_at :: rat
  rw_finished_at :: "rat option"

record event_row =
  er_run_id :: uuid
  er_event :: event

record queue_row =
  q_run_id :: uuid
  q_visible_at :: rat
  q_locked_until :: "rat option"
  q_worker_id :: "string option"
  q_attempts :: nat

record pg =
  pg_runs :: "run_row list"
  pg_events :: "event_row list"
  pg_run_queue :: "queue_row list"

definition pg_empty :: pg where
  "pg_empty = \<lparr>pg_runs = [], pg_events = [], pg_run_queue = []\<rparr>"

text \<open>What asyncpg raises for a parameter its codec cannot encode, and for a duplicate key.\<close>

definition data_error :: exn where
  "data_error = PyError ''DataError'' (Some ''invalid input for query argument'')"

definition unique_violation :: exn where
  "unique_violation =
     PyError ''UniqueViolationError'' (Some ''duplicate key value violates unique constraint'')"

definition to_run :: "run_row \<Rightarrow> run_record" where
  "to_run w =
     \<lparr>rr_run_id = rw_run_id w, rr_workflow = rw_workflow w, rr_input = rw_input w,
      rr_idempotency_key = rw_idempotency_key w, rr_status = rw_status w,
      rr_event_seq = rw_event_seq w, rr_attempt = rw_attempt w,
      rr_budget = budget_from_dict (pydict_of (rw_budget w)),
      rr_usage = usage_from_dict (pydict_of (rw_usage w)),
      rr_result =
        (case rw_result w of None \<Rightarrow> PNone
         | Some (PDict d) \<Rightarrow> py_get (PDict d) ''value'' PNone | Some v \<Rightarrow> v),
      rr_error = (case rw_error w of None \<Rightarrow> PNone | Some v \<Rightarrow> v),
      rr_cancel_requested = rw_cancel_requested w, rr_created_at = rw_created_at w,
      rr_updated_at = rw_updated_at w, rr_finished_at = rw_finished_at w\<rparr>"

section \<open>Runs and events\<close>

definition find_run :: "uuid \<Rightarrow> pg \<Rightarrow> run_row option" where
  "find_run r db = row_find (\<lambda>w. rw_run_id w = r) (pg_runs db)"

definition update_run :: "uuid \<Rightarrow> (run_row \<Rightarrow> run_row) \<Rightarrow> pg \<Rightarrow> pg" where
  "update_run r f db = db\<lparr>pg_runs := row_update (\<lambda>w. rw_run_id w = r) f (pg_runs db)\<rparr>"

text \<open>
  One statement: the counter is bumped and the event inserted under the new number. If the run
  does not exist the CTE is empty, nothing is inserted and the result is \<open>NULL\<close>. A number that
  is taken violates the primary key and rolls the statement back.
\<close>

definition append_event_conn ::
  "rat \<Rightarrow> uuid \<Rightarrow> event_type \<Rightarrow> string option \<Rightarrow> pyval \<Rightarrow> pg \<Rightarrow> pg \<times> nat option py_result" where
  "append_event_conn t r ty sk p db =
     (if \<not> json_ok p then (db, Inl data_error)
      else case find_run r db of
        None \<Rightarrow> (db, Inr None)
      | Some w \<Rightarrow>
          (let seq = rw_event_seq w + 1 in
           if \<exists>e \<in> set (pg_events db). er_run_id e = r \<and> ev_seq (er_event e) = seq
           then (db, Inl unique_violation)
           else
             ((update_run r (\<lambda>w. w\<lparr>rw_event_seq := seq, rw_updated_at := t\<rparr>) db)
                \<lparr>pg_events := pg_events db @
                  [\<lparr>er_run_id = r,
                    er_event = \<lparr>ev_seq = seq, ev_type = ty, ev_step_key = sk,
                                ev_payload = json_norm p, ev_created_at = t\<rparr>\<rparr>]\<rparr>,
              Inr (Some seq))))"

definition pg_load_events :: "uuid \<Rightarrow> pg \<Rightarrow> event list" where
  "pg_load_events r db =
     sort_key ev_seq (map er_event (filter (\<lambda>e. er_run_id e = r) (pg_events db)))"

definition pg_get_run :: "uuid \<Rightarrow> pg \<Rightarrow> run_record option" where
  "pg_get_run r db = map_option to_run (find_run r db)"

text \<open>
  \<open>run_id\<close> is the fresh \<open>uuid4\<close>. The inserted row takes its other columns from the defaults of
  the schema. The statements are one transaction: an error leaves the database as it was.
\<close>

definition new_run_row :: "rat \<Rightarrow> uuid \<Rightarrow> string \<Rightarrow> pyval \<Rightarrow> string \<Rightarrow> budget \<Rightarrow> run_row" where
  "new_run_row t run_id wn payload key b =
     \<lparr>rw_run_id = run_id, rw_workflow = wn, rw_input = json_norm payload,
      rw_idempotency_key = key, rw_status = PENDING, rw_event_seq = 0, rw_attempt = 0,
      rw_budget = PDict (budget_to_dict b), rw_usage = PDict [], rw_result = None,
      rw_error = None, rw_cancel_requested = False, rw_created_at = t, rw_updated_at = t,
      rw_finished_at = None\<rparr>"

definition new_queue_row :: "rat \<Rightarrow> uuid \<Rightarrow> queue_row" where
  "new_queue_row t run_id =
     \<lparr>q_run_id = run_id, q_visible_at = t, q_locked_until = None, q_worker_id = None,
      q_attempts = 0\<rparr>"

definition run_started_payload :: "string \<Rightarrow> pyval \<Rightarrow> budget \<Rightarrow> pyval" where
  "run_started_payload wn payload b =
     PDict [(KStr ''workflow'', PStr wn), (KStr ''input'', payload),
            (KStr ''budget'', PDict (budget_to_dict b))]"

definition pg_submit_run ::
  "rat \<Rightarrow> uuid \<Rightarrow> string \<Rightarrow> pyval \<Rightarrow> string \<Rightarrow> budget \<Rightarrow> pg \<Rightarrow> pg \<times> (run_record \<times> bool) py_result" where
  "pg_submit_run t run_id wn payload key b db =
     (if \<not> json_ok payload then (db, Inl data_error)
      else case row_find (\<lambda>w. rw_idempotency_key w = key) (pg_runs db) of
        Some existing \<Rightarrow> (db, Inr (to_run existing, False))
      | None \<Rightarrow>
          if find_run run_id db \<noteq> None then (db, Inl unique_violation)
          else
            (let db1 = db\<lparr>pg_runs := pg_runs db @ [new_run_row t run_id wn payload key b],
                          pg_run_queue := pg_run_queue db @ [new_queue_row t run_id]\<rparr>
             in case append_event_conn t run_id RUN_STARTED None
                       (run_started_payload wn payload b) db1
                of (db2, Inl e) \<Rightarrow> (db, Inl e)
                 | (db2, Inr _) \<Rightarrow>
                     (case find_run run_id db2 of
                        None \<Rightarrow> (db, Inl (PyError ''TypeError'' None))
                      | Some fresh \<Rightarrow> (db2, Inr (to_run fresh, True)))))"

text \<open>An unconditional update of the row: \<open>WHERE run_id = $1\<close> and nothing else.\<close>

definition pg_set_status ::
  "rat \<Rightarrow> uuid \<Rightarrow> run_status \<Rightarrow> pyval \<Rightarrow> pyval \<Rightarrow> pg \<Rightarrow> pg \<times> unit py_result" where
  "pg_set_status t r st result error db =
     (if \<not> json_ok result \<or> \<not> json_ok error then (db, Inl data_error)
      else
        (update_run r (\<lambda>w. w
           \<lparr>rw_status := st,
            rw_result := (if result = PNone then rw_result w
                          else Some (PDict [(KStr ''value'', json_norm result)])),
            rw_error := (if error = PNone then rw_error w else Some (json_norm error)),
            rw_updated_at := t,
            rw_finished_at := (if terminal st then Some t else rw_finished_at w)\<rparr>) db,
         Inr ()))"

definition pg_bump_attempt :: "rat \<Rightarrow> uuid \<Rightarrow> pg \<Rightarrow> pg \<times> nat option py_result" where
  "pg_bump_attempt t r db =
     (update_run r (\<lambda>w. w\<lparr>rw_attempt := rw_attempt w + 1, rw_updated_at := t\<rparr>) db,
      Inr (map_option (\<lambda>w. rw_attempt w + 1) (find_run r db)))"

definition pg_save_usage :: "rat \<Rightarrow> uuid \<Rightarrow> usage \<Rightarrow> pg \<Rightarrow> pg" where
  "pg_save_usage t r u db =
     update_run r (\<lambda>w. w\<lparr>rw_usage := PDict (usage_to_dict u), rw_updated_at := t\<rparr>) db"

definition pg_request_cancel :: "rat \<Rightarrow> uuid \<Rightarrow> pg \<Rightarrow> pg \<times> bool" where
  "pg_request_cancel t r db =
     (case find_run r db of
        None \<Rightarrow> (db, False)
      | Some w \<Rightarrow>
          if terminal (rw_status w) then (db, False)
          else (fst (append_event_conn t r CANCEL_REQUESTED None (PDict [])
                       (update_run r (\<lambda>w. w\<lparr>rw_cancel_requested := True, rw_updated_at := t\<rparr>) db)),
                True))"

definition pg_is_cancel_requested :: "uuid \<Rightarrow> pg \<Rightarrow> bool" where
  "pg_is_cancel_requested r db =
     (case find_run r db of None \<Rightarrow> False | Some w \<Rightarrow> rw_cancel_requested w)"

text \<open>Newest first. An empty status is no filter; a negative limit is refused by the database.\<close>

definition pg_list_runs :: "int \<Rightarrow> string option \<Rightarrow> pg \<Rightarrow> run_record list py_result" where
  "pg_list_runs limit st db =
     (if limit < 0
      then Inl (PyError ''InvalidRowCountInLimitClauseError'' (Some ''LIMIT must not be negative''))
      else Inr (take (nat limit)
        (map to_run
          (sort_key (\<lambda>w. - rw_created_at w)
            (filter (\<lambda>w. case st of None \<Rightarrow> True | Some s \<Rightarrow> s = [] \<or> status_value (rw_status w) = s)
               (pg_runs db))))))"

section \<open>The queue\<close>

definition claimable :: "rat \<Rightarrow> queue_row \<Rightarrow> bool" where
  "claimable t q \<longleftrightarrow>
     q_visible_at q \<le> t \<and> (case q_locked_until q of None \<Rightarrow> True | Some u \<Rightarrow> u < t)"

text \<open>The oldest claimable row. Concurrent claims skip each other's row lock, so they are serial here.\<close>

definition pg_claim :: "rat \<Rightarrow> string \<Rightarrow> rat \<Rightarrow> pg \<Rightarrow> pg \<times> claim option" where
  "pg_claim t worker_id lease db =
     (case sort_key q_visible_at (filter (claimable t) (pg_run_queue db)) of
        [] \<Rightarrow> (db, None)
      | q # _ \<Rightarrow>
          (db\<lparr>pg_run_queue := row_update (\<lambda>x. q_run_id x = q_run_id q)
                (\<lambda>x. x\<lparr>q_locked_until := Some (t + lease), q_worker_id := Some worker_id,
                       q_attempts := q_attempts x + 1\<rparr>) (pg_run_queue db)\<rparr>,
           Some \<lparr>cl_run_id = q_run_id q, cl_attempts = q_attempts q + 1\<rparr>))"

definition leased_to :: "rat \<Rightarrow> uuid \<Rightarrow> string \<Rightarrow> queue_row \<Rightarrow> bool" where
  "leased_to t r w q \<longleftrightarrow>
     q_run_id q = r \<and> q_worker_id q = Some w \<and>
     (case q_locked_until q of None \<Rightarrow> False | Some u \<Rightarrow> u > t)"

definition pg_heartbeat :: "rat \<Rightarrow> uuid \<Rightarrow> string \<Rightarrow> rat \<Rightarrow> pg \<Rightarrow> pg \<times> bool" where
  "pg_heartbeat t r worker_id lease db =
     (db\<lparr>pg_run_queue := row_update (leased_to t r worker_id)
           (\<lambda>q. q\<lparr>q_locked_until := Some (t + lease)\<rparr>) (pg_run_queue db)\<rparr>,
      \<exists>q \<in> set (pg_run_queue db). leased_to t r worker_id q)"

definition pg_release :: "rat \<Rightarrow> uuid \<Rightarrow> string \<Rightarrow> rat \<Rightarrow> pg \<Rightarrow> pg" where
  "pg_release t r worker_id delay db =
     db\<lparr>pg_run_queue :=
          row_update (\<lambda>q. q_run_id q = r \<and> q_worker_id q = Some worker_id)
            (\<lambda>q. q\<lparr>q_locked_until := None, q_worker_id := None, q_visible_at := t + delay\<rparr>)
            (pg_run_queue db)\<rparr>"

text \<open>By run id alone: whoever holds the lease.\<close>

definition pg_dequeue :: "uuid \<Rightarrow> pg \<Rightarrow> pg" where
  "pg_dequeue r db = db\<lparr>pg_run_queue := row_delete (\<lambda>q. q_run_id q = r) (pg_run_queue db)\<rparr>"

record queue_depth =
  qd_claimable :: nat
  qd_leased :: nat
  qd_total :: nat

definition pg_queue_depth :: "rat \<Rightarrow> pg \<Rightarrow> queue_depth" where
  "pg_queue_depth t db =
     \<lparr>qd_claimable = length (filter (\<lambda>q. case q_locked_until q of None \<Rightarrow> True | Some u \<Rightarrow> u < t)
                              (pg_run_queue db)),
      qd_leased = length (filter (\<lambda>q. case q_locked_until q of None \<Rightarrow> False | Some u \<Rightarrow> u \<ge> t)
                            (pg_run_queue db)),
      qd_total = length (pg_run_queue db)\<rparr>"

text \<open>\<open>GROUP BY status\<close>: the statuses that occur, each once.\<close>

definition pg_status_counts :: "pg \<Rightarrow> (string \<times> nat) list" where
  "pg_status_counts db =
     filter (\<lambda>(st, n). n \<noteq> 0)
       (map (\<lambda>st. (status_value st, length (filter (\<lambda>w. rw_status w = st) (pg_runs db)))) run_statuses)"

section \<open>Side effects\<close>

text \<open>
  The table \<open>side_effects\<close> stands for a downstream system that deduplicates on the token. It is
  a state of its own: the runtime reaches it from tool bodies and verifiers only.
\<close>

record effect =
  ef_token :: uuid
  ef_run_id :: uuid
  ef_kind :: string
  ef_payload :: pyval
  ef_created_at :: rat

definition record_side_effect ::
  "rat \<Rightarrow> uuid \<Rightarrow> uuid \<Rightarrow> string \<Rightarrow> pyval \<Rightarrow> effect list \<Rightarrow> effect list \<times> bool py_result" where
  "record_side_effect t token run_id kind payload es =
     (if \<not> json_ok payload then (es, Inl data_error)
      else if \<exists>e \<in> set es. ef_token e = token then (es, Inr False)
      else (es @ [\<lparr>ef_token = token, ef_run_id = run_id, ef_kind = kind,
                   ef_payload = json_norm payload, ef_created_at = t\<rparr>], Inr True))"

definition find_side_effect :: "(rat \<Rightarrow> string) \<Rightarrow> uuid \<Rightarrow> effect list \<Rightarrow> pyval" where
  "find_side_effect isoformat token es =
     (case row_find (\<lambda>e. ef_token e = token) es of
        None \<Rightarrow> PNone
      | Some e \<Rightarrow> PDict [(KStr ''token'', PStr (uuid_str (ef_token e))),
                         (KStr ''run_id'', PStr (uuid_str (ef_run_id e))),
                         (KStr ''kind'', PStr (ef_kind e)),
                         (KStr ''payload'', ef_payload e),
                         (KStr ''created_at'', PStr (isoformat (ef_created_at e)))])"

definition count_side_effects :: "uuid \<Rightarrow> string \<Rightarrow> effect list \<Rightarrow> nat" where
  "count_side_effects run_id kind es =
     length (filter (\<lambda>e. ef_run_id e = run_id \<and> ef_kind e = kind) es)"

section \<open>The backend\<close>

definition pg_store :: "pg store" where
  "pg_store =
     \<lparr>st_submit_run = pg_submit_run, st_get_run = pg_get_run, st_load_events = pg_load_events,
      st_append_event = append_event_conn, st_set_status = pg_set_status,
      st_bump_attempt = pg_bump_attempt, st_save_usage = pg_save_usage,
      st_request_cancel = pg_request_cancel, st_is_cancel_requested = pg_is_cancel_requested,
      st_claim = pg_claim, st_heartbeat = pg_heartbeat, st_release = pg_release,
      st_dequeue = pg_dequeue\<rparr>"

lemma pg_store_simps [simp]:
  "st_submit_run pg_store = pg_submit_run" "st_get_run pg_store = pg_get_run"
  "st_load_events pg_store = pg_load_events" "st_append_event pg_store = append_event_conn"
  "st_set_status pg_store = pg_set_status" "st_bump_attempt pg_store = pg_bump_attempt"
  "st_save_usage pg_store = pg_save_usage" "st_request_cancel pg_store = pg_request_cancel"
  "st_is_cancel_requested pg_store = pg_is_cancel_requested" "st_claim pg_store = pg_claim"
  "st_heartbeat pg_store = pg_heartbeat" "st_release pg_store = pg_release"
  "st_dequeue pg_store = pg_dequeue"
  by (simp_all add: pg_store_def)

end
