(* ===== verification/Protocol.thy ===== *)
theory Protocol
  imports Context
begin

text \<open>
  The step protocol: the state machine that the events of one step key in a run's log follow, and
  what the replay state of \<open>context.py\<close> is in terms of it. A step is started, possibly retried,
  and then recorded or given up; a step that was given up may be started again by a later attempt.
\<close>

section \<open>The state machine of one step key\<close>

datatype phase = Not_started | In_flight | Recorded | Gave_up | Violated

definition phase_step :: "phase \<Rightarrow> event_type \<Rightarrow> phase" where
  "phase_step p ty =
     (case ty of
        STEP_STARTED \<Rightarrow> if p = Not_started \<or> p = Gave_up then In_flight else Violated
      | STEP_RETRIED \<Rightarrow> if p = In_flight then In_flight else Violated
      | STEP_COMPLETED \<Rightarrow> if p = In_flight then Recorded else Violated
      | STEP_FAILED \<Rightarrow> if p = In_flight then Gave_up else Violated
      | _ \<Rightarrow> p)"

definition phase :: "event list \<Rightarrow> string \<Rightarrow> phase" where
  "phase l key =
     foldl (\<lambda>p e. if ev_step_key e = Some key then phase_step p (ev_type e) else p) Not_started l"

definition count_events :: "event list \<Rightarrow> string \<Rightarrow> event_type \<Rightarrow> nat" where
  "count_events l key ty = length (filter (\<lambda>e. ev_step_key e = Some key \<and> ev_type e = ty) l)"

text \<open>The log obeys the protocol for every key.\<close>

definition obeys_protocol :: "event list \<Rightarrow> bool" where
  "obeys_protocol l \<longleftrightarrow> (\<forall>e \<in> set l. case ev_step_key e of None \<Rightarrow> True | Some key \<Rightarrow> phase l key \<noteq> Violated)"

lemma phase_Nil [simp]: "phase [] key = Not_started"
  by (simp add: phase_def)

lemma phase_snoc [simp]:
  "phase (l @ [e]) key =
     (if ev_step_key e = Some key then phase_step (phase l key) (ev_type e) else phase l key)"
  by (simp add: phase_def)

lemma count_events_Nil [simp]: "count_events [] key ty = 0"
  by (simp add: count_events_def)

lemma count_events_snoc [simp]:
  "count_events (l @ [e]) key ty =
     count_events l key ty + (if ev_step_key e = Some key \<and> ev_type e = ty then 1 else 0)"
  by (simp add: count_events_def)

lemma phase_absent: "Some key \<notin> ev_step_key ` set l \<Longrightarrow> phase l key = Not_started"
  by (induction l rule: rev_induct) auto

lemma obeys_protocol_iff: "obeys_protocol l \<longleftrightarrow> (\<forall>key. phase l key \<noteq> Violated)"
proof
  assume h: "obeys_protocol l"
  show "\<forall>key. phase l key \<noteq> Violated"
  proof
    fix key
    show "phase l key \<noteq> Violated"
    proof (cases "Some key \<in> ev_step_key ` set l")
      case True
      then obtain e where "e \<in> set l" "ev_step_key e = Some key" by force
      with h show ?thesis by (auto simp: obeys_protocol_def)
    next
      case False
      then show ?thesis by (simp add: phase_absent)
    qed
  qed
qed (simp add: obeys_protocol_def split: option.splits)

lemma phase_append_keyless:
  "(\<And>e. e \<in> set es \<Longrightarrow> ev_step_key e = None) \<Longrightarrow> phase (l @ es) key = phase l key"
  by (induction es rule: rev_induct) (simp_all add: phase_snoc [of "_ @ _", simplified])

lemma count_append_keyless:
  "(\<And>e. e \<in> set es \<Longrightarrow> ev_step_key e = None) \<Longrightarrow> count_events (l @ es) key ty = count_events l key ty"
  by (simp add: count_events_def filter_empty_conv)

lemma phase_step_Violated [simp]: "phase_step Violated ty = Violated"
  by (simp add: phase_step_def split: event_type.splits)

section \<open>Counting\<close>

text \<open>Every start but the open or recorded one was given up; a step is recorded at most once.\<close>

lemma count_started:
  "phase l key \<noteq> Violated \<Longrightarrow>
   count_events l key STEP_STARTED =
     count_events l key STEP_FAILED + (if phase l key \<in> {In_flight, Recorded} then 1 else 0)"
  by (induction l rule: rev_induct)
    (auto simp: phase_step_def split: event_type.splits if_splits)

lemma count_completed:
  "phase l key \<noteq> Violated \<Longrightarrow>
   count_events l key STEP_COMPLETED = (if phase l key = Recorded then 1 else 0)"
  by (induction l rule: rev_induct)
    (auto simp: phase_step_def split: event_type.splits if_splits)

section \<open>The replay state\<close>

lemma build_replay_Nil [simp]: "build_replay_state [] = (\<lambda>_. None, \<lambda>_. None)"
  by (simp add: build_replay_state_def)

lemma build_replay_snoc [simp]:
  "build_replay_state (l @ [e]) = replay_event (build_replay_state l) e"
  by (simp add: build_replay_state_def)

text \<open>On a log that obeys the protocol the replay state is the phase of each key.\<close>

lemma replay_phase:
  "phase l key \<noteq> Violated \<Longrightarrow>
   (fst (build_replay_state l) key \<noteq> None \<longleftrightarrow> phase l key = Recorded) \<and>
   (snd (build_replay_state l) key \<noteq> None \<longleftrightarrow> phase l key = In_flight)"
proof (induction l rule: rev_induct)
  case (snoc e l)
  have "phase l key \<noteq> Violated" using snoc.prems by (auto split: if_splits)
  note IH = snoc.IH [OF this]
  show ?case
  proof (cases "ev_step_key e = Some key")
    case True
    with IH snoc.prems show ?thesis
      by (cases "ev_type e") (auto simp: replay_event_def phase_step_def split: if_splits)
  next
    case False
    with IH show ?thesis
      by (auto simp: replay_event_def split: option.splits event_type.splits)
  qed
qed simp

lemma replay_other:
  "ev_step_key e \<noteq> Some key \<Longrightarrow>
   fst (replay_event cu e) key = fst cu key \<and> snd (replay_event cu e) key = snd cu key"
  by (auto simp: replay_event_def split: option.splits event_type.splits)

lemma replay_keyless:
  "(\<And>e. e \<in> set es \<Longrightarrow> ev_step_key e = None) \<Longrightarrow> build_replay_state (l @ es) = build_replay_state l"
proof (induction es rule: rev_induct)
  case (snoc e es)
  then have "ev_step_key e = None" "build_replay_state (l @ es) = build_replay_state l" by auto
  then show ?case
    by (simp add: replay_event_def flip: append_assoc)
qed simp

text \<open>A recorded result is never replaced on a log that keeps to the protocol.\<close>

lemma replay_recorded:
  assumes "phase l key = Recorded" and "phase (l @ es) key \<noteq> Violated"
  shows "phase (l @ es) key = Recorded \<and>
         fst (build_replay_state (l @ es)) key = fst (build_replay_state l) key"
  using assms(2)
proof (induction es rule: rev_induct)
  case (snoc e es)
  have ok: "phase (l @ es) key \<noteq> Violated"
    using snoc.prems by (auto simp flip: append_assoc split: if_splits)
  note IH = snoc.IH [OF ok]
  show ?case
  proof (cases "ev_step_key e = Some key")
    case False
    with IH show ?thesis by (simp add: replay_other flip: append_assoc)
  next
    case True
    with IH snoc.prems show ?thesis
      by (cases "ev_type e") (auto simp: replay_event_def phase_step_def simp flip: append_assoc)
  qed
qed (simp add: assms(1))

section \<open>Keys\<close>

text \<open>A key determines the name and the ordinal: the ordinal is what follows the last number sign.\<close>

lemma step_key_inj: "step_key nm n = step_key nm' n' \<longleftrightarrow> nm = nm' \<and> n = n'"
proof
  assume eq: "step_key nm n = step_key nm' n'"
  have tw: "takeWhile (\<lambda>c. c \<noteq> CHR ''#'') (rev (step_key a m)) = rev (str_nat m)" for a m
  proof -
    have "\<not> is_digit (CHR ''#'')" by (simp add: is_digit_def)
    then have "\<forall>c \<in> set (rev (str_nat m)). c \<noteq> CHR ''#''"
      using str_nat_digits by fastforce
    then have "takeWhile (\<lambda>c. c \<noteq> CHR ''#'') (rev (str_nat m) @ ''#'' @ rev a) =
        rev (str_nat m) @ takeWhile (\<lambda>c. c \<noteq> CHR ''#'') (''#'' @ rev a)"
      by (intro takeWhile_append2) blast
    then show ?thesis by (simp add: step_key_def)
  qed
  from tw [of nm n] tw [of nm' n'] eq have "str_nat n = str_nat n'" by simp
  then have "n = n'" by simp
  with eq show "nm = nm' \<and> n = n'" by (simp add: step_key_def)
qed simp

definition issued :: "ctx \<Rightarrow> string \<Rightarrow> bool" where
  "issued c key \<longleftrightarrow> (\<exists>nm n. key = step_key nm n \<and> 1 \<le> n \<and> n \<le> ordinal c nm)"

lemma issued_step_key [simp]: "issued c (step_key nm n) \<longleftrightarrow> 1 \<le> n \<and> n \<le> ordinal c nm"
  by (auto simp: issued_def step_key_inj)

lemma ordinal_upd [simp]:
  "ordinal (c\<lparr>cx_ordinals := (cx_ordinals c)(nm \<mapsto> n)\<rparr>) nm' = (if nm' = nm then n else ordinal c nm')"
  by (simp add: ordinal_def)

text \<open>The next key of a name was not issued before, and is the only new one.\<close>

lemma next_key_fresh: "\<not> issued c (step_key nm (ordinal c nm + 1))"
  by simp

lemma issued_next:
  "issued (c\<lparr>cx_ordinals := (cx_ordinals c)(nm \<mapsto> ordinal c nm + 1)\<rparr>) key \<longleftrightarrow>
     issued c key \<or> key = step_key nm (ordinal c nm + 1)"
  unfolding issued_def ordinal_upd by (auto simp: le_Suc_eq split: if_splits)

end
