(* ===== verification/Amid.thy ===== *)
theory Amid
  imports Prog
begin

text \<open>
  Triples for a coroutine that others disturb: \<open>R\<close> is what the others may do to the state between two atoms,
  \<open>I\<close> an invariant that everybody keeps. With equality for \<open>R\<close> nobody disturbs, and it is a triple of \<open>Prog\<close>.
\<close>

named_theorems kept_intros \<open>assertions the others leave alone\<close>

section \<open>Disturbed triples\<close>

primrec mid :: "('s \<Rightarrow> 's \<Rightarrow> bool) \<Rightarrow> ('s \<Rightarrow> bool) \<Rightarrow> ('s, 'r) prog \<Rightarrow> ('r \<Rightarrow> 's \<Rightarrow> bool) \<Rightarrow> 's \<Rightarrow> bool" where
  "mid R I (Ret r) = (\<lambda>Q s. \<forall>s'. R s s' \<longrightarrow> I s' \<longrightarrow> Q r s')"
| "mid R I (Atom f) = (\<lambda>Q s. \<forall>s'. R s s' \<longrightarrow> I s' \<longrightarrow>
     (case (map_prod id (mid R I) \<circ> f) s' of (s'', g) \<Rightarrow> I s'' \<and> g Q s''))"

lemma mid_Ret: "mid R I (Ret r) Q s \<longleftrightarrow> (\<forall>s'. R s s' \<longrightarrow> I s' \<longrightarrow> Q r s')"
  by simp

lemma mid_Atom:
  "mid R I (Atom f) Q s \<longleftrightarrow> (\<forall>s'. R s s' \<longrightarrow> I s' \<longrightarrow> I (fst (f s')) \<and> mid R I (snd (f s')) Q (fst (f s')))"
  by (simp add: map_prod_def split_def)

declare mid.simps [simp del]

lemma mid_mono: "mid R I p Q s \<Longrightarrow> (\<And>r s. Q r s \<Longrightarrow> Q' r s) \<Longrightarrow> mid R I p Q' s"
  by (induction p arbitrary: s) (auto simp: mid_Ret mid_Atom)

lemma mid_later: "mid R I p Q s \<Longrightarrow> R s s' \<Longrightarrow> (\<And>a b c. R a b \<Longrightarrow> R b c \<Longrightarrow> R a c) \<Longrightarrow> mid R I p Q s'"
  by (cases p) (auto simp: mid_Ret mid_Atom)

definition kept :: "('s \<Rightarrow> 's \<Rightarrow> bool) \<Rightarrow> ('s \<Rightarrow> bool) \<Rightarrow> ('s \<Rightarrow> bool) \<Rightarrow> bool" where
  "kept R I P \<longleftrightarrow> (\<forall>s s'. P s \<longrightarrow> I s \<longrightarrow> R s s' \<longrightarrow> I s' \<longrightarrow> P s')"

definition amid ::
  "('s \<Rightarrow> 's \<Rightarrow> bool) \<Rightarrow> ('s \<Rightarrow> bool) \<Rightarrow> ('s \<Rightarrow> bool) \<Rightarrow> ('s, 'r) prog \<Rightarrow> ('r \<Rightarrow> 's \<Rightarrow> bool) \<Rightarrow> bool" where
  "amid R I P p Q \<longleftrightarrow> (\<forall>s. P s \<longrightarrow> I s \<longrightarrow> mid R I p Q s)"

lemma keptD: "kept R I P \<Longrightarrow> P s \<Longrightarrow> I s \<Longrightarrow> R s s' \<Longrightarrow> I s' \<Longrightarrow> P s'"
  unfolding kept_def by blast

lemma kept_conj [kept_intros]: "kept R I P \<Longrightarrow> kept R I Q \<Longrightarrow> kept R I (\<lambda>s. P s \<and> Q s)"
  unfolding kept_def by blast

lemma kept_const [kept_intros]: "kept R I (\<lambda>s. A)"
  unfolding kept_def by blast

lemma kept_imp [kept_intros]: "(A \<Longrightarrow> kept R I P) \<Longrightarrow> kept R I (\<lambda>s. A \<longrightarrow> P s)"
  unfolding kept_def by blast

lemma kept_all [kept_intros]: "(\<And>x. kept R I (P x)) \<Longrightarrow> kept R I (\<lambda>s. \<forall>x. P x s)"
  unfolding kept_def by blast

lemma kept_disj [kept_intros]: "kept R I P \<Longrightarrow> kept R I Q \<Longrightarrow> kept R I (\<lambda>s. P s \<or> Q s)"
  unfolding kept_def by blast

lemma kept_alone [kept_intros]: "kept (=) I P"
  by (simp add: kept_def)

section \<open>Rules\<close>

lemma amid_pre: "amid R I P p Q \<Longrightarrow> (\<And>s. P' s \<Longrightarrow> I s \<Longrightarrow> P s) \<Longrightarrow> amid R I P' p Q"
  by (simp add: amid_def)

lemma amid_post: "amid R I P p Q \<Longrightarrow> (\<And>r s. Q r s \<Longrightarrow> Q' r s) \<Longrightarrow> amid R I P p Q'"
  unfolding amid_def by (blast intro: mid_mono)

lemma amid_ex: "(\<And>u. amid R I (P u) p Q) \<Longrightarrow> amid R I (\<lambda>s. \<exists>u. P u s) p Q"
  unfolding amid_def by blast

text \<open>A precondition that does not speak of the state is an assumption.\<close>

lemma amid_assume: "(A \<Longrightarrow> amid R I P p Q) \<Longrightarrow> amid R I (\<lambda>s. A \<and> P s) p Q"
  unfolding amid_def by blast

lemma amid_Ret: "kept R I P \<Longrightarrow> (\<And>s. P s \<Longrightarrow> I s \<Longrightarrow> Q r s) \<Longrightarrow> amid R I P (Ret r) Q"
  by (auto simp: amid_def mid_Ret dest: keptD)

lemma amid_atom:
  assumes "kept R I P" and "\<And>x. kept R I (Q x)"
    and "\<And>s. P s \<Longrightarrow> I s \<Longrightarrow> I (fst (f s)) \<and> Q (snd (f s)) (fst (f s))"
  shows "amid R I P (atom f) Q"
  unfolding amid_def atom_def
  using assms(3) keptD [OF assms(1)] keptD [OF assms(2)] by (simp add: mid_Ret mid_Atom) blast

lemma amid_bind:
  assumes "\<And>s. R s s" and "amid R I P p M" and "\<And>x. amid R I (M x) (k x) Q"
  shows "amid R I P (bind p k) Q"
proof -
  have "mid R I p M s \<Longrightarrow> I s \<Longrightarrow> mid R I (bind p k) Q s" for s
  proof (induction p arbitrary: s)
    case (Ret r)
    then show ?case using assms(1,3) by (simp add: mid_Ret amid_def)
  qed (simp add: mid_Atom)
  then show ?thesis using assms(2) by (simp add: amid_def)
qed

lemma amid_ebind:
  assumes "\<And>s. R s s" and "amid R I P p M" and "\<And>a. amid R I (M (Inr a)) (k a) Q"
    and "\<And>e s. M (Inl e) s \<Longrightarrow> Q (Inl e) s"
  shows "amid R I P (ebind p k) Q"
proof -
  have "mid R I p M s \<Longrightarrow> I s \<Longrightarrow> mid R I (ebind p k) Q s" for s
  proof (induction p arbitrary: s)
    case (Ret r)
    then show ?case using assms(1,3,4) by (cases r) (simp_all add: mid_Ret amid_def ebind_def)
  next
    case (Atom f)
    then show ?case by (simp add: mid_Atom ebind_def)
  qed
  then show ?thesis using assms(2) by (simp add: amid_def)
qed

lemma amid_bind_gets:
  assumes "\<And>s. R s s" and "\<And>x. amid R I (\<lambda>s. P s \<and> f s = x) (k x) Q"
    and "kept R I P" and "\<And>x. kept R I (\<lambda>s. P s \<and> f s = x)"
  shows "amid R I P (bind (gets f) k) Q"
  unfolding gets_def
  by (rule amid_bind [OF assms(1) amid_atom [OF assms(3,4)] assms(2)]) simp

text \<open>A coroutine whose atoms keep an assertion that the others keep as well.\<close>

lemma amid_guar:
  assumes "guar G p" and "\<And>s s'. G s s' \<Longrightarrow> P s \<Longrightarrow> I s \<Longrightarrow> P s' \<and> I s'" and "kept R I P"
  shows "amid R I P p (\<lambda>r. P)"
proof -
  have "P s \<Longrightarrow> I s \<Longrightarrow> mid R I p (\<lambda>r. P) s" for s
    using assms(1)
  proof (induction p arbitrary: s)
    case (Ret r)
    then show ?case using keptD [OF assms(3)] by (simp add: mid_Ret)
  next
    case (Atom f)
    have "I (fst (f s')) \<and> mid R I (snd (f s')) (\<lambda>r. P) (fst (f s'))" if "R s s'" "I s'" for s'
    proof -
      have "P s'" using Atom.prems(1,2) that by (rule keptD [OF assms(3)])
      moreover have "G s' (fst (f s'))" using Atom.prems(3) by simp
      ultimately have "P (fst (f s')) \<and> I (fst (f s'))" using assms(2) that(2) by blast
      then show ?thesis using Atom.IH Atom.prems(3) by simp
    qed
    then show ?case by (simp add: mid_Atom)
  qed
  then show ?thesis by (simp add: amid_def)
qed

text \<open>What every atom and everybody else keep is kept across the whole coroutine.\<close>

lemma amid_frame:
  assumes "amid R I P p Q" and "guar G p" and "\<And>s s'. G s s' \<Longrightarrow> F s \<Longrightarrow> F s'" and "kept R I F"
  shows "amid R I (\<lambda>s. P s \<and> F s) p (\<lambda>r s. Q r s \<and> F s)"
proof -
  have "mid R I p Q s \<Longrightarrow> F s \<Longrightarrow> I s \<Longrightarrow> mid R I p (\<lambda>r s. Q r s \<and> F s) s" for s
    using assms(2)
  proof (induction p arbitrary: s)
    case (Ret r)
    then show ?case using keptD [OF assms(4)] by (simp add: mid_Ret)
  next
    case (Atom f)
    have "mid R I (snd (f s')) (\<lambda>r s. Q r s \<and> F s) (fst (f s'))" if "R s s'" "I s'" for s'
    proof -
      have "F s'" using Atom.prems(2,3) that by (rule keptD [OF assms(4)])
      moreover have "G s' (fst (f s'))" using Atom.prems(4) by simp
      ultimately have "F (fst (f s'))" using assms(3) by blast
      then show ?thesis using Atom.IH [of s' "fst (f s')"] Atom.prems(1,4) that by (simp add: mid_Atom)
    qed
    then show ?case using Atom.prems(1) by (simp add: mid_Atom)
  qed
  then show ?thesis using assms(1) by (simp add: amid_def)
qed

lemma amid_both:
  assumes "amid R I P p Q" and "amid R (\<lambda>_. True) (\<lambda>_. True) p (\<lambda>r _. A r)"
  shows "amid R I P p (\<lambda>r s. Q r s \<and> A r)"
proof -
  have "mid R I p Q s \<Longrightarrow> mid R (\<lambda>_. True) p (\<lambda>r _. A r) s \<Longrightarrow> mid R I p (\<lambda>r s. Q r s \<and> A r) s" for s
    by (induction p arbitrary: s) (auto simp: mid_Ret mid_Atom)
  then show ?thesis using assms by (simp add: amid_def)
qed

lemma mid_True: "mid R (\<lambda>_. True) p (\<lambda>_ _. True) s"
  by (induction p arbitrary: s) (simp_all add: mid_Ret mid_Atom)

text \<open>What holds of every result, however the others disturb.\<close>

primrec all_results :: "('r \<Rightarrow> bool) \<Rightarrow> ('s, 'r) prog \<Rightarrow> bool" where
  "all_results A (Ret r) = A r"
| "all_results A (Atom f) = (\<forall>s. snd ((map_prod id (all_results A) \<circ> f) s))"

lemma results_Atom [simp]: "all_results A (Atom f) \<longleftrightarrow> (\<forall>s. all_results A (snd (f s)))"
  by simp

declare all_results.simps(2) [simp del]

lemma results_True: "all_results (\<lambda>_. True) p"
  by (induction p) simp_all

lemma results_run: "all_results A p \<Longrightarrow> A (snd (run p s))"
  by (induction p arbitrary: s) simp_all

lemma results_lift: "all_results A p \<Longrightarrow> all_results A (lift gt pt p)"
  by (induction p) simp_all

lemma results_bind: "(\<And>x. all_results A (k x)) \<Longrightarrow> all_results A (bind p k)"
  by (induction p) simp_all

lemma amid_results: "amid R I P p Q \<Longrightarrow> all_results A p \<Longrightarrow> amid R I P p (\<lambda>r s. Q r s \<and> A r)"
proof -
  have "mid R I p Q s \<Longrightarrow> all_results A p \<Longrightarrow> mid R I p (\<lambda>r s. Q r s \<and> A r) s" for s
    by (induction p arbitrary: s) (auto simp: mid_Ret mid_Atom)
  then show "amid R I P p Q \<Longrightarrow> all_results A p \<Longrightarrow> ?thesis" by (simp add: amid_def)
qed

section \<open>Alone\<close>

lemma always_True: "always (\<lambda>_. True) p s"
  by (induction p arbitrary: s) simp_all

lemma mid_alone: "I s \<Longrightarrow> mid (=) I p Q s \<longleftrightarrow> always I p s \<and> Q (snd (run p s)) (fst (run p s))"
  by (induction p arbitrary: s) (auto simp: mid_Ret mid_Atom dest: always_start)

lemma amid_alone: "amid (=) I P p Q \<longleftrightarrow> triple I (\<lambda>s. P s \<and> I s) p Q"
  by (auto simp: amid_def triple_def mid_alone)

end
