(* ===== verification/Context_Inv.thy ===== *)
theory Context_Inv
  imports Protocol Amid
begin

text \<open>
  What the operations of a context keep, over any store with the log contract: the step protocol
  of the log, the agreement of the in-memory replay state with the log for every key not yet
  issued, and the write-ahead discipline (no body is entered that the log did not announce). The
  invariant holds after every atom, so wherever the process dies.
\<close>

section \<open>Code outside the runtime is quiet\<close>

text \<open>A step's body changes the clock, the outside world and the usage counters, nothing else.\<close>

definition quiet :: "('st, 'x) sys \<times> ctx \<Rightarrow> ('st, 'x) sys \<times> ctx \<Rightarrow> bool" where
  "quiet \<sigma> \<sigma>' \<longleftrightarrow>
     sy_db (fst \<sigma>') = sy_db (fst \<sigma>) \<and> sy_calls (fst \<sigma>') = sy_calls (fst \<sigma>) \<and>
     (\<exists>b. snd \<sigma>' = (snd \<sigma>)\<lparr>cx_budget := b\<rparr>)"

lemma budget_same: "\<exists>b. c = c\<lparr>cx_budget := b\<rparr>" for c :: ctx
  by (rule exI [of _ "cx_budget c"]) simp

lemma quiet_refl [simp]: "quiet \<sigma> \<sigma>"
  by (simp add: quiet_def budget_same)

lemma quiet_trans: "quiet a b \<Longrightarrow> quiet b c \<Longrightarrow> quiet a c"
  by (auto simp: quiet_def)

lemma quiet_run: "guar quiet p \<Longrightarrow> quiet \<sigma> (fst (run p \<sigma>))"
  by (rule guar_run) (auto intro: quiet_trans)

lemma quiet_outside [guar_intros]: "guar quiet (outside p)"
  unfolding outside_def
  by (rule guar_liftI) (auto simp: quiet_def budget_same)

lemma quiet_ctx_gets [guar_intros]: "guar quiet (ctx_gets f)"
  unfolding ctx_gets_def by (rule guar_getsI) simp

lemma quiet_call_fn [guar_intros]: "guar quiet (call_fn fn args token)"
  unfolding call_fn_def by (intro guar_intros)

lemma quiet_tool_body [guar_intros]: "guar quiet (tool_body spec args token)"
  unfolding tool_body_def ctx_modify_def by (intro guar_intros) (auto simp: quiet_def)

lemma quiet_model_body [guar_intros]: "guar quiet (model_body E req token)"
  unfolding model_body_def by (intro guar_intros)

section \<open>Triples for the atoms\<close>

lemma triple_ctx_db_op:
  assumes "\<And>s c. P (s, c) \<Longrightarrow>
      I (s, c) \<and> I (s\<lparr>sy_db := fst (f c (sy_now s) (sy_db s))\<rparr>, c) \<and>
      Q (snd (f c (sy_now s) (sy_db s))) (s\<lparr>sy_db := fst (f c (sy_now s) (sy_db s))\<rparr>, c)"
  shows "triple I P (ctx_db_op f) Q"
  unfolding ctx_db_op_def using assms by (intro triple_atom) (auto simp: Let_def split_def)

section \<open>The invariant\<close>

definition calls_of :: "('st, 'x) sys \<Rightarrow> uuid \<Rightarrow> string \<Rightarrow> nat" where
  "calls_of s r key = count_list (sy_calls s) (r, key)"

text \<open>What announces an entry into a body: the start of the step or a retry.\<close>

definition licences :: "event list \<Rightarrow> string \<Rightarrow> nat" where
  "licences l key = count_events l key STEP_STARTED + count_events l key STEP_RETRIED"

definition key_inv :: "(string \<Rightarrow> bool) \<Rightarrow> event list \<Rightarrow> nat \<Rightarrow> string \<Rightarrow> bool" where
  "key_inv amo l n key \<longleftrightarrow>
     phase l key \<noteq> Violated \<and> n \<le> licences l key \<and>
     (amo key \<longrightarrow> count_events l key STEP_RETRIED = 0 \<and> count_events l key STEP_FAILED = 0)"

definition agrees :: "event list \<Rightarrow> ctx \<Rightarrow> string \<Rightarrow> bool" where
  "agrees l c key \<longleftrightarrow>
     cx_completed c key = fst (build_replay_state l) key \<and>
     cx_unresolved c key = snd (build_replay_state l) key"

lemma agrees_phase:
  "agrees l c key \<Longrightarrow> phase l key \<noteq> Violated \<Longrightarrow>
   (cx_completed c key \<noteq> None \<longleftrightarrow> phase l key = Recorded) \<and>
   (cx_unresolved c key \<noteq> None \<longleftrightarrow> phase l key = In_flight)"
  using replay_phase [of l key] by (simp add: agrees_def)

text \<open>The keys whose steps are declared at-most-once and never fail are entered at most once.\<close>

lemma key_inv_once: "key_inv amo l n key \<Longrightarrow> amo key \<Longrightarrow> n \<le> 1"
  using count_started [of l key] by (auto simp: key_inv_def licences_def split: if_splits)

text \<open>Any key: one entry, and one more for every failure that the log records.\<close>

lemma key_inv_entries:
  "key_inv amo l n key \<Longrightarrow> n \<le> 1 + count_events l key STEP_RETRIED + count_events l key STEP_FAILED"
  using count_started [of l key] by (auto simp: key_inv_def licences_def split: if_splits)

lemma key_inv_snoc_other:
  "ev_step_key e \<noteq> Some key \<Longrightarrow> key_inv amo (l @ [e]) n key = key_inv amo l n key"
  by (simp add: key_inv_def licences_def)

lemma key_inv_snoc:
  assumes "key_inv amo l n key" and "ev_step_key e = Some key"
    and "phase_step (phase l key) (ev_type e) \<noteq> Violated"
    and "amo key \<Longrightarrow> ev_type e \<notin> {STEP_RETRIED, STEP_FAILED}"
  shows "key_inv amo (l @ [e]) n key"
  using assms by (auto simp: key_inv_def licences_def)

lemma key_inv_keyless:
  "(\<And>e. e \<in> set es \<Longrightarrow> ev_step_key e = None) \<Longrightarrow> key_inv amo (l @ es) n key = key_inv amo l n key"
  by (simp add: key_inv_def licences_def phase_append_keyless count_append_keyless)

lemma agrees_snoc_other:
  "ev_step_key e \<noteq> Some key \<Longrightarrow> agrees (l @ [e]) c key = agrees l c key"
  by (simp add: agrees_def replay_other)

lemma agrees_keyless:
  "(\<And>e. e \<in> set es \<Longrightarrow> ev_step_key e = None) \<Longrightarrow> agrees (l @ es) c key = agrees l c key"
  by (simp add: agrees_def replay_keyless)

text \<open>Neither looks at the budget or the counters of the context.\<close>

lemma agrees_ctx_simps [simp]:
  "agrees l (c\<lparr>cx_budget := b\<rparr>) = agrees l c"
  "agrees l (c\<lparr>cx_replayed_steps := n\<rparr>) = agrees l c"
  "agrees l (c\<lparr>cx_executed_steps := n\<rparr>) = agrees l c"
  "agrees l (c\<lparr>cx_ordinals := os\<rparr>) = agrees l c"
  by (simp_all add: agrees_def fun_eq_iff)

lemma agrees_complete: "k \<noteq> key \<Longrightarrow> agrees l (complete_step key v c) k = agrees l c k"
  by (simp add: agrees_def complete_step_def)

lemma issued_ctx_simps [simp]:
  "issued (c\<lparr>cx_budget := b\<rparr>) = issued c"
  "issued (c\<lparr>cx_replayed_steps := n\<rparr>) = issued c"
  "issued (c\<lparr>cx_executed_steps := n\<rparr>) = issued c"
  "issued (complete_step key v c) = issued c"
  by (simp_all add: issued_def ordinal_def complete_step_def fun_eq_iff)

lemma cx_run_id_simps [simp]:
  "cx_run_id (c\<lparr>cx_budget := b\<rparr>) = cx_run_id c"
  "cx_run_id (c\<lparr>cx_replayed_steps := n\<rparr>) = cx_run_id c"
  "cx_run_id (c\<lparr>cx_executed_steps := n\<rparr>) = cx_run_id c"
  "cx_run_id (c\<lparr>cx_ordinals := os\<rparr>) = cx_run_id c"
  "cx_run_id (c\<lparr>cx_completed := m\<rparr>) = cx_run_id c"
  "cx_run_id (c\<lparr>cx_unresolved := m\<rparr>) = cx_run_id c"
  "cx_run_id (complete_step key v c) = cx_run_id c"
  by (simp_all add: cx_run_id_def complete_step_def)

text \<open>Events that are none of a key's business: those of other keys, and those that are not steps of the protocol.\<close>

definition plain_event :: "event_type \<Rightarrow> bool" where
  "plain_event ty \<longleftrightarrow> ty \<notin> {STEP_STARTED, STEP_RETRIED, STEP_COMPLETED, STEP_FAILED}"

definition foreign :: "string \<Rightarrow> event \<Rightarrow> bool" where
  "foreign key e \<longleftrightarrow> (ev_step_key e = Some key \<longrightarrow> plain_event (ev_type e))"

lemma foreign_step:
  assumes "foreign key e"
  shows "phase (l @ [e]) key = phase l key" "licences (l @ [e]) key = licences l key"
    "fst (replay_event cu e) key = fst cu key \<and> snd (replay_event cu e) key = snd cu key"
proof -
  show "phase (l @ [e]) key = phase l key"
    using assms by (cases "ev_type e") (auto simp: foreign_def plain_event_def phase_step_def)
  show "licences (l @ [e]) key = licences l key"
    using assms by (auto simp: foreign_def plain_event_def licences_def)
  show "fst (replay_event cu e) key = fst cu key \<and> snd (replay_event cu e) key = snd cu key"
    using assms by (cases "ev_step_key e = Some key"; cases "ev_type e")
      (auto simp: foreign_def plain_event_def replay_event_def replay_other split: option.splits)
qed

lemma foreign_append:
  "\<forall>e \<in> set es. foreign key e \<Longrightarrow>
   phase (l @ es) key = phase l key \<and> licences (l @ es) key = licences l key \<and>
   fst (build_replay_state (l @ es)) key = fst (build_replay_state l) key \<and>
   snd (build_replay_state (l @ es)) key = snd (build_replay_state l) key"
proof (induction es rule: rev_induct)
  case (snoc e es)
  then have "foreign key e" by simp
  from foreign_step [OF this] snoc show ?case by (simp del: phase_snoc flip: append_assoc)
qed simp

lemma foreign_keyless: "ev_step_key e = None \<Longrightarrow> foreign key e" "ev_step_key e = Some k \<Longrightarrow> k \<noteq> key \<Longrightarrow> foreign key e"
  "plain_event (ev_type e) \<Longrightarrow> foreign key e"
  by (simp_all add: foreign_def)

context log_store
begin

definition log_of :: "uuid \<Rightarrow> ('st, 'x) sys \<Rightarrow> event list" where
  "log_of r s = st_load_events S r (sy_db s)"

definition log_inv :: "(string \<Rightarrow> bool) \<Rightarrow> uuid \<Rightarrow> ('st, 'x) sys \<Rightarrow> bool" where
  "log_inv amo r s \<longleftrightarrow>
     has_run r (sy_db s) \<and> (\<forall>key. key_inv amo (log_of r s) (calls_of s r key) key)"

definition ctx_inv :: "(string \<Rightarrow> bool) \<Rightarrow> uuid \<Rightarrow> ('st, 'x) sys \<times> ctx \<Rightarrow> bool" where
  "ctx_inv amo r \<sigma> \<longleftrightarrow>
     log_inv amo r (fst \<sigma>) \<and> cx_run_id (snd \<sigma>) = r \<and>
     (\<forall>key. \<not> issued (snd \<sigma>) key \<longrightarrow> agrees (log_of r (fst \<sigma>)) (snd \<sigma>) key)"

text \<open>The context is at a step of its own, in a phase, possibly licensed to enter the body.\<close>

definition at_key ::
  "(string \<Rightarrow> bool) \<Rightarrow> uuid \<Rightarrow> string \<Rightarrow> phase set \<Rightarrow> bool \<Rightarrow> ('st, 'x) sys \<times> ctx \<Rightarrow> bool" where
  "at_key amo r key ph licensed \<sigma> \<longleftrightarrow>
     ctx_inv amo r \<sigma> \<and> issued (snd \<sigma>) key \<and> phase (log_of r (fst \<sigma>)) key \<in> ph \<and>
     (licensed \<longrightarrow> calls_of (fst \<sigma>) r key < licences (log_of r (fst \<sigma>)) key)"

abbreviation INV :: "(string \<Rightarrow> bool) \<Rightarrow> uuid \<Rightarrow> ('st, 'x) sys \<times> ctx \<Rightarrow> bool" where
  "INV amo r \<equiv> \<lambda>\<sigma>. log_inv amo r (fst \<sigma>)"

lemma ctx_inv_log: "ctx_inv amo r \<sigma> \<Longrightarrow> log_inv amo r (fst \<sigma>)"
  by (simp add: ctx_inv_def)

lemma at_key_ctx: "at_key amo r key ph l \<sigma> \<Longrightarrow> ctx_inv amo r \<sigma>"
  by (simp add: at_key_def)

lemma at_key_log: "at_key amo r key ph l \<sigma> \<Longrightarrow> log_inv amo r (fst \<sigma>)"
  by (simp add: at_key_def ctx_inv_def)

lemma ctx_inv_has: "ctx_inv amo r \<sigma> \<Longrightarrow> has_run r (sy_db (fst \<sigma>)) \<and> cx_run_id (snd \<sigma>) = r"
  by (simp add: ctx_inv_def log_inv_def)

subsection \<open>Changes that keep it\<close>

lemma at_key_quiet: "quiet \<sigma> \<sigma>' \<Longrightarrow> at_key amo r key ph l \<sigma> \<Longrightarrow> at_key amo r key ph l \<sigma>'"
  by (auto simp: quiet_def at_key_def ctx_inv_def log_inv_def log_of_def calls_of_def)

lemma ctx_inv_keyless:
  assumes "ctx_inv amo r (s, c)" and "has_run r d" and "keyless_growth S r (sy_db s) d"
  shows "ctx_inv amo r (s\<lparr>sy_db := d\<rparr>, c) \<and>
    phase (log_of r (s\<lparr>sy_db := d\<rparr>)) = phase (log_of r s) \<and>
    licences (log_of r (s\<lparr>sy_db := d\<rparr>)) = licences (log_of r s)"
proof -
  from assms(3) obtain es where es: "st_load_events S r d = st_load_events S r (sy_db s) @ es"
    "\<And>e. e \<in> set es \<Longrightarrow> ev_step_key e = None" by (rule keyless_growthE) blast
  have l: "log_of r (s\<lparr>sy_db := d\<rparr>) = log_of r s @ es"
    using es(1) by (simp add: log_of_def)
  show ?thesis
    using assms(1,2) es(2)
    by (auto simp: ctx_inv_def log_inv_def l key_inv_keyless agrees_keyless calls_of_def
        phase_append_keyless licences_def count_append_keyless fun_eq_iff)
qed

lemma at_key_keyless:
  assumes "at_key amo r key ph l (s, c)" and "has_run r d" and "keyless_growth S r (sy_db s) d"
  shows "at_key amo r key ph l (s\<lparr>sy_db := d\<rparr>, c)"
  using assms ctx_inv_keyless [of amo r s c d] by (auto simp: at_key_def calls_of_def)

lemma ctx_inv_append:
  assumes inv: "ctx_inv amo r (s, c)" and key: "issued c key"
    and d: "has_run r d" "st_load_events S r d = st_load_events S r (sy_db s) @ [e]"
    and e: "ev_step_key e = Some key" "phase_step (phase (log_of r s) key) (ev_type e) \<noteq> Violated"
      "amo key \<Longrightarrow> ev_type e \<notin> {STEP_RETRIED, STEP_FAILED}"
  shows "ctx_inv amo r (s\<lparr>sy_db := d\<rparr>, c)"
proof -
  have l: "log_of r (s\<lparr>sy_db := d\<rparr>) = log_of r s @ [e]" using d(2) by (simp add: log_of_def)
  have "key_inv amo (log_of r s @ [e]) (calls_of s r k) k" for k
  proof (cases "k = key")
    case True
    with inv e show ?thesis by (intro key_inv_snoc) (auto simp: ctx_inv_def log_inv_def)
  next
    case False
    with inv e(1) show ?thesis by (auto simp: ctx_inv_def log_inv_def key_inv_snoc_other)
  qed
  moreover have "agrees (log_of r s @ [e]) c k" if "\<not> issued c k" for k
  proof -
    from that key have "k \<noteq> key" by blast
    with that inv e(1) show ?thesis by (auto simp: ctx_inv_def agrees_snoc_other)
  qed
  ultimately show ?thesis
    using inv d(1) by (simp add: ctx_inv_def log_inv_def l calls_of_def)
qed

lemma at_key_mono: "at_key amo r key ph l \<sigma> \<Longrightarrow> ph \<subseteq> ph' \<Longrightarrow> (l' \<Longrightarrow> l) \<Longrightarrow> at_key amo r key ph' l' \<sigma>"
  by (auto simp: at_key_def)

lemma at_key_any: "at_key amo r key ph l \<sigma> \<Longrightarrow> at_key amo r key UNIV False \<sigma>"
  by (auto simp: at_key_def)

subsection \<open>What other coroutines on the same context do\<close>

text \<open>They may add to the log, enter bodies and issue keys, but leave one key alone.\<close>

definition elsewhere :: "uuid \<Rightarrow> string \<Rightarrow> ('st, 'x) sys \<times> ctx \<Rightarrow> ('st, 'x) sys \<times> ctx \<Rightarrow> bool" where
  "elsewhere r key \<sigma> \<sigma>' \<longleftrightarrow>
     (has_run r (sy_db (fst \<sigma>)) \<longrightarrow> has_run r (sy_db (fst \<sigma>')) \<and>
        (\<exists>es. log_of r (fst \<sigma>') = log_of r (fst \<sigma>) @ es \<and> (\<forall>e \<in> set es. foreign key e))) \<and>
     calls_of (fst \<sigma>') r key = calls_of (fst \<sigma>) r key \<and> cx_run_id (snd \<sigma>') = cx_run_id (snd \<sigma>) \<and>
     (issued (snd \<sigma>) key \<longrightarrow> issued (snd \<sigma>') key) \<and>
     cx_completed (snd \<sigma>') key = cx_completed (snd \<sigma>) key \<and>
     cx_unresolved (snd \<sigma>') key = cx_unresolved (snd \<sigma>) key"

definition local_rely :: "(('st, 'x) sys \<times> ctx \<Rightarrow> ('st, 'x) sys \<times> ctx \<Rightarrow> bool) \<Rightarrow> uuid \<Rightarrow> string \<Rightarrow> bool" where
  "local_rely R r key \<longleftrightarrow> (\<forall>\<sigma>. R \<sigma> \<sigma>) \<and> (\<forall>\<sigma> \<sigma>'. R \<sigma> \<sigma>' \<longrightarrow> elsewhere r key \<sigma> \<sigma>')"

abbreviation during ::
  "(('st, 'x) sys \<times> ctx \<Rightarrow> ('st, 'x) sys \<times> ctx \<Rightarrow> bool) \<Rightarrow> (string \<Rightarrow> bool) \<Rightarrow> uuid \<Rightarrow>
   (('st, 'x) sys \<times> ctx \<Rightarrow> bool) \<Rightarrow> ('st, 'x, 'a) ctx_prog \<Rightarrow> ('a \<Rightarrow> ('st, 'x) sys \<times> ctx \<Rightarrow> bool) \<Rightarrow> bool" where
  "during R amo r \<equiv> amid R (ctx_inv amo r)"

lemma elsewhere_refl: "elsewhere r key \<sigma> \<sigma>"
  by (simp add: elsewhere_def)

lemma elsewhere_trans: "elsewhere r key a b \<Longrightarrow> elsewhere r key b c \<Longrightarrow> elsewhere r key a c"
  unfolding elsewhere_def by (elim conjE) (auto simp: ball_Un)

lemma rely_refl: "local_rely R r key \<Longrightarrow> R \<sigma> \<sigma>"
  unfolding local_rely_def by blast

lemma relyD: "local_rely R r key \<Longrightarrow> R \<sigma> \<sigma>' \<Longrightarrow> elsewhere r key \<sigma> \<sigma>'"
  unfolding local_rely_def by blast

lemma rely_alone: "local_rely (=) r key"
  by (simp add: local_rely_def elsewhere_refl)

lemma rely_elsewhere: "local_rely (elsewhere r key) r key"
  by (simp add: local_rely_def elsewhere_refl)

lemma elsewhereE:
  assumes "local_rely R r key" and "R \<sigma> \<sigma>'" and "has_run r (sy_db (fst \<sigma>))"
  shows "phase (log_of r (fst \<sigma>')) key = phase (log_of r (fst \<sigma>)) key \<and>
    licences (log_of r (fst \<sigma>')) key = licences (log_of r (fst \<sigma>)) key \<and>
    fst (build_replay_state (log_of r (fst \<sigma>'))) key = fst (build_replay_state (log_of r (fst \<sigma>))) key \<and>
    snd (build_replay_state (log_of r (fst \<sigma>'))) key = snd (build_replay_state (log_of r (fst \<sigma>))) key"
  using relyD [OF assms(1,2)] assms(3)
  by (auto simp: elsewhere_def foreign_append)

lemma kept_at_key [kept_intros]: "local_rely R r key \<Longrightarrow> kept R (ctx_inv amo r) (at_key amo r key ph l)"
  unfolding kept_def
proof (intro allI impI)
  fix \<sigma> \<sigma>'
  assume R: "local_rely R r key" "R \<sigma> \<sigma>'" and at: "at_key amo r key ph l \<sigma>" and I: "ctx_inv amo r \<sigma>" "ctx_inv amo r \<sigma>'"
  have "elsewhere r key \<sigma> \<sigma>'" using R by (rule relyD)
  then show "at_key amo r key ph l \<sigma>'"
    using elsewhereE [OF R] ctx_inv_has [OF I(1)] at I(2) by (auto simp: at_key_def elsewhere_def)
qed

lemma kept_agrees [kept_intros]:
  "local_rely R r key \<Longrightarrow> kept R (ctx_inv amo r) (\<lambda>\<sigma>. agrees (log_of r (fst \<sigma>)) (snd \<sigma>) key)"
  unfolding kept_def
proof (intro allI impI)
  fix \<sigma> \<sigma>'
  assume R: "local_rely R r key" "R \<sigma> \<sigma>'" and I: "ctx_inv amo r \<sigma>" "agrees (log_of r (fst \<sigma>)) (snd \<sigma>) key"
  have "elsewhere r key \<sigma> \<sigma>'" using R by (rule relyD)
  then show "agrees (log_of r (fst \<sigma>')) (snd \<sigma>') key"
    using elsewhereE [OF R] ctx_inv_has [OF I(1)] I(2) by (auto simp: agrees_def elsewhere_def)
qed

text \<open>What is known of the context about the key.\<close>

lemma kept_ctx [kept_intros]:
  "local_rely R r key \<Longrightarrow> kept R I (\<lambda>\<sigma>. A (cx_completed (snd \<sigma>) key) (cx_unresolved (snd \<sigma>) key) (cx_run_id (snd \<sigma>)))"
  unfolding kept_def by (auto dest!: relyD simp: elsewhere_def)

subsection \<open>The atoms\<close>

lemma during_ctx_db_op:
  assumes "kept R (ctx_inv amo r) P" and "\<And>x. kept R (ctx_inv amo r) (Q x)"
    and "\<And>s c. P (s, c) \<Longrightarrow> ctx_inv amo r (s, c) \<Longrightarrow>
      ctx_inv amo r (s\<lparr>sy_db := fst (f c (sy_now s) (sy_db s))\<rparr>, c) \<and>
      Q (snd (f c (sy_now s) (sy_db s))) (s\<lparr>sy_db := fst (f c (sy_now s) (sy_db s))\<rparr>, c)"
  shows "during R amo r P (ctx_db_op f) Q"
  unfolding ctx_db_op_def using assms by (intro amid_atom) (auto simp: Let_def split_def)

lemma during_ctx_modify:
  assumes "kept R (ctx_inv amo r) P" and "kept R (ctx_inv amo r) (Q ())"
    and "\<And>s c. P (s, c) \<Longrightarrow> ctx_inv amo r (s, c) \<Longrightarrow> ctx_inv amo r (s, f c) \<and> Q () (s, f c)"
  shows "during R amo r P (ctx_modify f) Q"
  unfolding ctx_modify_def modify_def using assms by (intro amid_atom) auto

lemma appended_key:
  assumes at: "at_key amo r key ph l (s, c)" and p: "json_ok p" and a: "amo key \<Longrightarrow> ty \<notin> {STEP_RETRIED, STEP_FAILED}"
    and ph: "\<And>q. q \<in> ph \<Longrightarrow> phase_step q ty \<in> ph'" and v: "Violated \<notin> ph'"
    and l: "l' \<Longrightarrow> l \<or> ty \<in> {STEP_STARTED, STEP_RETRIED}"
  shows "at_key amo r key ph' l'
    (s\<lparr>sy_db := fst (st_append_event S (sy_now s) (cx_run_id c) ty (Some key) p (sy_db s))\<rparr>, c)"
proof -
  have inv: "ctx_inv amo r (s, c)" and iss: "issued c key" and q: "phase (log_of r s) key \<in> ph"
    using at by (auto simp: at_key_def)
  have has: "has_run r (sy_db s)" and rid: "cx_run_id c = r"
    using ctx_inv_has [OF inv] by simp_all
  let ?d = "fst (st_append_event S (sy_now s) r ty (Some key) p (sy_db s))"
  obtain e where e: "ev_type e = ty" "ev_step_key e = Some key"
    and le: "st_load_events S r ?d = st_load_events S r (sy_db s) @ [e]"
    using load_append [OF has p] by blast
  have ps: "phase_step (phase (log_of r s) key) (ev_type e) \<in> ph'" using ph [OF q] e by simp
  have inv': "ctx_inv amo r (s\<lparr>sy_db := ?d\<rparr>, c)"
    by (rule ctx_inv_append [OF inv iss has_append [OF has] le]) (use e ps v a in auto)
  have "key_inv amo (log_of r s) (calls_of s r key) key" using inv by (simp add: ctx_inv_def log_inv_def)
  then show ?thesis
    using at inv' iss ps e le l
    by (auto simp: at_key_def log_of_def licences_def calls_of_def key_inv_def rid)
qed

lemma during_append_key:
  assumes R: "local_rely R r key" and E: "d_store E = S" and p: "json_ok p" and a: "amo key \<Longrightarrow> ty \<notin> {STEP_RETRIED, STEP_FAILED}"
    and ph: "\<And>q. q \<in> ph \<Longrightarrow> phase_step q ty \<in> ph'" and v: "Violated \<notin> ph'"
    and l: "l' \<Longrightarrow> l \<or> ty \<in> {STEP_STARTED, STEP_RETRIED}"
  shows "during R amo r (at_key amo r key ph l) (append E ty (Some key) p) (\<lambda>_. at_key amo r key ph' l')"
  unfolding append_def E
proof (rule during_ctx_db_op)
  fix s :: "('st, 'x) sys" and c
  assume "at_key amo r key ph l (s, c)" "ctx_inv amo r (s, c)"
  then have "at_key amo r key ph' l'
      (s\<lparr>sy_db := fst (st_append_event S (sy_now s) (cx_run_id c) ty (Some key) p (sy_db s))\<rparr>, c)"
    by (intro appended_key) (use p a ph v l in auto)
  then show "ctx_inv amo r (s\<lparr>sy_db := fst (st_append_event S (sy_now s) (cx_run_id c) ty (Some key) p (sy_db s))\<rparr>, c) \<and>
      at_key amo r key ph' l' (s\<lparr>sy_db := fst (st_append_event S (sy_now s) (cx_run_id c) ty (Some key) p (sy_db s))\<rparr>, c)"
    by (blast dest: at_key_ctx)
qed (auto intro!: kept_intros R)

text \<open>A statement that adds at most keyless events.\<close>

lemma during_keyless:
  assumes R: "local_rely R r key"
    and f: "\<And>t c d. cx_run_id c = r \<Longrightarrow> has_run r d \<Longrightarrow>
      has_run r (fst (f c t d)) \<and> keyless_growth S r d (fst (f c t d))"
  shows "during R amo r (at_key amo r key ph l) (ctx_db_op f) (\<lambda>_. at_key amo r key ph l)"
proof (rule during_ctx_db_op)
  fix s :: "('st, 'x) sys" and c
  assume at: "at_key amo r key ph l (s, c)" and "ctx_inv amo r (s, c)"
  have "at_key amo r key ph l (s\<lparr>sy_db := fst (f c (sy_now s) (sy_db s))\<rparr>, c)"
    using at f [of c "sy_db s" "sy_now s"] ctx_inv_has [OF at_key_ctx [OF at]]
    by (intro at_key_keyless) auto
  then show "ctx_inv amo r (s\<lparr>sy_db := fst (f c (sy_now s) (sy_db s))\<rparr>, c) \<and>
      at_key amo r key ph l (s\<lparr>sy_db := fst (f c (sy_now s) (sy_db s))\<rparr>, c)"
    by (blast dest: at_key_ctx)
qed (auto intro!: kept_intros R)

lemma during_persist:
  "local_rely R r key \<Longrightarrow> d_store E = S \<Longrightarrow>
   during R amo r (at_key amo r key ph l) (persist_usage E) (\<lambda>_. at_key amo r key ph l)"
  unfolding persist_usage_def
  by (rule during_keyless) (simp_all add: has_save_usage load_save_usage)

lemma during_quiet:
  "local_rely R r key \<Longrightarrow> guar quiet p \<Longrightarrow>
   during R amo r (at_key amo r key ph l) p (\<lambda>_. at_key amo r key ph l)"
  by (rule amid_guar, assumption) (auto intro!: kept_intros dest: at_key_quiet at_key_ctx)

lemma during_log_call:
  assumes R: "local_rely R r key"
  shows "during R amo r (at_key amo r key ph True) (log_call key) (\<lambda>_. at_key amo r key ph False)"
  unfolding log_call_def modify_def
proof (rule amid_atom)
  fix \<sigma> :: "('st, 'x) sys \<times> ctx"
  assume at: "at_key amo r key ph True \<sigma>"
  obtain s c where \<sigma>: "\<sigma> = (s, c)" by (cases \<sigma>)
  let ?s = "s\<lparr>sy_calls := sy_calls s @ [(r, key)]\<rparr>"
  have calls: "calls_of ?s r k = calls_of s r k + (if k = key then 1 else 0)" for k
    by (simp add: calls_of_def)
  have "key_inv amo (log_of r s) (calls_of ?s r k) k" for k
  proof -
    have "key_inv amo (log_of r s) (calls_of s r k) k"
      using at by (simp add: at_key_def ctx_inv_def log_inv_def \<sigma>)
    then show ?thesis using at by (auto simp: calls at_key_def key_inv_def \<sigma>)
  qed
  then have "at_key amo r key ph False (?s, c)"
    using at by (simp add: at_key_def ctx_inv_def log_inv_def log_of_def \<sigma>)
  moreover have "cx_run_id c = r" using ctx_inv_has [OF at_key_ctx [OF at]] by (simp add: \<sigma>)
  ultimately show "ctx_inv amo r (fst (case \<sigma> of (s, c) \<Rightarrow> (s\<lparr>sy_calls := sy_calls s @ [(cx_run_id c, key)]\<rparr>, c), ())) \<and>
      at_key amo r key ph False (fst (case \<sigma> of (s, c) \<Rightarrow> (s\<lparr>sy_calls := sy_calls s @ [(cx_run_id c, key)]\<rparr>, c), ()))"
    by (simp add: \<sigma> at_key_ctx)
qed (auto intro!: kept_intros R)

lemma modified_key:
  assumes at: "at_key amo r key ph l (s, c)" and "\<And>c. issued (f c) = issued c" and "\<And>c. cx_run_id (f c) = cx_run_id c"
    and "\<And>l c k. k \<noteq> key \<Longrightarrow> agrees l (f c) k = agrees l c k"
  shows "at_key amo r key ph l (s, f c)"
proof -
  have "k \<noteq> key" if "\<not> issued c k" for k using that at by (auto simp: at_key_def)
  with at show ?thesis by (auto simp: at_key_def ctx_inv_def assms(2-4))
qed

lemma during_ctx_modify_key:
  assumes R: "local_rely R r key" and f: "\<And>c. issued (f c) = issued c" "\<And>c. cx_run_id (f c) = cx_run_id c"
    "\<And>l c k. k \<noteq> key \<Longrightarrow> agrees l (f c) k = agrees l c k"
  shows "during R amo r (at_key amo r key ph l) (ctx_modify f) (\<lambda>_. at_key amo r key ph l)"
proof (rule during_ctx_modify)
  fix s :: "('st, 'x) sys" and c
  assume "at_key amo r key ph l (s, c)"
  then have "at_key amo r key ph l (s, f c)" by (rule modified_key) (rule f, assumption?)+
  then show "ctx_inv amo r (s, f c) \<and> at_key amo r key ph l (s, f c)" by (blast dest: at_key_ctx)
qed (intro kept_intros R)+

lemma during_gets_key:
  "local_rely R r key \<Longrightarrow> during R amo r (at_key amo r key ph l) (gets f) (\<lambda>_. at_key amo r key ph l)"
  unfolding gets_def by (rule amid_atom) (auto intro!: kept_intros)

lemma during_Ret_key:
  "local_rely R r key \<Longrightarrow> ph \<subseteq> ph' \<Longrightarrow> (l' \<Longrightarrow> l) \<Longrightarrow>
   during R amo r (at_key amo r key ph l) (Ret x) (\<lambda>_. at_key amo r key ph' l')"
  by (rule amid_Ret) (auto intro!: kept_intros intro: at_key_mono)

lemma during_raise_key:
  "local_rely R r key \<Longrightarrow> ph \<subseteq> ph' \<Longrightarrow> (l' \<Longrightarrow> l) \<Longrightarrow>
   during R amo r (at_key amo r key ph l) (raise e) (\<lambda>_. at_key amo r key ph' l')"
  unfolding raise_def by (rule during_Ret_key)

lemma during_bind:
  assumes "local_rely R r key" and "during R amo r P p M" and "\<And>x. during R amo r (M x) (k x) Q"
  shows "during R amo r P (bind p k) Q"
  using rely_refl [OF assms(1)] assms(2,3) by (rule amid_bind)

lemma during_ebind:
  assumes "local_rely R r key" and "during R amo r P p M" and "\<And>a. during R amo r (M (Inr a)) (k a) Q"
    and "\<And>e s. M (Inl e) s \<Longrightarrow> Q (Inl e) s"
  shows "during R amo r P (ebind p k) Q"
  using rely_refl [OF assms(1)] assms(2-4) by (rule amid_ebind)

text \<open>Undisturbed, they are triples.\<close>

lemma during_triple:
  assumes "during (=) amo r P p Q" and "\<And>\<sigma>. P \<sigma> \<Longrightarrow> ctx_inv amo r \<sigma>"
  shows "triple (INV amo r) P p Q"
  using assms unfolding amid_alone
  by (intro triple_inv [OF triple_pre [OF assms(1) [unfolded amid_alone]]]) (auto dest: ctx_inv_log)

lemma during_triple_key:
  "during (=) amo r (at_key amo r key ph l) p Q \<Longrightarrow> triple (INV amo r) (at_key amo r key ph l) p Q"
  by (erule during_triple) (rule at_key_ctx)

lemmas triple_persist = during_triple_key [OF during_persist [OF rely_alone]]
lemmas triple_ctx_modify_key = during_triple_key [OF during_ctx_modify_key [OF rely_alone]]
lemmas triple_Ret_key = during_triple_key [OF during_Ret_key [OF rely_alone]]

text \<open>Sequencing with the same assertion about the key after a normal return and after a raise.\<close>

lemma triple_seq:
  assumes "triple (INV amo r) P p (\<lambda>_. at_key amo r key ph l)"
    and "\<And>a. triple (INV amo r) (at_key amo r key ph l) (k a) (\<lambda>_. at_key amo r key UNIV False)"
  shows "triple (INV amo r) P (ebind p k) (\<lambda>_. at_key amo r key UNIV False)"
  by (rule triple_ebind [OF assms(1)]) (auto intro: assms(2) at_key_any)

end

end
