(* ===== verification/Step_Inv.thy ===== *)
theory Step_Inv
  imports Context_Inv
begin

text \<open>
  The invariant of the theory \<open>Context_Inv\<close> through a whole step, the public operations and any
  workflow, by the triples of the atoms.
\<close>

section \<open>Hypotheses about code outside the runtime\<close>

text \<open>A function that, called with these arguments, never raises an exception the retry loop handles.\<close>

definition never_fails :: "'x pyfn \<Rightarrow> pydict \<Rightarrow> bool" where
  "never_fails fn args \<longleftrightarrow>
     (\<forall>rid token tx. case snd (run (invoke fn rid token args) tx) of
        Inl e \<Rightarrow> passes_retry e | Inr _ \<Rightarrow> True)"

text \<open>
  The workflow uses the step names in \<open>N\<close> only for at-most-once steps whose body never fails.
\<close>

primrec amo_safe :: "('st, 'x) deps \<Rightarrow> string set \<Rightarrow> 'x wf \<Rightarrow> bool" where
  "amo_safe E N (WReturn v) = True"
| "amo_safe E N (WRaise e) = True"
| "amo_safe E N (WStep name fn idem verify max_attempts kwargs k) =
     ((name \<in> N \<longrightarrow> idem = AT_MOST_ONCE \<and> never_fails fn kwargs) \<and> All (amo_safe E N \<circ> k))"
| "amo_safe E N (WTool name args k) =
     ((\<forall>spec. lookup_tool (d_registry E) name = Inr spec \<and> ''tool:'' @ ts_name spec \<in> N \<longrightarrow>
         ts_idempotency spec = AT_MOST_ONCE \<and> never_fails (ts_fn spec) args) \<and>
      All (amo_safe E N \<circ> k))"
| "amo_safe E N (WModel name req k) = (name \<notin> N \<and> All (amo_safe E N \<circ> k))"
| "amo_safe E N (WCounters k) = All (amo_safe E N \<circ> k)"

definition keys_of :: "string set \<Rightarrow> string \<Rightarrow> bool" where
  "keys_of N key \<longleftrightarrow> (\<exists>nm n. nm \<in> N \<and> key = step_key nm n)"

lemma keys_of_step_key [simp]: "keys_of N (step_key nm n) \<longleftrightarrow> nm \<in> N"
  by (auto simp: keys_of_def step_key_inj)

lemma amo_safe_empty: "amo_safe E {} w"
  by (induction w) simp_all

definition steady :: "('st, 'x) body \<Rightarrow> bool" where
  "steady body \<longleftrightarrow>
     (\<forall>token \<sigma>. case snd (run (body token) \<sigma>) of Inl e \<Rightarrow> passes_retry e | Inr _ \<Rightarrow> True)"

text \<open>Every value the body returns satisfies \<open>val\<close>.\<close>

definition yields :: "(pyval \<Rightarrow> bool) \<Rightarrow> ('s, pyval py_result) prog \<Rightarrow> bool" where
  "yields val p \<longleftrightarrow> (\<forall>s. case snd (run p s) of Inl e \<Rightarrow> True | Inr v \<Rightarrow> val v)"

lemma yields_True: "yields (\<lambda>_. True) p"
  by (simp add: yields_def split: sum.splits)

lemma run_outside:
  "run (outside p) (s, c) =
     (case run p (sy_now s, sy_ext s) of (tx, r) \<Rightarrow> ((s\<lparr>sy_now := fst tx, sy_ext := snd tx\<rparr>, c), r))"
  unfolding outside_def by (subst run_lift) (auto simp: split_def)

lemma steady_call_fn: "never_fails fn args \<Longrightarrow> steady (call_fn fn args)"
  by (auto simp: steady_def call_fn_def ctx_gets_def run_outside never_fails_def split_def)

lemma steady_tool_body: "never_fails (ts_fn spec) args \<Longrightarrow> steady (tool_body spec args)"
  using steady_call_fn [of "ts_fn spec" args]
  by (auto simp: steady_def tool_body_def simp del: split_paired_All)

section \<open>One step\<close>

text \<open>The lease guard adds at most keyless events.\<close>

definition guard_keeps :: "('st store \<Rightarrow> uuid \<Rightarrow> 'st \<Rightarrow> 'st \<Rightarrow> bool) \<Rightarrow> (uuid \<Rightarrow> 'st \<Rightarrow> bool) \<Rightarrow> ('st, 'x) deps \<Rightarrow> bool" where
  "guard_keeps grows has_run E \<longleftrightarrow>
     (case d_lease_guard E of
        None \<Rightarrow> True
      | Some guard \<Rightarrow> \<forall>t r d. has_run r d \<longrightarrow>
          has_run r (fst (guard t d)) \<and> grows (d_store E) r d (fst (guard t d)))"

lemma json_ok_dict2 [simp]:
  "json_ok (PDict [(KStr a, x)]) = json_ok x"
  "json_ok (PDict [(KStr a, x), (KStr b, y)]) = (json_ok x \<and> json_ok y)"
  "json_ok (PDict [(KStr a, x), (KStr b, y), (KStr c, z)]) = (json_ok x \<and> json_ok y \<and> json_ok z)"
  by simp_all

lemma json_ok_retry [simp]: "json_ok (retry_payload fs a e)" "json_ok (failed_payload fs a e)"
  by (simp_all add: retry_payload_def failed_payload_def)

lemma ensure_json_ok: "ensure_json v key = Inr res \<Longrightarrow> res = v \<and> json_ok v"
  by (auto simp: ensure_json_def split: if_splits)

text \<open>
  What is asked of a step's body: it is quiet, and its result, whoever disturbs it, satisfies \<open>val\<close> when it is
  a value and, for the keys in \<open>amo\<close>, is no exception that the retry loop handles.
\<close>

definition body_result :: "(pyval \<Rightarrow> bool) \<Rightarrow> bool \<Rightarrow> pyval py_result \<Rightarrow> bool" where
  "body_result val sure x \<longleftrightarrow> (case x of Inl e \<Rightarrow> sure \<longrightarrow> passes_retry e | Inr v \<Rightarrow> val v)"

definition fit_body :: "(('st, 'x) sys \<times> ctx \<Rightarrow> ('st, 'x) sys \<times> ctx \<Rightarrow> bool) \<Rightarrow> (pyval \<Rightarrow> bool) \<Rightarrow> bool \<Rightarrow>
    ('st, 'x, pyval py_result) ctx_prog \<Rightarrow> bool" where
  "fit_body R val sure p \<longleftrightarrow> guar quiet p \<and> amid R (\<lambda>_. True) (\<lambda>_. True) p (\<lambda>x _. body_result val sure x)"

lemma fit_body_alone:
  assumes "guar quiet (body tok)" and "yields val (body tok)" and "sure \<Longrightarrow> steady body"
  shows "fit_body (=) val sure (body tok)"
  using assms unfolding fit_body_def amid_alone triple_def steady_def yields_def body_result_def
  by (auto split: sum.splits intro!: guar_always)

lemma fit_body_results:
  assumes "guar quiet p" and "all_results (body_result val sure) p"
  shows "fit_body R val sure p"
  using assms amid_results [OF _ assms(2), of R "\<lambda>_. True" "\<lambda>_. True" "\<lambda>_ _. True"]
  by (auto simp: fit_body_def amid_def mid_True)

definition fit_verifier :: "(('st, 'x) sys \<times> ctx \<Rightarrow> ('st, 'x) sys \<times> ctx \<Rightarrow> bool) \<Rightarrow> (pyval \<Rightarrow> bool) \<Rightarrow> uuid \<Rightarrow>
    ('st, 'x) body option \<Rightarrow> bool" where
  "fit_verifier R val token verify \<longleftrightarrow>
     (\<forall>vb. verify = Some vb \<longrightarrow> fit_body R (\<lambda>v. v = PNone \<or> val v) False (vb token))"

context log_store
begin

definition good_deps :: "('st, 'x) deps \<Rightarrow> bool" where
  "good_deps E \<longleftrightarrow> d_store E = S \<and> guard_keeps keyless_growth has_run E"

text \<open>
  The log records \<open>v\<close> for the key; what a step returned is what the log records, or the log
  records what JSON makes of it and the value came from the step's body or verifier.
\<close>

definition recorded_as :: "uuid \<Rightarrow> string \<Rightarrow> pyval \<Rightarrow> ('st, 'x) sys \<times> ctx \<Rightarrow> bool" where
  "recorded_as r key v \<sigma> \<longleftrightarrow> fst (build_replay_state (log_of r (fst \<sigma>))) key = Some v"

definition known :: "(pyval \<Rightarrow> bool) \<Rightarrow> uuid \<Rightarrow> string \<Rightarrow> pyval \<Rightarrow> ('st, 'x) sys \<times> ctx \<Rightarrow> bool" where
  "known val r key v \<sigma> \<longleftrightarrow> recorded_as r key v \<sigma> \<or> val v \<and> recorded_as r key (json_norm v) \<sigma>"

definition steps_to :: "(pyval \<Rightarrow> bool) \<Rightarrow> (string \<Rightarrow> bool) \<Rightarrow> uuid \<Rightarrow> string \<Rightarrow>
    (pyval \<times> bool) py_result \<Rightarrow> ('st, 'x) sys \<times> ctx \<Rightarrow> bool" where
  "steps_to val amo r key x \<sigma> \<longleftrightarrow>
     at_key amo r key UNIV False \<sigma> \<and> (\<forall>v ex. x = Inr (v, ex) \<longrightarrow> known val r key v \<sigma>)"

lemma steps_to_at: "steps_to val amo r key x \<sigma> \<Longrightarrow> at_key amo r key UNIV False \<sigma>"
  by (simp add: steps_to_def)

lemma steps_to_Inl: "at_key amo r key ph l \<sigma> \<Longrightarrow> steps_to val amo r key (Inl e) \<sigma>"
  by (auto simp: steps_to_def dest: at_key_any)

lemma kept_recorded [kept_intros]: "local_rely R r key \<Longrightarrow> kept R (ctx_inv amo r) (recorded_as r key v)"
  unfolding kept_def recorded_as_def
proof (intro allI impI)
  fix \<sigma> \<sigma>'
  assume R: "local_rely R r key" "R \<sigma> \<sigma>'" and inv: "ctx_inv amo r \<sigma>"
    and v: "fst (build_replay_state (log_of r (fst \<sigma>))) key = Some v"
  have "fst (build_replay_state (log_of r (fst \<sigma>'))) key = fst (build_replay_state (log_of r (fst \<sigma>))) key"
    using elsewhereE [OF R conjunct1 [OF ctx_inv_has [OF inv]]] by blast
  then show "fst (build_replay_state (log_of r (fst \<sigma>'))) key = Some v" using v by (rule trans)
qed

lemma kept_known [kept_intros]: "local_rely R r key \<Longrightarrow> kept R (ctx_inv amo r) (known val r key v)"
  unfolding known_def by (intro kept_intros)

lemma kept_steps_to [kept_intros]: "local_rely R r key \<Longrightarrow> kept R (ctx_inv amo r) (steps_to val amo r key x)"
  unfolding steps_to_def by (intro kept_intros)

lemma during_raise_step:
  "local_rely R r key \<Longrightarrow> during R amo r (at_key amo r key ph l) (raise e) (steps_to val amo r key)"
  unfolding raise_def by (rule amid_Ret) (auto intro!: kept_intros intro: steps_to_Inl)

lemma during_append_completed:
  assumes R: "local_rely R r key" and E: "d_store E = S"
    and p: "json_ok (PDict [(KStr ''result'', v), (KStr other, w)])" and o: "other \<noteq> ''result''"
  shows "during R amo r (at_key amo r key {In_flight} False)
           (append E STEP_COMPLETED (Some key) (PDict [(KStr ''result'', v), (KStr other, w)]))
           (\<lambda>_ \<sigma>. at_key amo r key {Recorded} False \<sigma> \<and> recorded_as r key (json_norm v) \<sigma>)"
  unfolding append_def E
proof (rule during_ctx_db_op)
  fix s :: "('st, 'a) sys" and c
  let ?p = "PDict [(KStr ''result'', v), (KStr other, w)]"
  let ?s = "s\<lparr>sy_db := fst (st_append_event S (sy_now s) (cx_run_id c) STEP_COMPLETED (Some key) ?p (sy_db s))\<rparr>"
  assume at: "at_key amo r key {In_flight} False (s, c)" and inv: "ctx_inv amo r (s, c)"
  have at': "at_key amo r key {Recorded} False (?s, c)"
    by (rule appended_key [OF at p]) (auto simp: phase_step_def)
  have has: "has_run r (sy_db s)" and rid: "cx_run_id c = r" using ctx_inv_has [OF inv] by simp_all
  obtain e where e: "ev_type e = STEP_COMPLETED" "ev_step_key e = Some key" "ev_payload e = json_norm ?p"
    and le: "st_load_events S r (fst (st_append_event S (sy_now s) r STEP_COMPLETED (Some key) ?p (sy_db s)))
       = st_load_events S r (sy_db s) @ [e]"
    using load_append [OF has p] by blast
  have "py_get (json_norm ?p) ''result'' PNone = json_norm v" using o by (simp add: dict_update_def)
  then have "recorded_as r key (json_norm v) (?s, c)"
    using e le by (simp add: recorded_as_def log_of_def rid replay_event_def)
  with at' show "ctx_inv amo r (?s, c) \<and> at_key amo r key {Recorded} False (?s, c) \<and> recorded_as r key (json_norm v) (?s, c)"
    by (blast dest: at_key_ctx)
qed (intro kept_intros R)+

text \<open>What the log records survives an update of the context and a keyless statement.\<close>

lemma during_modify_recorded:
  assumes R: "local_rely R r key" and f: "\<And>c. issued (f c) = issued c" "\<And>c. cx_run_id (f c) = cx_run_id c"
    "\<And>l c k. k \<noteq> key \<Longrightarrow> agrees l (f c) k = agrees l c k"
  shows "during R amo r (\<lambda>\<sigma>. at_key amo r key ph l \<sigma> \<and> recorded_as r key v \<sigma>) (ctx_modify f)
           (\<lambda>_ \<sigma>. at_key amo r key ph l \<sigma> \<and> recorded_as r key v \<sigma>)"
proof (rule during_ctx_modify)
  fix s :: "('st, 'x) sys" and c
  assume h: "at_key amo r key ph l (s, c) \<and> recorded_as r key v (s, c)" and "ctx_inv amo r (s, c)"
  from conjunct1 [OF h] have "at_key amo r key ph l (s, f c)" by (rule modified_key) (rule f, assumption?)+
  then show "ctx_inv amo r (s, f c) \<and> at_key amo r key ph l (s, f c) \<and> recorded_as r key v (s, f c)"
    using h by (auto simp: recorded_as_def dest: at_key_ctx)
qed (intro kept_intros R)+

lemma during_persist_recorded:
  assumes R: "local_rely R r key" and E: "d_store E = S"
  shows "during R amo r (\<lambda>\<sigma>. at_key amo r key ph l \<sigma> \<and> recorded_as r key v \<sigma>) (persist_usage E)
           (\<lambda>_ \<sigma>. at_key amo r key ph l \<sigma> \<and> recorded_as r key v \<sigma>)"
  unfolding persist_usage_def E
proof (rule during_ctx_db_op)
  fix s :: "('st, 'a) sys" and c
  let ?d = "st_save_usage S (sy_now s) (cx_run_id c) (bt_usage (cx_budget c)) (sy_db s)"
  assume h: "at_key amo r key ph l (s, c) \<and> recorded_as r key v (s, c)" and inv: "ctx_inv amo r (s, c)"
  have has: "has_run r (sy_db s)" using ctx_inv_has [OF inv] by simp
  have grow: "keyless_growth S r (sy_db s) ?d" by (rule load_save_usage [OF has])
  then obtain es where "st_load_events S r ?d = st_load_events S r (sy_db s) @ es" "\<And>e. e \<in> set es \<Longrightarrow> ev_step_key e = None"
    by (rule keyless_growthE) blast
  then have "recorded_as r key v (s\<lparr>sy_db := ?d\<rparr>, c)" using h by (simp add: recorded_as_def log_of_def replay_keyless)
  moreover have "at_key amo r key ph l (s\<lparr>sy_db := ?d\<rparr>, c)"
    using h by (intro at_key_keyless [OF _ has_save_usage [OF has] grow]) simp
  ultimately show "ctx_inv amo r (s\<lparr>sy_db := fst (?d, ())\<rparr>, c) \<and>
      at_key amo r key ph l (s\<lparr>sy_db := fst (?d, ())\<rparr>, c) \<and> recorded_as r key v (s\<lparr>sy_db := fst (?d, ())\<rparr>, c)"
    by (auto dest: at_key_ctx)
qed (intro kept_intros R)+

text \<open>Recording a value that \<open>ensure_json\<close> accepted, then going on.\<close>

lemma during_ensure_json:
  assumes R: "local_rely R r key"
    and k: "json_ok v \<Longrightarrow> during R amo r (at_key amo r key ph l) (k v) Q"
    and Q: "\<And>e \<sigma>. at_key amo r key ph l \<sigma> \<Longrightarrow> Q (Inl e) \<sigma>"
  shows "during R amo r (at_key amo r key ph l) (ebind (Ret (ensure_json v key)) k) Q"
proof (cases "ensure_json v key")
  case (Inl e)
  then show ?thesis by (simp add: ebind_def) (rule amid_Ret, intro kept_intros R, rule Q)
next
  case (Inr res)
  then have "res = v \<and> json_ok v" by (rule ensure_json_ok)
  then show ?thesis using Inr k by (simp add: ebind_def)
qed

lemma during_finish_step:
  assumes R: "local_rely R r key" and E: "d_store E = S" and val: "val result"
  shows "during R amo r (at_key amo r key {In_flight} False) (finish_step E key attempt result)
           (steps_to val amo r key)"
  unfolding finish_step_def
proof (rule during_ensure_json [OF R])
  assume "json_ok result"
  then have p: "json_ok (PDict [(KStr ''result'', result), (KStr ''attempt'', PInt attempt)])" by simp
  show "during R amo r (at_key amo r key {In_flight} False)
      (ebind (append E STEP_COMPLETED (Some key) (PDict [(KStr ''result'', result), (KStr ''attempt'', PInt attempt)]))
        (\<lambda>_. bind (ctx_modify (\<lambda>c. (complete_step key result c)\<lparr>cx_executed_steps := cx_executed_steps c + 1\<rparr>))
        (\<lambda>_. bind (persist_usage E) (\<lambda>_. Ret (Inr (result, True))))))
      (steps_to val amo r key)"
    by (rule during_ebind [OF R during_append_completed [OF R E p]], simp,
        rule during_bind [OF R during_modify_recorded [OF R]], simp_all add: agrees_complete,
        rule during_bind [OF R during_persist_recorded [OF R E]], rule amid_Ret)
      (auto simp: known_def val steps_to_def intro!: kept_intros R dest: at_key_any intro: steps_to_Inl)
qed (rule steps_to_Inl)

lemma during_sleep:
  "local_rely R r key \<Longrightarrow> during R amo r (at_key amo r key ph l) (sleep dt) (\<lambda>_. at_key amo r key ph l)"
  by (rule during_quiet)
    (auto simp: sleep_def quiet_def budget_same intro!: guar_modifyI)

lemma during_body:
  assumes R: "local_rely R r key" and b: "fit_body R val sure p"
  shows "during R amo r (at_key amo r key ph l) p (\<lambda>x \<sigma>. at_key amo r key ph l \<sigma> \<and> body_result val sure x)"
  using b during_quiet [OF R, of p amo ph l] by (auto simp: fit_body_def intro: amid_both)

lemma during_attempt_loop:
  assumes R: "local_rely R r key" and E: "d_store E = S" and b: "fit_body R val (amo key) p"
  shows "during R amo r (at_key amo r key {In_flight} True)
           (attempt_loop E key p attempts left) (steps_to val amo r key)"
proof (induction left)
  case 0
  show ?case unfolding attempt_loop.simps by (rule during_raise_step [OF R])
next
  case (Suc left)
  show ?case
    unfolding attempt_loop.simps
  proof (rule during_bind [OF R during_log_call [OF R]], rule during_bind [OF R during_body [OF R b]])
    fix x :: "pyval py_result"
    let ?p = "case x of
        Inl e \<Rightarrow>
          if passes_retry e then raise e
          else if 0 < left then
            ebind (append E STEP_RETRIED (Some key) (retry_payload (d_float_str E) (attempts - int left) e))
              (\<lambda>_. bind (sleep (se_step_backoff_base (d_settings E) * 2 ^ nat (attempts - int left - 1)))
                (\<lambda>_. attempt_loop E key p attempts left))
          else
            ebind (append E STEP_FAILED (Some key) (failed_payload (d_float_str E) (attempts - int left) e))
              (\<lambda>_. raise (StepFailedError key (attempts - int left) e))
      | Inr result \<Rightarrow> finish_step E key (attempts - int left) result"
    have "during R amo r (at_key amo r key {In_flight} False) ?p (steps_to val amo r key)"
      if x: "body_result val (amo key) x"
    proof (cases x)
      case (Inr v)
      then show ?thesis using during_finish_step [OF R E] x by (simp add: body_result_def)
    next
      case (Inl e)
      have retry: "during R amo r (at_key amo r key {In_flight} False)
          (append E STEP_RETRIED (Some key) (retry_payload (d_float_str E) (attempts - int left) e))
          (\<lambda>_. at_key amo r key {In_flight} True)" if "\<not> passes_retry e"
        by (rule during_append_key [OF R E])
          (use that Inl x in \<open>auto simp: phase_step_def body_result_def\<close>)
      have fail: "during R amo r (at_key amo r key {In_flight} False)
          (append E STEP_FAILED (Some key) (failed_payload (d_float_str E) a e))
          (\<lambda>_. at_key amo r key {Gave_up} False)" if "\<not> passes_retry e" for a
        by (rule during_append_key [OF R E])
          (use that Inl x in \<open>auto simp: phase_step_def body_result_def\<close>)
      show ?thesis
        using Inl by (auto intro!: during_raise_step [OF R] during_ebind [OF R retry] during_ebind [OF R fail]
            during_bind [OF R during_sleep [OF R]] Suc.IH intro: steps_to_Inl)
    qed
    then show "during R amo r (\<lambda>\<sigma>. at_key amo r key {In_flight} False \<sigma> \<and> body_result val (amo key) x) ?p
        (steps_to val amo r key)"
      by (auto simp: amid_def)
  qed
qed

subsection \<open>The crash window and the guards\<close>

text \<open>A returned outcome is recorded; the sentinel comes with a licence to enter the body.\<close>

definition resolves_to :: "(pyval \<Rightarrow> bool) \<Rightarrow> (string \<Rightarrow> bool) \<Rightarrow> uuid \<Rightarrow> string \<Rightarrow>
    pyval option py_result \<Rightarrow> ('st, 'x) sys \<times> ctx \<Rightarrow> bool" where
  "resolves_to val amo r key x \<sigma> \<longleftrightarrow>
     at_key amo r key UNIV False \<sigma> \<and> (x = Inr None \<longrightarrow> at_key amo r key {In_flight} True \<sigma>) \<and>
     (\<forall>v. x = Inr (Some v) \<longrightarrow> known val r key v \<sigma>)"

lemma resolves_to_Inl: "at_key amo r key ph l \<sigma> \<Longrightarrow> resolves_to val amo r key (Inl e) \<sigma>"
  by (auto simp: resolves_to_def dest: at_key_any)

lemma resolves_to_None: "at_key amo r key {In_flight} True \<sigma> \<Longrightarrow> resolves_to val amo r key (Inr None) \<sigma>"
  by (auto simp: resolves_to_def dest: at_key_any)

lemma kept_resolves [kept_intros]: "local_rely R r key \<Longrightarrow> kept R (ctx_inv amo r) (resolves_to val amo r key x)"
  unfolding resolves_to_def by (intro kept_intros)

lemma during_recover:
  assumes R: "local_rely R r key" and E: "d_store E = S" and val: "val outcome"
  shows "during R amo r (at_key amo r key {In_flight} False)
      (ebind (Ret (ensure_json outcome key)) (\<lambda>res.
       ebind (append E STEP_COMPLETED (Some key)
                (PDict [(KStr ''result'', res), (KStr ''recovered_by'', PStr ''verify'')])) (\<lambda>_.
       bind (ctx_modify (complete_step key outcome)) (\<lambda>_.
       Ret (Inr (Some outcome)))))) (resolves_to val amo r key)"
proof (rule during_ensure_json [OF R])
  assume "json_ok outcome"
  then have p: "json_ok (PDict [(KStr ''result'', outcome), (KStr ''recovered_by'', PStr ''verify'')])" by simp
  show "during R amo r (at_key amo r key {In_flight} False)
      (ebind (append E STEP_COMPLETED (Some key)
                (PDict [(KStr ''result'', outcome), (KStr ''recovered_by'', PStr ''verify'')])) (\<lambda>_.
       bind (ctx_modify (complete_step key outcome)) (\<lambda>_. Ret (Inr (Some outcome)))))
      (resolves_to val amo r key)"
    by (rule during_ebind [OF R during_append_completed [OF R E p]], simp,
        rule during_bind [OF R during_modify_recorded [OF R]], simp_all add: agrees_complete, rule amid_Ret)
      (auto simp: known_def val resolves_to_def intro!: kept_intros R dest: at_key_any intro: resolves_to_Inl)
qed (rule resolves_to_Inl)

lemma during_resolve:
  assumes R: "local_rely R r key" and E: "d_store E = S" and a: "amo key \<Longrightarrow> idem = AT_MOST_ONCE"
    and v: "fit_verifier R val token verify"
  shows "during R amo r (at_key amo r key {In_flight} False)
           (resolve_crash_window E key token idem verify) (resolves_to val amo r key)"
  unfolding resolve_crash_window_def
proof (rule during_ebind [OF R, where M = "\<lambda>x \<sigma>. at_key amo r key {In_flight} False \<sigma> \<and> body_result (\<lambda>v. v = PNone \<or> val v) False x"])
  show "during R amo r (at_key amo r key {In_flight} False)
      (case verify of None \<Rightarrow> Ret (Inr PNone) | Some v \<Rightarrow> v token)
      (\<lambda>x \<sigma>. at_key amo r key {In_flight} False \<sigma> \<and> body_result (\<lambda>v. v = PNone \<or> val v) False x)"
  proof (cases verify)
    case None
    show ?thesis
      unfolding None option.case by (rule amid_Ret) (auto intro!: kept_intros R simp: body_result_def)
  next
    case (Some body)
    show ?thesis
      unfolding Some option.case by (rule during_body [OF R]) (use v Some in \<open>simp add: fit_verifier_def\<close>)
  qed
next
  fix outcome
  have retry: "during R amo r (at_key amo r key {In_flight} False)
      (append E STEP_RETRIED (Some key) (PDict [(KStr ''reason'', PStr ''crash_window''),
                        (KStr ''token'', PStr (uuid_str token))]))
      (\<lambda>_. at_key amo r key {In_flight} True)" if "idem = AT_LEAST_ONCE"
    by (rule during_append_key [OF R E]) (use that a in \<open>auto simp: phase_step_def\<close>)
  have "during R amo r (at_key amo r key {In_flight} False)
      (if outcome \<noteq> PNone then ebind (Ret (ensure_json outcome key)) (\<lambda>res.
       ebind (append E STEP_COMPLETED (Some key)
                (PDict [(KStr ''result'', res), (KStr ''recovered_by'', PStr ''verify'')])) (\<lambda>_.
       bind (ctx_modify (complete_step key outcome)) (\<lambda>_.
       Ret (Inr (Some outcome)))))
       else if idem = AT_LEAST_ONCE then
         ebind (append E STEP_RETRIED (Some key) (PDict [(KStr ''reason'', PStr ''crash_window''),
                        (KStr ''token'', PStr (uuid_str token))])) (\<lambda>_. Ret (Inr None))
       else raise (AmbiguousStepError key (uuid_str token)))
      (resolves_to val amo r key)" if "outcome \<noteq> PNone \<longrightarrow> val outcome"
    using during_recover [OF R E, of val outcome] that
    by (auto intro!: during_ebind [OF R retry] amid_Ret kept_intros R simp: raise_def
        intro: resolves_to_Inl resolves_to_None)
  then show "during R amo r (\<lambda>\<sigma>. at_key amo r key {In_flight} False \<sigma> \<and> body_result (\<lambda>v. v = PNone \<or> val v) False (Inr outcome))
      (if outcome \<noteq> PNone then ebind (Ret (ensure_json outcome key)) (\<lambda>res.
       ebind (append E STEP_COMPLETED (Some key)
                (PDict [(KStr ''result'', res), (KStr ''recovered_by'', PStr ''verify'')])) (\<lambda>_.
       bind (ctx_modify (complete_step key outcome)) (\<lambda>_.
       Ret (Inr (Some outcome)))))
       else if idem = AT_LEAST_ONCE then
         ebind (append E STEP_RETRIED (Some key) (PDict [(KStr ''reason'', PStr ''crash_window''),
                        (KStr ''token'', PStr (uuid_str token))])) (\<lambda>_. Ret (Inr None))
       else raise (AmbiguousStepError key (uuid_str token)))
      (resolves_to val amo r key)"
    by (auto simp: amid_def body_result_def)
qed (auto intro: resolves_to_Inl)

text \<open>The guards leave the log as it is, but for keyless events, and the context.\<close>

lemma during_guards:
  assumes R: "local_rely R r key" and E: "good_deps E"
  shows "during R amo r (at_key amo r key ph l) (checkpoint_guards E) (\<lambda>_. at_key amo r key ph l)"
proof -
  have g: "during R amo r (at_key amo r key ph l)
      (case d_lease_guard E of None \<Rightarrow> Ret True | Some guard \<Rightarrow> ctx_db_op (\<lambda>c. guard))
      (\<lambda>_. at_key amo r key ph l)"
  proof (cases "d_lease_guard E")
    case None
    then show ?thesis by simp (rule during_Ret_key [OF R]; simp)
  next
    case (Some guard)
    with E show ?thesis
      by simp (rule during_keyless [OF R], auto simp: good_deps_def guard_keeps_def)
  qed
  have c: "during R amo r (at_key amo r key ph l)
      (ctx_db_op (\<lambda>c t d. (d, st_is_cancel_requested (d_store E) (cx_run_id c) d)))
      (\<lambda>_. at_key amo r key ph l)"
    by (rule during_keyless [OF R]) (simp add: keyless_growth_same)
  show ?thesis
    unfolding checkpoint_guards_def ctx_gets_def
    by (rule during_bind [OF R g], rule during_bind [OF R during_gets_key [OF R]])
      (auto intro!: during_raise_key [OF R] during_bind [OF R c] during_bind [OF R during_gets_key [OF R]]
        during_Ret_key [OF R] split: option.splits)
qed

subsection \<open>A step\<close>

lemma log_inv_key: "log_inv amo r s \<Longrightarrow> phase (log_of r s) key \<noteq> Violated"
  by (simp add: log_inv_def key_inv_def)

lemma during_announce:
  assumes R: "local_rely R r key" and E: "d_store E = S" and a: "amo key \<Longrightarrow> idem = AT_MOST_ONCE"
    and v: "fit_verifier R val token verify"
  shows "during R amo r (at_key amo r key (if u then {In_flight} else {Not_started, Gave_up}) False)
      (announce_step E key token u idem verify) (resolves_to val amo r key)"
proof -
  have start: "during R amo r (at_key amo r key {Not_started, Gave_up} False)
      (append E STEP_STARTED (Some key) (PDict [(KStr ''token'', PStr (uuid_str token))]))
      (\<lambda>_. at_key amo r key {In_flight} True)"
    by (rule during_append_key [OF R E]) (auto simp: phase_step_def)
  show ?thesis
    using during_resolve [OF R E, of amo idem val token verify] a v
    by (auto simp: announce_step_def intro!: during_ebind [OF R start] amid_Ret kept_intros R
        intro: resolves_to_Inl resolves_to_None)
qed

text \<open>What the context remembers of the key.\<close>

definition same_ctx :: "('st, 'x) sys \<times> ctx \<Rightarrow> ('st, 'x) sys \<times> ctx \<Rightarrow> bool" where
  "same_ctx \<sigma> \<sigma>' \<longleftrightarrow> snd \<sigma>' = snd \<sigma>"

lemma guar_same_ctx_guards: "guar same_ctx (checkpoint_guards E)"
  unfolding checkpoint_guards_def ctx_db_op_def ctx_gets_def raise_def
  by (auto intro!: guar_intros simp: same_ctx_def split: option.splits prod.splits)

definition entering :: "(string \<Rightarrow> bool) \<Rightarrow> uuid \<Rightarrow> string \<Rightarrow> bool \<Rightarrow> ('st, 'x) sys \<times> ctx \<Rightarrow> bool" where
  "entering amo r key u \<sigma> \<longleftrightarrow>
     at_key amo r key (if u then {In_flight} else {Not_started, Gave_up}) False \<sigma> \<and>
     (cx_unresolved (snd \<sigma>) key \<noteq> None) = u"

lemma kept_unresolved [kept_intros]: "local_rely R r key \<Longrightarrow> kept R I (\<lambda>\<sigma>. (cx_unresolved (snd \<sigma>) key \<noteq> None) = u)"
  by (rule kept_ctx)

lemma kept_entering [kept_intros]: "local_rely R r key \<Longrightarrow> kept R (ctx_inv amo r) (entering amo r key u)"
  unfolding entering_def by (intro kept_intros)

lemma during_execute_step:
  assumes R: "local_rely R r key" and E: "good_deps E" and a: "amo key \<Longrightarrow> idem = AT_MOST_ONCE"
    and b: "\<And>tok. fit_body R val (amo key) (body tok)" and v: "\<And>tok. fit_verifier R val tok verify"
  shows "during R amo r (entering amo r key u) (execute_step E key body idem verify n) (steps_to val amo r key)"
  unfolding execute_step_def
proof (rule during_ebind [OF R])
  show "during R amo r (entering amo r key u) (checkpoint_guards E) (\<lambda>_. entering amo r key u)"
    unfolding entering_def
    by (rule amid_frame [OF during_guards [OF R E] guar_same_ctx_guards _ kept_unresolved [OF R]])
      (simp add: same_ctx_def)
next
  fix x :: unit
  have E': "d_store E = S" using E by (simp add: good_deps_def)
  have loop: "during R amo r (resolves_to val amo r key (Inr x))
      (case x of Some v \<Rightarrow> Ret (Inr (v, False))
       | None \<Rightarrow> attempt_loop E key (body token) (max_step_attempts E n) (nat (max_step_attempts E n)))
      (steps_to val amo r key)" for x token
  proof (cases x)
    case None
    show ?thesis
      unfolding None option.case
      by (rule amid_pre [OF during_attempt_loop [where amo = amo and key = key, OF R E' b]]) (simp add: resolves_to_def)
  qed (simp, rule amid_Ret, auto simp: resolves_to_def steps_to_def intro!: kept_intros R)
  have tail: "during R amo r (at_key amo r key (if u then {In_flight} else {Not_started, Gave_up}) False)
      (ebind (announce_step E key token u idem verify) (\<lambda>resolved.
         case resolved of Some v \<Rightarrow> Ret (Inr (v, False))
         | None \<Rightarrow> attempt_loop E key (body token) (max_step_attempts E n) (nat (max_step_attempts E n))))
      (steps_to val amo r key)" for token
  proof (rule during_ebind [OF R during_announce [OF R E' a v] loop])
    show "resolves_to val amo r key (Inl e) s \<Longrightarrow> steps_to val amo r key (Inl e) s" for e s
      by (auto simp: resolves_to_def intro: steps_to_Inl)
  qed
  show "during R amo r (entering amo r key u)
      (bind (ctx_gets (\<lambda>c. (step_token (cx_run_id c) key, cx_unresolved c key \<noteq> None))) (\<lambda>(token, recovering).
       ebind (announce_step E key token recovering idem verify) (\<lambda>resolved.
         case resolved of Some v \<Rightarrow> Ret (Inr (v, False))
         | None \<Rightarrow> attempt_loop E key (body token) (max_step_attempts E n) (nat (max_step_attempts E n)))))
      (steps_to val amo r key)"
    unfolding ctx_gets_def
  proof (rule amid_bind_gets)
    fix tu :: "uuid \<times> bool"
    let ?f = "(\<lambda>c. (step_token (cx_run_id c) key, cx_unresolved c key \<noteq> None)) \<circ> snd"
    show "kept R (ctx_inv amo r) (\<lambda>\<sigma>. entering amo r key u \<sigma> \<and> ?f \<sigma> = tu)"
      using kept_ctx [OF R, of "ctx_inv amo r" "\<lambda>_ w i. (step_token i key, w \<noteq> None) = tu"]
      by (auto intro!: kept_conj kept_entering R)
    obtain token u' where tu: "tu = (token, u')" by (cases tu)
    show "during R amo r (\<lambda>\<sigma>. entering amo r key u \<sigma> \<and> ?f \<sigma> = tu)
        (case tu of (token, recovering) \<Rightarrow>
         ebind (announce_step E key token recovering idem verify) (\<lambda>resolved.
           case resolved of Some v \<Rightarrow> Ret (Inr (v, False))
           | None \<Rightarrow> attempt_loop E key (body token) (max_step_attempts E n) (nat (max_step_attempts E n))))
        (steps_to val amo r key)"
    proof (cases "u' = u")
      case True
      show ?thesis
        unfolding tu True prod.case by (rule amid_pre [OF tail]) (simp add: entering_def)
    qed (auto simp: amid_def tu entering_def)
  qed (auto intro: rely_refl [OF R] kept_entering [OF R])
qed (auto simp: entering_def intro: steps_to_Inl)

text \<open>A step at a key whose memory agrees with the log, whatever others do elsewhere.\<close>

lemma during_step_with_key:
  assumes R: "local_rely R r key" and E: "good_deps E" and a: "amo key \<Longrightarrow> idem = AT_MOST_ONCE"
    and b: "\<And>tok. fit_body R val (amo key) (body tok)" and v: "\<And>tok. fit_verifier R val tok verify"
  shows "during R amo r (\<lambda>\<sigma>. at_key amo r key UNIV False \<sigma> \<and> agrees (log_of r (fst \<sigma>)) (snd \<sigma>) key)
           (step_with_key E key body idem verify n) (steps_to val amo r key)"
    (is "during R amo r ?P _ _")
  unfolding step_with_key_def ctx_gets_def
proof (rule amid_bind_gets)
  show P: "kept R (ctx_inv amo r) ?P" by (intro kept_intros R)
  fix rec :: "pyval option"
  show "kept R (ctx_inv amo r) (\<lambda>\<sigma>. ?P \<sigma> \<and> ((\<lambda>c. cx_completed c key) \<circ> snd) \<sigma> = rec)"
    using kept_conj [OF P kept_ctx [OF R, of "ctx_inv amo r" "\<lambda>v _ _. v = rec"]] by (simp add: comp_def)
  show "during R amo r (\<lambda>\<sigma>. ?P \<sigma> \<and> ((\<lambda>c. cx_completed c key) \<circ> snd) \<sigma> = rec)
      (case rec of
         Some v \<Rightarrow> bind (ctx_modify (\<lambda>c. c\<lparr>cx_replayed_steps := cx_replayed_steps c + 1\<rparr>))
                    (\<lambda>_. Ret (Inr (v, False)))
       | None \<Rightarrow> execute_step E key body idem verify n)
      (steps_to val amo r key)"
  proof (cases rec)
    case None
    show ?thesis
      unfolding None option.case
    proof (rule amid_pre [OF amid_ex [OF during_execute_step [where amo = amo and key = key and body = body, OF R E a b v]]])
      fix \<sigma> :: "('st, 'a) sys \<times> ctx"
      assume h: "?P \<sigma> \<and> ((\<lambda>c. cx_completed c key) \<circ> snd) \<sigma> = None"
      then show "\<exists>u. entering amo r key u \<sigma>"
        using log_inv_key [of amo r "fst \<sigma>" key] at_key_log [of amo r key UNIV False \<sigma>]
          agrees_phase [of "log_of r (fst \<sigma>)" "snd \<sigma>" key]
        by (cases "phase (log_of r (fst \<sigma>)) key") (auto simp: at_key_def entering_def)
    qed
  next
    case (Some v)
    have "during R amo r (\<lambda>\<sigma>. at_key amo r key UNIV False \<sigma> \<and> recorded_as r key v \<sigma>)
        (bind (ctx_modify (\<lambda>c. c\<lparr>cx_replayed_steps := cx_replayed_steps c + 1\<rparr>)) (\<lambda>_. Ret (Inr (v, False))))
        (steps_to val amo r key)"
      by (rule during_bind [OF R during_modify_recorded [OF R]])
        (auto simp: steps_to_def known_def intro!: amid_Ret kept_intros R)
    then show ?thesis
      unfolding Some option.case by (rule amid_pre) (auto simp: recorded_as_def agrees_def)
  qed
qed (rule rely_refl [OF R])

lemma triple_step_with_key:
  assumes E: "good_deps E" and a: "amo key \<Longrightarrow> idem = AT_MOST_ONCE \<and> steady body"
    and b: "\<And>tok. guar quiet (body tok) \<and> yields val (body tok)"
    and v: "\<And>vb tok. verify = Some vb \<Longrightarrow> guar quiet (vb tok) \<and> yields val (vb tok)"
  shows "triple (INV amo r) (\<lambda>\<sigma>. at_key amo r key UNIV False \<sigma> \<and> agrees (log_of r (fst \<sigma>)) (snd \<sigma>) key)
           (step_with_key E key body idem verify n) (steps_to val amo r key)"
proof (rule during_triple [OF during_step_with_key [OF rely_alone E]])
  show "fit_body (=) val (amo key) (body tok)" for tok
    using a b by (intro fit_body_alone) auto
  have "yields (\<lambda>v. v = PNone \<or> val v) (vb tok)" if "verify = Some vb" for vb tok
    using v [OF that, of tok] unfolding yields_def by (auto split: sum.splits)
  then show "fit_verifier (=) val tok verify" for tok
    using v by (auto simp: fit_verifier_def intro!: fit_body_alone)
qed (use a in \<open>auto dest: at_key_ctx\<close>)

subsection \<open>The public operations and whole workflows\<close>

text \<open>A new key is fresh: what the context knows of it is what the log says.\<close>

lemma triple_next_key:
  "triple (INV amo r) (ctx_inv amo r) (next_key nm)
     (\<lambda>key \<sigma>. (\<exists>n. key = step_key nm n) \<and> at_key amo r key UNIV False \<sigma> \<and>
        agrees (log_of r (fst \<sigma>)) (snd \<sigma>) key)"
  unfolding next_key_def
proof (rule triple_atom)
  fix \<sigma> :: "('st, 'x) sys \<times> ctx"
  assume inv: "ctx_inv amo r \<sigma>"
  obtain s c where \<sigma>: "\<sigma> = (s, c)" by (cases \<sigma>)
  let ?n = "ordinal c nm + 1"
  let ?c = "c\<lparr>cx_ordinals := (cx_ordinals c)(nm \<mapsto> ?n)\<rparr>"
  have "agrees (log_of r s) c (step_key nm ?n)"
    using inv next_key_fresh by (auto simp: ctx_inv_def \<sigma>)
  moreover have "ctx_inv amo r (s, ?c)"
    using inv issued_next [of c nm] by (simp add: ctx_inv_def \<sigma>)
  ultimately show "INV amo r \<sigma> \<and>
      INV amo r (fst (case \<sigma> of (s, c) \<Rightarrow> let n = ordinal c nm + 1
        in ((s, c\<lparr>cx_ordinals := (cx_ordinals c)(nm \<mapsto> n)\<rparr>), step_key nm n))) \<and>
      (\<exists>n. snd (case \<sigma> of (s, c) \<Rightarrow> let n = ordinal c nm + 1
        in ((s, c\<lparr>cx_ordinals := (cx_ordinals c)(nm \<mapsto> n)\<rparr>), step_key nm n)) = step_key nm n) \<and>
      at_key amo r (snd (case \<sigma> of (s, c) \<Rightarrow> let n = ordinal c nm + 1
        in ((s, c\<lparr>cx_ordinals := (cx_ordinals c)(nm \<mapsto> n)\<rparr>), step_key nm n))) UNIV False
        (fst (case \<sigma> of (s, c) \<Rightarrow> let n = ordinal c nm + 1
        in ((s, c\<lparr>cx_ordinals := (cx_ordinals c)(nm \<mapsto> n)\<rparr>), step_key nm n))) \<and>
      agrees (log_of r (fst (fst (case \<sigma> of (s, c) \<Rightarrow> let n = ordinal c nm + 1
        in ((s, c\<lparr>cx_ordinals := (cx_ordinals c)(nm \<mapsto> n)\<rparr>), step_key nm n)))))
        (snd (fst (case \<sigma> of (s, c) \<Rightarrow> let n = ordinal c nm + 1
        in ((s, c\<lparr>cx_ordinals := (cx_ordinals c)(nm \<mapsto> n)\<rparr>), step_key nm n))))
        (snd (case \<sigma> of (s, c) \<Rightarrow> let n = ordinal c nm + 1
        in ((s, c\<lparr>cx_ordinals := (cx_ordinals c)(nm \<mapsto> n)\<rparr>), step_key nm n)))"
    using inv by (auto simp: \<sigma> Let_def at_key_def ctx_inv_def)
qed

text \<open>A step under a fresh key of a name, whatever happens afterwards to that key alone.\<close>

lemma triple_keyed:
  assumes E: "good_deps E" and a: "nm \<in> N \<Longrightarrow> idem = AT_MOST_ONCE \<and> steady body"
    and b: "\<And>tok. guar quiet (body tok)" and v: "\<And>vb tok. verify = Some vb \<Longrightarrow> guar quiet (vb tok)"
    and k: "\<And>key a. triple (INV (keys_of N) r) (at_key (keys_of N) r key UNIV False) (k key a)
              (\<lambda>_. at_key (keys_of N) r key UNIV False)"
  shows "triple (INV (keys_of N) r) (ctx_inv (keys_of N) r)
     (bind (next_key nm) (\<lambda>key. ebind (step_with_key E key body idem verify n) (k key)))
     (\<lambda>_. ctx_inv (keys_of N) r)"
proof (rule triple_bind [OF triple_next_key])
  fix key
  let ?I = "INV (keys_of N) r" and ?at = "at_key (keys_of N) r key UNIV False"
  show "triple ?I (\<lambda>\<sigma>. (\<exists>n. key = step_key nm n) \<and> ?at \<sigma> \<and> agrees (log_of r (fst \<sigma>)) (snd \<sigma>) key)
      (ebind (step_with_key E key body idem verify n) (k key)) (\<lambda>_. ctx_inv (keys_of N) r)"
  proof (cases "\<exists>n. key = step_key nm n")
    case True
    then have "keys_of N key \<Longrightarrow> idem = AT_MOST_ONCE \<and> steady body" using a by auto
    then have "triple ?I (\<lambda>\<sigma>. ?at \<sigma> \<and> agrees (log_of r (fst \<sigma>)) (snd \<sigma>) key)
        (ebind (step_with_key E key body idem verify n) (k key)) (\<lambda>_. ?at)"
      using b v k yields_True
      by (intro triple_seq [OF triple_post [OF triple_step_with_key [OF E] steps_to_at]]) blast+
    then have "triple ?I (\<lambda>\<sigma>. ?at \<sigma> \<and> agrees (log_of r (fst \<sigma>)) (snd \<sigma>) key)
        (ebind (step_with_key E key body idem verify n) (k key)) (\<lambda>_. ctx_inv (keys_of N) r)"
      by (rule triple_post) (rule at_key_ctx)
    then show ?thesis by (rule triple_pre) blast
  qed (simp add: triple_def)
qed

lemma triple_any_append:
  assumes E: "d_store E = S" and ty: "ty \<notin> {STEP_STARTED, STEP_RETRIED, STEP_COMPLETED, STEP_FAILED}"
  shows "triple (INV amo r) (at_key amo r key UNIV False) (append E ty (Some key) p)
           (\<lambda>_. at_key amo r key UNIV False)"
proof (cases "json_ok p")
  case True
  have "phase_step q ty = q" for q using ty by (cases ty) (auto simp: phase_step_def)
  then have "triple (INV amo r) (at_key amo r key (- {Violated}) False) (append E ty (Some key) p)
      (\<lambda>_. at_key amo r key (- {Violated}) False)"
    using ty by (intro during_triple_key [OF during_append_key [OF rely_alone E True]]) auto
  then show ?thesis
    by (rule triple_pre [OF triple_post]) (auto simp: at_key_def ctx_inv_def log_inv_key)
next
  case False
  show ?thesis
    unfolding append_def
  proof (rule triple_ctx_db_op)
    fix s :: "('st, 'b) sys" and c
    assume at: "at_key amo r key UNIV False (s, c)"
    obtain e where "st_append_event S (sy_now s) (cx_run_id c) ty (Some key) p (sy_db s) = (sy_db s, Inl e)"
      using append_bad [OF False] by blast
    with at show "INV amo r (s, c) \<and>
      INV amo r (s\<lparr>sy_db := fst (st_append_event (d_store E) (sy_now s) (cx_run_id c) ty (Some key) p (sy_db s))\<rparr>, c) \<and>
      at_key amo r key UNIV False
       (s\<lparr>sy_db := fst (st_append_event (d_store E) (sy_now s) (cx_run_id c) ty (Some key) p (sy_db s))\<rparr>, c)"
      by (simp add: E at_key_log [of amo r key UNIV False "(s, c)", simplified])
  qed
qed

lemma triple_ctx_step:
  assumes "good_deps E" and "name \<in> N \<Longrightarrow> idem = AT_MOST_ONCE \<and> never_fails fn kwargs"
  shows "triple (INV (keys_of N) r) (ctx_inv (keys_of N) r) (ctx_step E name fn idem verify n kwargs)
           (\<lambda>_. ctx_inv (keys_of N) r)"
  unfolding ctx_step_def
  by (rule triple_keyed [OF assms(1)])
    (use assms(2) in \<open>auto intro!: steady_call_fn quiet_call_fn triple_Ret_key\<close>)

lemma triple_ctx_call_tool:
  assumes E: "good_deps E"
    and a: "\<And>spec. lookup_tool (d_registry E) name = Inr spec \<Longrightarrow> ''tool:'' @ ts_name spec \<in> N \<Longrightarrow>
         ts_idempotency spec = AT_MOST_ONCE \<and> never_fails (ts_fn spec) args"
  shows "triple (INV (keys_of N) r) (ctx_inv (keys_of N) r) (ctx_call_tool E name args)
           (\<lambda>_. ctx_inv (keys_of N) r)"
proof (cases "lookup_tool (d_registry E) name")
  case (Inl e)
  then show ?thesis by (simp add: ctx_call_tool_def raise_def) (rule triple_Ret, simp add: ctx_inv_log)
next
  case (Inr spec)
  have E': "d_store E = S" using E by (simp add: good_deps_def)
  show ?thesis
    unfolding ctx_call_tool_def Inr sum.case
  proof (rule triple_keyed [OF E])
    show "''tool:'' @ ts_name spec \<in> N \<Longrightarrow>
        ts_idempotency spec = AT_MOST_ONCE \<and> steady (tool_body spec args)"
      using a [OF Inr] by (auto intro: steady_tool_body)
    fix key and re :: "pyval \<times> bool"
    obtain result executed where re: "re = (result, executed)" by (cases re)
    show "triple (INV (keys_of N) r) (at_key (keys_of N) r key UNIV False)
        (case re of (result, executed) \<Rightarrow>
           if executed then
             ebind (append E TOOL_INVOKED (Some key) (tool_invoked_payload spec args)) (\<lambda>_. Ret (Inr result))
           else Ret (Inr result))
        (\<lambda>_. at_key (keys_of N) r key UNIV False)"
      by (auto simp: re intro!: triple_Ret_key triple_seq [OF triple_any_append [OF E']])
  qed (auto intro!: quiet_tool_body quiet_call_fn)
qed

lemma triple_ctx_model:
  assumes E: "good_deps E" and N: "name \<notin> N"
  shows "triple (INV (keys_of N) r) (ctx_inv (keys_of N) r) (ctx_model E name req)
           (\<lambda>_. ctx_inv (keys_of N) r)"
  unfolding ctx_model_def
proof (rule triple_keyed [OF E])
  have E': "d_store E = S" using E by (simp add: good_deps_def)
  fix key and re :: "pyval \<times> bool"
  obtain raw executed where re: "re = (raw, executed)" by (cases re)
  show "triple (INV (keys_of N) r) (at_key (keys_of N) r key UNIV False)
      (case re of (raw, executed) \<Rightarrow>
         ebind (Ret (response_from_dict raw)) (\<lambda>response.
         if executed then
           bind (ctx_modify (\<lambda>c. c\<lparr>cx_budget := (cx_budget c)
               \<lparr>bt_usage := add_model_usage (mr_input_tokens response) (mr_output_tokens response)
                  (mr_cost_usd response) (bt_usage (cx_budget c))\<rparr>\<rparr>)) (\<lambda>_.
           bind (persist_usage E) (\<lambda>_.
           ebind (append E MODEL_CALLED (Some key) (model_called_payload response)) (\<lambda>_.
           Ret (Inr response))))
         else Ret (Inr response)))
      (\<lambda>_. at_key (keys_of N) r key UNIV False)"
    unfolding re prod.case
  proof (rule triple_seq [OF triple_Ret_key])
    fix response
    have "triple (INV (keys_of N) r) (at_key (keys_of N) r key UNIV False)
        (bind (ctx_modify (\<lambda>c. c\<lparr>cx_budget := (cx_budget c)
               \<lparr>bt_usage := add_model_usage (mr_input_tokens response) (mr_output_tokens response)
                  (mr_cost_usd response) (bt_usage (cx_budget c))\<rparr>\<rparr>)) (\<lambda>_.
           bind (persist_usage E) (\<lambda>_.
           ebind (append E MODEL_CALLED (Some key) (model_called_payload response)) (\<lambda>_.
           Ret (Inr response)))))
        (\<lambda>_. at_key (keys_of N) r key UNIV False)"
      by (rule triple_bind [OF triple_ctx_modify_key], simp_all,
          rule triple_bind [OF triple_persist [OF E']],
          rule triple_seq [OF triple_any_append [OF E']])
        (auto intro!: triple_Ret_key)
    then show "triple (INV (keys_of N) r) (at_key (keys_of N) r key UNIV False)
        (if executed then
           bind (ctx_modify (\<lambda>c. c\<lparr>cx_budget := (cx_budget c)
               \<lparr>bt_usage := add_model_usage (mr_input_tokens response) (mr_output_tokens response)
                  (mr_cost_usd response) (bt_usage (cx_budget c))\<rparr>\<rparr>)) (\<lambda>_.
           bind (persist_usage E) (\<lambda>_.
           ebind (append E MODEL_CALLED (Some key) (model_called_payload response)) (\<lambda>_.
           Ret (Inr response))))
         else Ret (Inr response))
        (\<lambda>_. at_key (keys_of N) r key UNIV False)"
      by (auto intro!: triple_Ret_key)
  qed simp_all
qed (use N in \<open>auto intro!: quiet_model_body\<close>)

theorem triple_interp:
  assumes E: "good_deps E" and w: "amo_safe E N w"
  shows "triple (INV (keys_of N) r) (ctx_inv (keys_of N) r) (interp E w) (\<lambda>_. ctx_inv (keys_of N) r)"
  using w
proof (induction w)
  case (Step name fn idem verify n kwargs k)
  then show ?case by (auto intro!: triple_bind [OF triple_ctx_step [OF E]])
next
  case (Tool name args k)
  then show ?case by (auto intro!: triple_bind [OF triple_ctx_call_tool [OF E]])
next
  case (Model name req k)
  then show ?case by (auto intro!: triple_bind [OF triple_ctx_model [OF E]])
next
  case (Counters k)
  have "triple (INV (keys_of N) r) (\<lambda>\<sigma>. ctx_inv (keys_of N) r \<sigma> \<and> f \<sigma> = x) (interp E (k x))
      (\<lambda>_. ctx_inv (keys_of N) r)" for f :: "('st, 'a) sys \<times> ctx \<Rightarrow> nat \<times> nat" and x
    by (rule triple_pre [OF Counters.IH]) (use Counters.prems in \<open>cases x, auto\<close>)
  then show ?case
    unfolding interp.simps ctx_gets_def by (intro triple_bind_gets) (auto dest: ctx_inv_log)
qed (simp_all add: raise_def triple_def ctx_inv_log)

end

end
