(* ===== verification/Engine_Inv.thy ===== *)
theory Engine_Inv
  imports Step_Inv Engine
begin

text \<open>
  The log invariant through a whole attempt, and through any history of attempts that die
  anywhere, with whatever else happens to the system in between.
\<close>

lemma plain_event_simps [simp]:
  "plain_event RUN_FAILED" "plain_event RUN_CANCELLED" "plain_event RUN_COMPLETED"
  "plain_event RUN_NEEDS_REVIEW" "plain_event BUDGET_EXCEEDED" "plain_event RUN_RESUMED"
  by (simp_all add: plain_event_def)

lemma phase_plain: "plain_event (ev_type e) \<Longrightarrow> phase (l @ [e]) key = phase l key"
  by (cases "ev_type e") (auto simp: plain_event_def phase_step_def)

lemma count_plain:
  "plain_event (ev_type e) \<Longrightarrow> ty \<in> {STEP_STARTED, STEP_RETRIED, STEP_FAILED} \<Longrightarrow>
   count_events (l @ [e]) key ty = count_events l key ty"
  by (auto simp: plain_event_def)

lemma key_inv_plain: "plain_event (ev_type e) \<Longrightarrow> key_inv amo (l @ [e]) n key = key_inv amo l n key"
  by (simp add: key_inv_def licences_def phase_plain count_plain del: phase_snoc count_events_snoc)

text \<open>The workflows of a registry use the names in \<open>N\<close> for at-most-once steps that never fail.\<close>

definition amo_registry :: "('st, 'x) deps \<Rightarrow> string set \<Rightarrow> bool" where
  "amo_registry E N \<longleftrightarrow>
     (\<forall>(name, oid, fn) \<in> set (rg_workflows (d_registry E)). \<forall>input. amo_safe E N (fn input))"

lemma amo_registryD:
  "amo_registry E N \<Longrightarrow> lookup_workflow (d_registry E) name = Inr fn \<Longrightarrow> amo_safe E N (fn input)"
  by (force simp: amo_registry_def lookup_workflow_def split: option.splits dest: map_of_SomeD)

context log_store
begin

lemma log_inv_keyless:
  assumes "log_inv amo r s" and "has_run r d" and "keyless_growth S r (sy_db s) d"
  shows "log_inv amo r (s\<lparr>sy_db := d\<rparr>)"
proof -
  from assms(3) obtain es where es: "st_load_events S r d = st_load_events S r (sy_db s) @ es"
    "\<And>e. e \<in> set es \<Longrightarrow> ev_step_key e = None" by (rule keyless_growthE) blast
  then show ?thesis
    using assms(1,2) by (simp add: log_inv_def log_of_def key_inv_keyless calls_of_def)
qed

lemma log_inv_append:
  assumes inv: "log_inv amo r s" and ty: "plain_event ty"
  shows "log_inv amo r (s\<lparr>sy_db := fst (st_append_event S t r ty sk p (sy_db s))\<rparr>)"
proof (cases "json_ok p")
  case True
  have has: "has_run r (sy_db s)" using inv by (simp add: log_inv_def)
  obtain e where "ev_type e = ty"
    "st_load_events S r (fst (st_append_event S t r ty sk p (sy_db s))) = st_load_events S r (sy_db s) @ [e]"
    using load_append [OF has True] by blast
  then show ?thesis
    using inv has_append [OF has] ty by (simp add: log_inv_def log_of_def key_inv_plain calls_of_def)
next
  case False
  then obtain e where "st_append_event S t r ty sk p (sy_db s) = (sy_db s, Inl e)"
    using append_bad by blast
  then show ?thesis using inv by simp
qed

section \<open>The end of an attempt\<close>

definition settled :: "(string \<Rightarrow> bool) \<Rightarrow> uuid \<Rightarrow> ('st, 'x) sys \<times> ctx \<Rightarrow> bool" where
  "settled amo r \<sigma> \<longleftrightarrow> log_inv amo r (fst \<sigma>) \<and> cx_run_id (snd \<sigma>) = r"

lemma ctx_inv_settled: "ctx_inv amo r \<sigma> \<Longrightarrow> settled amo r \<sigma>"
  by (simp add: settled_def ctx_inv_def)

abbreviation ends :: "(string \<Rightarrow> bool) \<Rightarrow> uuid \<Rightarrow> ('st, 'x, 'r) ctx_prog \<Rightarrow> bool" where
  "ends amo r p \<equiv> triple (INV amo r) (settled amo r) p (\<lambda>_. settled amo r)"

lemma ends_Ret: "ends amo r (Ret x)"
  by (rule triple_Ret) (simp add: settled_def)

lemma ends_raise: "ends amo r (raise e)"
  unfolding raise_def by (rule ends_Ret)

lemma ends_bind: "ends amo r p \<Longrightarrow> (\<And>x. ends amo r (k x)) \<Longrightarrow> ends amo r (bind p k)"
  by (rule triple_bind)

lemma ends_ebind: "ends amo r p \<Longrightarrow> (\<And>x. ends amo r (k x)) \<Longrightarrow> ends amo r (ebind p k)"
  by (rule triple_ebind)

lemma ends_gets: "ends amo r (gets f)"
  unfolding gets_def by (rule triple_atom) (simp add: settled_def)

lemma ends_ctx_gets: "ends amo r (ctx_gets f)"
  unfolding ctx_gets_def by (rule ends_gets)

lemma ends_append:
  assumes E: "d_store E = S" and "plain_event ty"
  shows "ends amo r (append E ty sk p)"
  unfolding append_def E
  by (rule triple_ctx_db_op) (auto simp: settled_def assms(2) intro: log_inv_append)

lemma log_inv_has: "log_inv amo r s \<Longrightarrow> has_run r (sy_db s)"
  by (simp add: log_inv_def)

lemma ends_persist:
  assumes E: "d_store E = S"
  shows "ends amo r (persist_usage E)"
  unfolding persist_usage_def E
  by (rule triple_ctx_db_op)
    (auto simp: settled_def intro!: log_inv_keyless has_save_usage load_save_usage log_inv_has)

lemma ends_set_status:
  assumes E: "d_store E = S"
  shows "ends amo r (set_run_status E st res err)"
  unfolding set_run_status_def E
  by (rule triple_ctx_db_op)
    (auto simp: settled_def intro!: log_inv_keyless has_set_status load_set_status log_inv_has)

lemmas ends_intros = ends_bind ends_ebind ends_Ret ends_raise ends_ctx_gets ends_gets
  ends_append ends_persist ends_set_status

lemma ends_fail: "d_store E = S \<Longrightarrow> ends amo r (fail E tname message retryable extra)"
  unfolding fail_def Let_def by (intro ends_intros) simp_all

lemma ends_handle: "d_store E = S \<Longrightarrow> ends amo r (handle E e)"
  by (cases e) (simp_all only: handle.simps Let_def, (intro ends_intros ends_fail; simp)+)

lemma ends_complete: "d_store E = S \<Longrightarrow> ends amo r (complete E result)"
  unfolding complete_def by (intro ends_intros) simp_all

section \<open>An attempt\<close>

text \<open>A new context knows what the log says.\<close>

lemma new_context_inv:
  assumes "log_inv amo r s" and "rr_run_id rr = r"
  shows "ctx_inv amo r (s, new_context rr (log_of r s))"
proof -
  have "agrees (log_of r s) (new_context rr (log_of r s)) key" for key
    by (simp add: agrees_def new_context_def)
  then show ?thesis
    using assms by (simp add: ctx_inv_def cx_run_id_def new_context_def)
qed

lemma triple_drive:
  assumes E: "good_deps E" and w: "amo_registry E N"
  shows "triple (INV (keys_of N) r) (ctx_inv (keys_of N) r) (drive E rr) (\<lambda>_. settled (keys_of N) r)"
proof (cases "lookup_workflow (d_registry E) (rr_workflow rr)")
  case (Inl e)
  have E': "d_store E = S" using E by (simp add: good_deps_def)
  show ?thesis
    unfolding drive_def Inl sum.case by (rule triple_pre [OF ends_fail [OF E'] ctx_inv_settled])
next
  case (Inr fn)
  have E': "d_store E = S" using E by (simp add: good_deps_def)
  show ?thesis
    unfolding drive_def Inr sum.case
  proof (rule triple_bind [OF triple_post [OF triple_interp [OF E amo_registryD [OF w Inr]] ctx_inv_settled]])
    show "ends (keys_of N) r (case x of Inl e \<Rightarrow> handle E e | Inr result \<Rightarrow> complete E result)" for x
      by (cases x) (simp_all add: ends_handle [OF E'] ends_complete [OF E'])
  qed
qed

text \<open>Statements of the system, and whole attempts: the invariant at every atom.\<close>

abbreviation throughout :: "(string \<Rightarrow> bool) \<Rightarrow> uuid \<Rightarrow> (('st, 'x) sys, 'r) prog \<Rightarrow> bool" where
  "throughout amo r p \<equiv> triple (log_inv amo r) (log_inv amo r) p (\<lambda>_. log_inv amo r)"

lemma throughout_db_op:
  assumes "\<And>s :: ('st, 'x) sys. log_inv amo r s \<Longrightarrow>
      log_inv amo r (s\<lparr>sy_db := fst (f (sy_now s) (sy_db s))\<rparr>)"
  shows "throughout amo r (db_op f :: (('st, 'x) sys, 'r) prog)"
  unfolding db_op_def using assms by (intro triple_atom) (auto simp: split_def Let_def)

lemma throughout_bind: "throughout amo r p \<Longrightarrow> (\<And>x. throughout amo r (k x)) \<Longrightarrow> throughout amo r (bind p k)"
  by (rule triple_bind)

lemma throughout_ebind: "throughout amo r p \<Longrightarrow> (\<And>x. throughout amo r (k x)) \<Longrightarrow> throughout amo r (ebind p k)"
  by (rule triple_ebind)

lemma throughout_Ret: "throughout amo r (Ret x)" "throughout amo r (raise e)"
  unfolding raise_def by (rule triple_Ret, simp)+

lemma throughout_bump: "throughout amo r (db_op (\<lambda>t. st_bump_attempt S t r'))"
  by (rule throughout_db_op) (intro log_inv_keyless has_bump load_bump log_inv_has)

lemma throughout_status: "throughout amo r (db_op (\<lambda>t. st_set_status S t r' st res err))"
  by (rule throughout_db_op) (intro log_inv_keyless has_set_status load_set_status log_inv_has)

lemma throughout_plain: "plain_event ty \<Longrightarrow> throughout amo r (db_op (\<lambda>t. st_append_event S t r ty sk p))"
  by (rule throughout_db_op) (rule log_inv_append)

lemma throughout_gets: "throughout amo r (gets f)"
  unfolding gets_def by (rule triple_atom) simp

lemma throughout_begin:
  assumes E: "d_store E = S"
  shows "throughout amo r (begin_attempt E r rr)"
proof -
  have "throughout amo r (case attempt of
       None \<Rightarrow> raise (type_error ''not supported between instances of NoneType and int'')
     | Some n \<Rightarrow>
         ebind (if n > 1
                then ebind (db_op (\<lambda>t. st_append_event S t r RUN_RESUMED None
                        (PDict [(KStr ''attempt'', PInt (int n)),
                                (KStr ''events_before_resume'', PInt (int (rr_event_seq rr)))]))) (\<lambda>_.
                     Ret (Inr ()))
                else Ret (Inr ())) (\<lambda>_.
         db_op (\<lambda>t. st_set_status S t r RUNNING PNone PNone)))" for attempt
    by (cases attempt) (auto intro!: throughout_ebind throughout_plain throughout_status throughout_Ret)
  then show ?thesis
    unfolding begin_attempt_def E by (rule throughout_ebind [OF throughout_bump])
qed

lemma throughout_run_attempt:
  assumes E: "good_deps E" and w: "amo_registry E N"
  shows "throughout (keys_of N) r (run_attempt E r)"
proof -
  have E': "d_store E = S" using E by (simp add: good_deps_def)
  have "always (log_inv (keys_of N) r) (run_attempt E r) s \<and>
      log_inv (keys_of N) r (fst (run (run_attempt E r) s))" if inv: "log_inv (keys_of N) r s" for s
  proof -
    obtain rr where rr: "st_get_run S r (sy_db s) = Some rr" "rr_run_id rr = r"
      using get_run [OF log_inv_has [OF inv]] get_run_id by blast
    have "ctx_inv (keys_of N) r (s, new_context rr (st_load_events S r (sy_db s)))"
      using new_context_inv [OF inv rr(2)] by (simp add: log_of_def)
    then show ?thesis
      using triple_drive [OF E w, of r rr] inv
      by (auto simp: run_attempt_def E' rr(1) triple_def settled_def split_def)
  qed
  then show ?thesis by (simp add: triple_def)
qed

theorem throughout_execute:
  assumes E: "good_deps E" and w: "amo_registry E N"
  shows "throughout (keys_of N) r (execute E r)"
proof -
  have E': "d_store E = S" using E by (simp add: good_deps_def)
  have "throughout (keys_of N) r (case ro of
       None \<Rightarrow> raise (PyError ''LookupError'' (Some (''run '' @ uuid_str r @ '' does not exist'')))
     | Some rr \<Rightarrow>
         if terminal (rr_status rr)
         then Ret (Inr \<lparr>oc_run_id = r, oc_status = rr_status rr, oc_result = rr_result rr,
                        oc_error = rr_error rr, oc_replayed_steps = 0, oc_executed_steps = 0\<rparr>)
         else ebind (begin_attempt E r rr) (\<lambda>_. run_attempt E r))" for ro
    by (cases ro) (auto intro!: throughout_Ret throughout_ebind throughout_begin [OF E']
        throughout_run_attempt [OF E w])
  then show ?thesis
    unfolding execute_def by (rule throughout_bind [OF throughout_gets])
qed

end

end
