(* ===== verification/Guarantees.thy ===== *)
theory Guarantees
  imports Engine
begin

text \<open>
  What every single atom of an attempt does, from whatever state it runs in: the rely-free half
  of rely-guarantee reasoning. A relation that the primitive atoms respect is a guarantee of every
  operation of the context, of every workflow and of the engine, under any interleaving.
\<close>

text \<open>The primitive atoms: the context object, the clock, the history, four statements.\<close>

definition admits ::
  "('st, 'x) deps \<Rightarrow> (('st, 'x) sys \<times> ctx \<Rightarrow> ('st, 'x) sys \<times> ctx \<Rightarrow> bool) \<Rightarrow> bool" where
  "admits E R \<longleftrightarrow>
     (\<forall>s c c'. cx_run c' = cx_run c \<and> cx_ordinals c' = cx_ordinals c \<longrightarrow> R (s, c) (s, c')) \<and>
     (\<forall>s c t. R (s, c) (s\<lparr>sy_now := t\<rparr>, c)) \<and>
     (\<forall>s c key. R (s, c) (s\<lparr>sy_calls := sy_calls s @ [(cx_run_id c, key)]\<rparr>, c)) \<and>
     (\<forall>s c ty sk p. R (s, c) (s\<lparr>sy_db :=
        fst (st_append_event (d_store E) (sy_now s) (cx_run_id c) ty sk p (sy_db s))\<rparr>, c)) \<and>
     (\<forall>s c u. R (s, c) (s\<lparr>sy_db := st_save_usage (d_store E) (sy_now s) (cx_run_id c) u (sy_db s)\<rparr>, c)) \<and>
     (\<forall>s c st res err. R (s, c) (s\<lparr>sy_db :=
        fst (st_set_status (d_store E) (sy_now s) (cx_run_id c) st res err (sy_db s))\<rparr>, c)) \<and>
     (\<forall>s c guard. d_lease_guard E = Some guard \<longrightarrow> R (s, c) (s\<lparr>sy_db := fst (guard (sy_now s) (sy_db s))\<rparr>, c))"

text \<open>Issuing a key, and anything that code outside the runtime may do, as well.\<close>

definition admits_keys :: "(('st, 'x) sys \<times> ctx \<Rightarrow> ('st, 'x) sys \<times> ctx \<Rightarrow> bool) \<Rightarrow> bool" where
  "admits_keys R \<longleftrightarrow> (\<forall>s c os. R (s, c) (s, c\<lparr>cx_ordinals := os\<rparr>))"

definition admits_all ::
  "('st, 'x) deps \<Rightarrow> (('st, 'x) sys \<times> ctx \<Rightarrow> ('st, 'x) sys \<times> ctx \<Rightarrow> bool) \<Rightarrow> bool" where
  "admits_all E R \<longleftrightarrow> admits E R \<and> admits_keys R \<and>
     (\<forall>s c t x. R (s, c) (s\<lparr>sy_now := t, sy_ext := x\<rparr>, c))"

lemma admits_all_admits: "admits_all E R \<Longrightarrow> admits E R"
  by (simp add: admits_all_def)

lemma admits_all_keys: "admits_all E R \<Longrightarrow> admits_keys R"
  by (simp add: admits_all_def)

lemma admits_refl: "admits E R \<Longrightarrow> R \<sigma> \<sigma>"
  by (cases \<sigma>) (simp add: admits_def)

lemma admits_gets: "admits E R \<Longrightarrow> guar R (gets f)"
  by (rule guar_getsI) (rule admits_refl)

lemma admits_ctx_gets: "admits E R \<Longrightarrow> guar R (ctx_gets f)"
  unfolding ctx_gets_def by (rule admits_gets)

lemma admits_modify:
  "admits E R \<Longrightarrow> (\<And>c. cx_run (f c) = cx_run c \<and> cx_ordinals (f c) = cx_ordinals c) \<Longrightarrow>
   guar R (ctx_modify f)"
  unfolding ctx_modify_def by (rule guar_modifyI) (auto simp: admits_def apsnd_def map_prod_def)

lemma admits_next_key: "admits_keys R \<Longrightarrow> guar R (next_key nm)"
  unfolding next_key_def by (rule guar_atomI) (auto simp: admits_keys_def Let_def split: prod.splits)

lemma admits_outside: "admits_all E R \<Longrightarrow> guar R (outside p)"
  unfolding outside_def by (rule guar_liftI) (auto simp: admits_all_def)

text \<open>A program outside whose own atoms keep \<open>Q\<close> moves the system in what \<open>Q\<close> lifts to.\<close>

lemma guar_outside:
  assumes "guar Q p" and "\<And>s c t x. Q (sy_now s, sy_ext s) (t, x) \<Longrightarrow> R (s, c) (s\<lparr>sy_now := t, sy_ext := x\<rparr>, c)"
  shows "guar R (outside p)"
  unfolding outside_def using assms by (induction p) (auto simp: split_def)

lemma admits_sleep: "admits E R \<Longrightarrow> guar R (sleep dt)"
  unfolding sleep_def by (rule guar_modifyI) (auto simp: admits_def)

lemma admits_log_call: "admits E R \<Longrightarrow> guar R (log_call key)"
  unfolding log_call_def by (rule guar_modifyI) (auto simp: admits_def)

lemma guar_ctx_db_op:
  "(\<And>s c. R (s, c) (s\<lparr>sy_db := fst (f c (sy_now s) (sy_db s))\<rparr>, c)) \<Longrightarrow> guar R (ctx_db_op f)"
  unfolding ctx_db_op_def by (rule guar_atomI) (auto simp: Let_def split_def)

lemma admits_append: "admits E R \<Longrightarrow> guar R (append E ty sk p)"
  unfolding append_def by (rule guar_ctx_db_op) (simp add: admits_def)

lemma admits_persist: "admits E R \<Longrightarrow> guar R (persist_usage E)"
  unfolding persist_usage_def by (rule guar_ctx_db_op) (simp add: admits_def)

lemma admits_status: "admits E R \<Longrightarrow> guar R (set_run_status E st res err)"
  unfolding set_run_status_def by (rule guar_ctx_db_op) (simp add: admits_def)

lemma admits_read: "admits E R \<Longrightarrow> guar R (ctx_db_op (\<lambda>c t d. (d, f c d)))"
  by (rule guar_ctx_db_op) (simp add: admits_refl)

lemma guar_raise: "guar R (raise e)"
  by (simp add: raise_def)

lemma complete_step_run [simp]:
  "cx_run (complete_step key v c) = cx_run c" "cx_ordinals (complete_step key v c) = cx_ordinals c"
  by (simp_all add: complete_step_def)

lemmas admits_intros = guar_Ret guar_raise guar_bindI guar_ebindI admits_gets admits_ctx_gets
  admits_modify admits_sleep admits_log_call
  admits_append admits_persist admits_status admits_read

section \<open>A step, at its key\<close>

text \<open>The primitive atoms that a step under one key needs.\<close>

definition admits_at ::
  "('st, 'x) deps \<Rightarrow> string \<Rightarrow> (('st, 'x) sys \<times> ctx \<Rightarrow> ('st, 'x) sys \<times> ctx \<Rightarrow> bool) \<Rightarrow> bool" where
  "admits_at E key R \<longleftrightarrow>
     (\<forall>s c c'. cx_run c' = cx_run c \<and> cx_ordinals c' = cx_ordinals c \<and>
        (\<forall>k. k \<noteq> key \<longrightarrow> cx_completed c' k = cx_completed c k \<and> cx_unresolved c' k = cx_unresolved c k) \<longrightarrow>
        R (s, c) (s, c')) \<and>
     (\<forall>s c t. R (s, c) (s\<lparr>sy_now := t\<rparr>, c)) \<and>
     (\<forall>s c. R (s, c) (s\<lparr>sy_calls := sy_calls s @ [(cx_run_id c, key)]\<rparr>, c)) \<and>
     (\<forall>s c ty p. R (s, c) (s\<lparr>sy_db :=
        fst (st_append_event (d_store E) (sy_now s) (cx_run_id c) ty (Some key) p (sy_db s))\<rparr>, c)) \<and>
     (\<forall>s c u. R (s, c) (s\<lparr>sy_db := st_save_usage (d_store E) (sy_now s) (cx_run_id c) u (sy_db s)\<rparr>, c)) \<and>
     (\<forall>s c guard. d_lease_guard E = Some guard \<longrightarrow> R (s, c) (s\<lparr>sy_db := fst (guard (sy_now s) (sy_db s))\<rparr>, c))"

lemma admits_admits_at: "admits E R \<Longrightarrow> admits_at E key R"
  by (simp add: admits_def admits_at_def)

lemma at_refl: "admits_at E key R \<Longrightarrow> R \<sigma> \<sigma>"
  by (cases \<sigma>) (simp add: admits_at_def)

lemma at_ctx_gets: "admits_at E key R \<Longrightarrow> guar R (ctx_gets f)" "admits_at E key R \<Longrightarrow> guar R (gets g)"
  unfolding ctx_gets_def by (rule guar_getsI, erule at_refl)+

lemma at_modify:
  "admits_at E key R \<Longrightarrow> (\<And>c. cx_run (f c) = cx_run c \<and> cx_ordinals (f c) = cx_ordinals c \<and>
     (\<forall>k. k \<noteq> key \<longrightarrow> cx_completed (f c) k = cx_completed c k \<and> cx_unresolved (f c) k = cx_unresolved c k)) \<Longrightarrow>
   guar R (ctx_modify f)"
  unfolding ctx_modify_def by (rule guar_modifyI) (auto simp: admits_at_def apsnd_def map_prod_def)

lemma at_sleep: "admits_at E key R \<Longrightarrow> guar R (sleep dt)"
  unfolding sleep_def by (rule guar_modifyI) (auto simp: admits_at_def)

lemma at_log_call: "admits_at E key R \<Longrightarrow> guar R (log_call key)"
  unfolding log_call_def by (rule guar_modifyI) (auto simp: admits_at_def)

lemma at_append: "admits_at E key R \<Longrightarrow> guar R (append E ty (Some key) p)"
  unfolding append_def by (rule guar_ctx_db_op) (simp add: admits_at_def)

lemma at_persist: "admits_at E key R \<Longrightarrow> guar R (persist_usage E)"
  unfolding persist_usage_def by (rule guar_ctx_db_op) (simp add: admits_at_def)

lemma at_read: "admits_at E key R \<Longrightarrow> guar R (ctx_db_op (\<lambda>c t d. (d, f c d)))"
  by (rule guar_ctx_db_op) (simp add: at_refl)

lemma complete_step_other:
  "k \<noteq> key \<Longrightarrow> cx_completed (complete_step key v c) k = cx_completed c k"
  "k \<noteq> key \<Longrightarrow> cx_unresolved (complete_step key v c) k = cx_unresolved c k"
  by (simp_all add: complete_step_def)

lemmas at_intros = guar_Ret guar_raise guar_bindI guar_ebindI at_ctx_gets at_modify at_sleep at_log_call
  at_append at_persist at_read

lemma at_guards: "admits_at E key R \<Longrightarrow> guar R (checkpoint_guards E)"
proof -
  assume R: "admits_at E key R"
  have "guar R (case d_lease_guard E of None \<Rightarrow> Ret True | Some guard \<Rightarrow> ctx_db_op (\<lambda>c. guard))"
    using R by (cases "d_lease_guard E") (auto simp: admits_at_def intro!: guar_ctx_db_op)
  with R show ?thesis
    unfolding checkpoint_guards_def by (auto intro!: at_intros split: option.splits)
qed

lemma at_finish: "admits_at E key R \<Longrightarrow> guar R (finish_step E key n v)"
  unfolding finish_step_def by (intro at_intros) (auto simp: complete_step_other)

lemma at_loop:
  "admits_at E key R \<Longrightarrow> guar R body \<Longrightarrow> guar R (attempt_loop E key body n left)"
proof (induction left)
  case (Suc left)
  then show ?case
    by (auto intro!: at_intros at_finish split: sum.splits)
qed (simp add: guar_raise)

lemma at_announce:
  assumes R: "admits_at E key R" and v: "\<And>b tok. verify = Some b \<Longrightarrow> guar R (b tok)"
  shows "guar R (announce_step E key token u idem verify)"
proof -
  have "guar R (case verify of None \<Rightarrow> Ret (Inr PNone) | Some v \<Rightarrow> v token)"
    using v by (cases verify) auto
  with R show ?thesis
    unfolding announce_step_def resolve_crash_window_def by (auto intro!: at_intros simp: complete_step_other)
qed

lemma at_step_with_key:
  assumes R: "admits_at E key R" and b: "\<And>tok. guar R (body tok)"
    and v: "\<And>b tok. verify = Some b \<Longrightarrow> guar R (b tok)"
  shows "guar R (step_with_key E key body idem verify n)"
proof -
  have a: "guar R (announce_step E key token u idem verify)" for token u
    by (rule at_announce [OF R]) (rule v)
  show ?thesis
    unfolding step_with_key_def execute_step_def
    by (auto intro!: at_intros R at_guards at_loop a b split: option.splits prod.splits)
qed

lemmas admits_step_with_key = at_step_with_key [OF admits_admits_at]

section \<open>The operations\<close>

text \<open>
  A function is respected when calling it is, with any arguments. \<open>wf_ok P w\<close>: every function that the
  steps of a workflow name, on any path, satisfies \<open>P\<close>.
\<close>

definition respects_fn :: "(('st, 'x) sys \<times> ctx \<Rightarrow> ('st, 'x) sys \<times> ctx \<Rightarrow> bool) \<Rightarrow> 'x pyfn \<Rightarrow> bool" where
  "respects_fn R fn \<longleftrightarrow> (\<forall>args token. guar R (call_fn fn args token))"

primrec wf_ok :: "('x pyfn \<Rightarrow> bool) \<Rightarrow> 'x wf \<Rightarrow> bool" where
  "wf_ok P (WReturn v) = True"
| "wf_ok P (WRaise e) = True"
| "wf_ok P (WStep nm fn idem verify n kwargs k) =
     (P fn \<and> (\<forall>v. verify = Some v \<longrightarrow> P v) \<and> (\<forall>x. wf_ok P (k x)))"
| "wf_ok P (WTool nm args k) = (\<forall>x. wf_ok P (k x))"
| "wf_ok P (WModel nm req k) = (\<forall>x. wf_ok P (k x))"
| "wf_ok P (WCounters k) = (\<forall>x. wf_ok P (k x))"

definition tool_ok :: "('x pyfn \<Rightarrow> bool) \<Rightarrow> 'x tool_spec \<Rightarrow> bool" where
  "tool_ok P spec \<longleftrightarrow> P (ts_fn spec) \<and> (\<forall>v. ts_verify spec = Some v \<longrightarrow> P v)"

text \<open>Everything a run can call: the tools, the provider, the steps of every registered workflow.\<close>

definition respects_code ::
  "('st, 'x) deps \<Rightarrow> (('st, 'x) sys \<times> ctx \<Rightarrow> ('st, 'x) sys \<times> ctx \<Rightarrow> bool) \<Rightarrow> bool" where
  "respects_code E R \<longleftrightarrow>
     (\<forall>nm spec. lookup_tool (d_registry E) nm = Inr spec \<longrightarrow> tool_ok (respects_fn R) spec) \<and>
     (\<forall>req. guar R (outside (pv_complete (d_provider E) req))) \<and>
     (\<forall>nm f v. lookup_workflow (d_registry E) nm = Inr f \<longrightarrow> wf_ok (respects_fn R) (f v))"

lemma respects_fnD: "respects_fn R fn \<Longrightarrow> guar R (call_fn fn args token)"
  by (simp add: respects_fn_def)

lemma admits_call_fn: "admits_all E R \<Longrightarrow> respects_fn R fn"
  unfolding respects_fn_def call_fn_def
  by (auto intro!: guar_bindI admits_ctx_gets admits_outside simp: admits_all_def)

lemma wf_ok_mono: "wf_ok P w \<Longrightarrow> (\<And>fn. P fn \<Longrightarrow> Q fn) \<Longrightarrow> wf_ok Q w"
  by (induction w) auto

lemma admits_code: "admits_all E R \<Longrightarrow> respects_code E R"
proof -
  assume A: "admits_all E R"
  have "wf_ok (\<lambda>_. True) w" for w :: "'b wf" by (induction w) simp_all
  then have "wf_ok (respects_fn R) w" for w using wf_ok_mono admits_call_fn [OF A] by blast
  then show ?thesis
    using A by (simp add: respects_code_def tool_ok_def admits_call_fn admits_outside)
qed

lemma admits_ctx_step:
  assumes R: "admits E R" and K: "admits_keys R" and fn: "respects_fn R fn"
    and v: "\<And>v. verify = Some v \<Longrightarrow> respects_fn R v"
  shows "guar R (ctx_step E nm fn idem verify n kwargs)"
proof -
  have "guar R (step_with_key E key (call_fn fn kwargs) idem (map_option (\<lambda>v. call_fn v kwargs) verify) n)" for key
    by (rule admits_step_with_key [OF R]) (use fn v in \<open>auto intro: respects_fnD\<close>)
  then show ?thesis
    unfolding ctx_step_def by (auto intro!: guar_bindI guar_ebindI admits_next_key [OF K])
qed

lemma admits_tool_body: "admits E R \<Longrightarrow> respects_fn R (ts_fn spec) \<Longrightarrow> guar R (tool_body spec args token)"
  unfolding tool_body_def by (intro admits_intros respects_fnD) simp_all

lemma admits_call_tool:
  assumes R: "admits E R" and K: "admits_keys R" and C: "respects_code E R"
  shows "guar R (ctx_call_tool E nm args)"
proof (cases "lookup_tool (d_registry E) nm")
  case (Inr spec)
  then have spec: "tool_ok (respects_fn R) spec" using C by (auto simp: respects_code_def)
  have "guar R (step_with_key E key (tool_body spec args) (ts_idempotency spec)
      (map_option (\<lambda>v. call_fn v args) (ts_verify spec)) None)" for key
    by (rule admits_step_with_key [OF R])
      (use spec in \<open>auto intro: admits_tool_body [OF R] respects_fnD simp: tool_ok_def\<close>)
  with Inr show ?thesis
    unfolding ctx_call_tool_def
    by (auto intro!: guar_bindI guar_ebindI admits_next_key [OF K] admits_append [OF R] split: prod.splits)
qed (simp add: ctx_call_tool_def guar_raise)

lemma admits_model_tail:
  "admits E R \<Longrightarrow> guar R (bind (ctx_modify (\<lambda>c. c\<lparr>cx_budget := (cx_budget c)
        \<lparr>bt_usage := add_model_usage i j k (bt_usage (cx_budget c))\<rparr>\<rparr>)) (\<lambda>_.
     bind (persist_usage E) (\<lambda>_. ebind (append E ty sk p) (\<lambda>_. Ret (Inr x)))))"
  by (intro admits_intros) simp_all

lemma admits_ctx_model:
  assumes R: "admits E R" and K: "admits_keys R" and C: "respects_code E R"
  shows "guar R (ctx_model E nm req)"
proof -
  have body: "guar R (model_body E req tok)" for tok
    using C unfolding model_body_def by (intro guar_ebindI guar_Ret) (auto simp: respects_code_def)
  have "guar R (step_with_key E key (model_body E req) AT_LEAST_ONCE None None)" for key
    by (rule admits_step_with_key [OF R]) (auto intro: body)
  then show ?thesis
    unfolding ctx_model_def
    by (auto intro!: guar_bindI guar_ebindI admits_next_key [OF K] admits_model_tail [OF R] split: prod.splits)
qed

lemma admits_counters: "admits E R \<Longrightarrow> (\<And>x. guar R (k x)) \<Longrightarrow> guar R (bind (ctx_gets f) k)"
  by (intro guar_bindI admits_ctx_gets) simp_all

lemma admits_interp:
  assumes R: "admits E R" and K: "admits_keys R" and C: "respects_code E R"
  shows "wf_ok (respects_fn R) w \<Longrightarrow> guar R (interp E w)"
  by (induction w)
    (auto intro!: guar_bindI admits_ctx_step [OF R K] admits_call_tool [OF R K C] admits_ctx_model [OF R K C]
      admits_counters [OF R] guar_raise)

lemma admits_interp_all:
  assumes A: "admits_all E R"
  shows "guar R (interp E w)"
proof -
  have "wf_ok (\<lambda>_. True) w" by (induction w) simp_all
  then have "wf_ok (respects_fn R) w" by (rule wf_ok_mono) (rule admits_call_fn [OF A])
  then show ?thesis
    by (rule admits_interp [OF admits_all_admits [OF A] admits_all_keys [OF A] admits_code [OF A]])
qed

lemma admits_fail: "admits E R \<Longrightarrow> guar R (fail E nm m b d)"
  unfolding fail_def Let_def by (intro admits_intros)

lemma admits_handle: "admits E R \<Longrightarrow> guar R (handle E e)"
  by (cases e) (simp_all only: handle.simps Let_def, (intro admits_intros admits_fail; simp)+)

lemma admits_complete: "admits E R \<Longrightarrow> guar R (complete E v)"
  unfolding complete_def by (intro admits_intros)

lemma admits_drive:
  assumes R: "admits E R" and K: "admits_keys R" and C: "respects_code E R"
  shows "guar R (drive E rr)"
proof (cases "lookup_workflow (d_registry E) (rr_workflow rr)")
  case (Inr f)
  then have "guar R (interp E (f (rr_input rr)))"
    using C by (intro admits_interp [OF R K C]) (auto simp: respects_code_def)
  with Inr show ?thesis
    unfolding drive_def
    by (auto intro!: guar_bindI admits_handle [OF R] admits_complete [OF R] split: sum.splits)
qed (simp add: drive_def admits_fail [OF R])

section \<open>Attempts over the system\<close>

text \<open>
  \<open>R\<close> on systems is a guarantee of an attempt of run \<open>r\<close> when the atoms of a context of that run
  respect it, and the engine's own statements do.
\<close>

definition of_run :: "uuid \<Rightarrow> (('st, 'x) sys \<Rightarrow> ('st, 'x) sys \<Rightarrow> bool) \<Rightarrow>
    ('st, 'x) sys \<times> ctx \<Rightarrow> ('st, 'x) sys \<times> ctx \<Rightarrow> bool" where
  "of_run r R \<sigma> \<sigma>' \<longleftrightarrow> (cx_run_id (snd \<sigma>) = r \<longrightarrow> R (fst \<sigma>) (fst \<sigma>') \<and> cx_run_id (snd \<sigma>') = r)"

lemma guar_db_op:
  "(\<And>s. R s (s\<lparr>sy_db := fst (f (sy_now s) (sy_db s))\<rparr>)) \<Longrightarrow> guar R (db_op f)"
  unfolding db_op_def by (rule guar_atomI) (auto simp: Let_def split_def)

lemma guar_execute:
  assumes ctx: "admits E (of_run r R)" "admits_keys (of_run r R)" "respects_code E (of_run r R)"
    and refl: "\<And>s. R s s"
    and id: "\<And>d rr. st_get_run (d_store E) r d = Some rr \<Longrightarrow> rr_run_id rr = r"
    and bump: "\<And>s. R s (s\<lparr>sy_db := fst (st_bump_attempt (d_store E) (sy_now s) r (sy_db s))\<rparr>)"
    and app: "\<And>s ty sk p. R s (s\<lparr>sy_db := fst (st_append_event (d_store E) (sy_now s) r ty sk p (sy_db s))\<rparr>)"
    and status: "\<And>s st res err. R s (s\<lparr>sy_db := fst (st_set_status (d_store E) (sy_now s) r st res err (sy_db s))\<rparr>)"
  shows "guar R (execute E r)"
proof -
  have gets: "guar R (gets f)" for f :: "('a, 'b) sys \<Rightarrow> 'c"
    by (rule guar_getsI) (rule refl)
  have drive: "guar R (local (drive E rr) (new_context rr events))" if "rr_run_id rr = r" for rr events
  proof (rule guar_local_inv [where J = "\<lambda>c. cx_run_id c = r"])
    show "guar (\<lambda>\<sigma> \<sigma>'. cx_run_id (snd \<sigma>) = r \<longrightarrow> R (fst \<sigma>) (fst \<sigma>') \<and> cx_run_id (snd \<sigma>') = r) (drive E rr)"
      using admits_drive [OF ctx] by (simp add: of_run_def [abs_def])
    show "cx_run_id (new_context rr events) = r"
      using that by (simp add: cx_run_id_def new_context_def)
  qed
  have attempt: "guar R (run_attempt E r)"
    unfolding run_attempt_def
    by (rule guar_bind_gets)
      (auto intro!: refl guar_bindI gets guar_raise drive dest: id split: option.splits prod.splits)
  have pre: "guar R (begin_attempt E r rr)" for rr
    unfolding begin_attempt_def
    by (auto intro!: guar_ebindI guar_db_op bump app status guar_raise split: option.splits)
  show ?thesis
    unfolding execute_def
    by (auto intro!: guar_bindI gets guar_raise guar_ebindI pre attempt split: option.splits)
qed

lemma guar_execute_all:
  assumes ctx: "admits_all E (of_run r R)" and refl: "\<And>s. R s s"
    and id: "\<And>d rr. st_get_run (d_store E) r d = Some rr \<Longrightarrow> rr_run_id rr = r"
    and bump: "\<And>s. R s (s\<lparr>sy_db := fst (st_bump_attempt (d_store E) (sy_now s) r (sy_db s))\<rparr>)"
    and app: "\<And>s ty sk p. R s (s\<lparr>sy_db := fst (st_append_event (d_store E) (sy_now s) r ty sk p (sy_db s))\<rparr>)"
    and status: "\<And>s st res err. R s (s\<lparr>sy_db := fst (st_set_status (d_store E) (sy_now s) r st res err (sy_db s))\<rparr>)"
  shows "guar R (execute E r)"
  by (rule guar_execute [OF admits_all_admits [OF ctx] admits_all_keys [OF ctx] admits_code [OF ctx] refl id bump app status])

context guaranteed_store
begin

text \<open>A relation on the database that every operation of the store guarantees.\<close>

definition on_db :: "('st, 'x) sys \<Rightarrow> ('st, 'x) sys \<Rightarrow> bool" where
  "on_db s s' \<longleftrightarrow> R (sy_db s) (sy_db s')"

theorem guar_execute_db:
  assumes E: "d_store E = S"
    and g: "\<And>guard t d. d_lease_guard E = Some guard \<Longrightarrow> R d (fst (guard t d))"
    and id: "\<And>d rr. st_get_run S r d = Some rr \<Longrightarrow> rr_run_id rr = r"
  shows "guar on_db (execute E r)"
proof (rule guar_execute_all)
  show "admits_all E (of_run r on_db)"
    using g by (auto simp: admits_all_def admits_def admits_keys_def of_run_def on_db_def cx_run_id_def E R_ops)
qed (simp_all add: on_db_def E R_ops id)

end

end
