(* ===== verification/Postgres_Inv.thy ===== *)
theory Postgres_Inv
  imports Postgres Engine_Inv Guarantees
begin

text \<open>
  The Postgres backend keeps its contracts: the well-formedness of its tables (\<open>pg_wf\<close>: unique
  keys, gapless event numbers, a queue row only for an existing run), append-only histories, the
  log contract, and the lease contract. Every locale of the theory \<open>Store\<close> is interpreted here on
  \<open>pg_store\<close>.
\<close>

section \<open>Well-formed tables\<close>

definition run_seqs :: "uuid \<Rightarrow> event_row list \<Rightarrow> nat list" where
  "run_seqs r es = map (\<lambda>e. ev_seq (er_event e)) (filter (\<lambda>e. er_run_id e = r) es)"

text \<open>Every run's events are numbered 1, 2, ... up to its counter, in the order they were written.\<close>

definition gapless :: "run_row list \<Rightarrow> event_row list \<Rightarrow> bool" where
  "gapless rs es \<longleftrightarrow> (\<forall>w \<in> set rs. run_seqs (rw_run_id w) es = [1..<Suc (rw_event_seq w)])"

definition runs_wf :: "run_row list \<Rightarrow> event_row list \<Rightarrow> bool" where
  "runs_wf rs es \<longleftrightarrow>
     distinct (map rw_run_id rs) \<and> distinct (map rw_idempotency_key rs) \<and>
     (\<forall>e \<in> set es. er_run_id e \<in> rw_run_id ` set rs) \<and> gapless rs es"

definition pg_wf :: "pg \<Rightarrow> bool" where
  "pg_wf db \<longleftrightarrow>
     runs_wf (pg_runs db) (pg_events db) \<and>
     distinct (map q_run_id (pg_run_queue db)) \<and>
     q_run_id ` set (pg_run_queue db) \<subseteq> rw_run_id ` set (pg_runs db)"

lemma pg_wf_empty: "pg_wf pg_empty"
  by (simp add: pg_wf_def runs_wf_def gapless_def pg_empty_def)

subsection \<open>Looking rows up\<close>

lemma find_run_SomeD: "find_run r db = Some w \<Longrightarrow> w \<in> set (pg_runs db) \<and> rw_run_id w = r"
  unfolding find_run_def by (drule row_find_SomeD) simp

lemma find_run_None: "find_run r db = None \<longleftrightarrow> r \<notin> rw_run_id ` set (pg_runs db)"
  by (auto simp: find_run_def row_find_None)

lemma find_update_run:
  "(\<And>w. rw_run_id (f w) = rw_run_id w) \<Longrightarrow>
   find_run r (update_run r' f db) = (if r' = r then map_option f (find_run r db) else find_run r db)"
  by (auto simp: find_run_def update_run_def row_find_update map_option_case
      split: option.splits dest: row_find_SomeD)

lemma pg_events_update_run [simp]: "pg_events (update_run r f db) = pg_events db"
  by (simp add: update_run_def)

lemma pg_run_queue_update_run [simp]: "pg_run_queue (update_run r f db) = pg_run_queue db"
  by (simp add: update_run_def)

lemma find_run_events [simp]: "find_run r (db\<lparr>pg_events := es\<rparr>) = find_run r db"
  by (simp add: find_run_def)

lemma find_run_queue [simp]: "find_run r (db\<lparr>pg_run_queue := qs\<rparr>) = find_run r db"
  by (simp add: find_run_def)

lemma run_ids_update_run:
  "(\<And>w. rw_run_id (f w) = rw_run_id w) \<Longrightarrow>
   map rw_run_id (pg_runs (update_run r f db)) = map rw_run_id (pg_runs db)"
  by (simp add: update_run_def map_row_update)

lemma run_id_set_update_run:
  "(\<And>w. rw_run_id (f w) = rw_run_id w) \<Longrightarrow>
   rw_run_id ` set (pg_runs (update_run r f db)) = rw_run_id ` set (pg_runs db)"
  by (metis run_ids_update_run set_map)

subsection \<open>Updates of one run\<close>

lemma pg_wf_update_run:
  assumes "pg_wf db"
    and "\<And>w. rw_run_id (f w) = rw_run_id w" and "\<And>w. rw_idempotency_key (f w) = rw_idempotency_key w"
    and "\<And>w. rw_event_seq (f w) = rw_event_seq w"
  shows "pg_wf (update_run r f db)"
proof -
  have "gapless (pg_runs (update_run r f db)) (pg_events db)"
    using assms by (auto simp: gapless_def update_run_def row_update_def pg_wf_def runs_wf_def)
  moreover have "map rw_idempotency_key (pg_runs (update_run r f db)) = map rw_idempotency_key (pg_runs db)"
    using assms(3) by (simp add: update_run_def map_row_update)
  ultimately show ?thesis
    using assms(1) by (simp add: pg_wf_def runs_wf_def run_ids_update_run [OF assms(2)]
        run_id_set_update_run [OF assms(2)])
qed

lemma run_seqs_append: "run_seqs r (es @ es') = run_seqs r es @ run_seqs r es'"
  by (simp add: run_seqs_def)

text \<open>The counter is ahead of every number in use: the primary key never fires.\<close>

lemma next_seq_free:
  assumes "pg_wf db" and "find_run r db = Some w"
  shows "\<not> (\<exists>e \<in> set (pg_events db). er_run_id e = r \<and> ev_seq (er_event e) = rw_event_seq w + 1)"
proof
  assume "\<exists>e \<in> set (pg_events db). er_run_id e = r \<and> ev_seq (er_event e) = rw_event_seq w + 1"
  then have "rw_event_seq w + 1 \<in> set (run_seqs r (pg_events db))"
    by (force simp: run_seqs_def)
  moreover have "run_seqs r (pg_events db) = [1..<Suc (rw_event_seq w)]"
    using assms by (auto simp: pg_wf_def runs_wf_def gapless_def dest: find_run_SomeD)
  ultimately show False by simp
qed

definition new_event ::
  "rat \<Rightarrow> nat \<Rightarrow> event_type \<Rightarrow> string option \<Rightarrow> pyval \<Rightarrow> event" where
  "new_event t seq ty sk p =
     \<lparr>ev_seq = seq, ev_type = ty, ev_step_key = sk, ev_payload = json_norm p, ev_created_at = t\<rparr>"

text \<open>The append on a well-formed database, all branches.\<close>

lemma append_event_conn_wf:
  assumes "pg_wf db"
  shows "append_event_conn t r ty sk p db =
    (if \<not> json_ok p then (db, Inl data_error)
     else case find_run r db of
       None \<Rightarrow> (db, Inr None)
     | Some w \<Rightarrow>
         ((update_run r (\<lambda>w'. w'\<lparr>rw_event_seq := Suc (rw_event_seq w), rw_updated_at := t\<rparr>) db)
            \<lparr>pg_events := pg_events db @
               [\<lparr>er_run_id = r, er_event = new_event t (Suc (rw_event_seq w)) ty sk p\<rparr>]\<rparr>,
          Inr (Some (Suc (rw_event_seq w)))))"
  using next_seq_free [OF assms]
  by (auto simp: append_event_conn_def Let_def new_event_def split: option.splits)

lemma pg_wf_append_new:
  assumes wf: "pg_wf db" and w: "find_run r db = Some w"
  shows "pg_wf ((update_run r (\<lambda>w'. w'\<lparr>rw_event_seq := Suc (rw_event_seq w), rw_updated_at := t\<rparr>) db)
            \<lparr>pg_events := pg_events db @ [\<lparr>er_run_id = r, er_event = new_event t (Suc (rw_event_seq w)) ty sk p\<rparr>]\<rparr>)"
    (is "pg_wf (?db1\<lparr>pg_events := ?es\<rparr>)")
proof -
  note wr = find_run_SomeD [OF w]
  have ids: "map rw_run_id (pg_runs ?db1) = map rw_run_id (pg_runs db)"
    by (rule run_ids_update_run) simp
  have keys: "map rw_idempotency_key (pg_runs ?db1) = map rw_idempotency_key (pg_runs db)"
    by (simp add: update_run_def map_row_update)
  have "run_seqs (rw_run_id x) ?es = [1..<Suc (rw_event_seq x)]" if x: "x \<in> set (pg_runs ?db1)" for x
  proof -
    from x obtain y where y: "y \<in> set (pg_runs db)"
      and xy: "x = (if rw_run_id y = r then y\<lparr>rw_event_seq := Suc (rw_event_seq w), rw_updated_at := t\<rparr> else y)"
      by (auto simp: update_run_def row_update_def)
    have sy: "run_seqs (rw_run_id y) (pg_events db) = [1..<Suc (rw_event_seq y)]"
      using wf y by (simp add: pg_wf_def runs_wf_def gapless_def)
    show ?thesis
    proof (cases "rw_run_id y = r")
      case True
      have "y = w"
        using True y wr wf by (auto simp: distinct_map inj_on_def pg_wf_def runs_wf_def)
      with True sy xy show ?thesis
        by (simp add: run_seqs_append) (simp add: run_seqs_def new_event_def)
    next
      case False
      with sy xy show ?thesis
        by (simp add: run_seqs_append) (simp add: run_seqs_def)
    qed
  qed
  then have "gapless (pg_runs ?db1) ?es" by (simp add: gapless_def)
  moreover have "rw_run_id ` set (pg_runs ?db1) = rw_run_id ` set (pg_runs db)"
    by (metis ids set_map)
  ultimately show ?thesis
    using wf wr ids keys by (auto simp: pg_wf_def runs_wf_def)
qed

lemma pg_wf_append_event: "pg_wf db \<Longrightarrow> pg_wf (fst (append_event_conn t r ty sk p db))"
  by (auto simp: append_event_conn_wf pg_wf_append_new split: option.splits)

subsection \<open>The other operations\<close>

lemma pg_wf_set_status: "pg_wf db \<Longrightarrow> pg_wf (fst (pg_set_status t r st res err db))"
  by (auto simp: pg_set_status_def intro: pg_wf_update_run)

lemma pg_wf_bump_attempt: "pg_wf db \<Longrightarrow> pg_wf (fst (pg_bump_attempt t r db))"
  by (auto simp: pg_bump_attempt_def intro: pg_wf_update_run)

lemma pg_wf_save_usage: "pg_wf db \<Longrightarrow> pg_wf (pg_save_usage t r u db)"
  by (auto simp: pg_save_usage_def intro: pg_wf_update_run)

lemma pg_wf_request_cancel: "pg_wf db \<Longrightarrow> pg_wf (fst (pg_request_cancel t r db))"
  by (auto simp: pg_request_cancel_def intro!: pg_wf_append_event pg_wf_update_run
      split: option.splits)

lemma pg_wf_queue_update:
  assumes "pg_wf db" and "\<And>q. q_run_id (f q) = q_run_id q"
  shows "pg_wf (db\<lparr>pg_run_queue := row_update P f (pg_run_queue db)\<rparr>)"
proof -
  have ids: "map q_run_id (row_update P f (pg_run_queue db)) = map q_run_id (pg_run_queue db)"
    by (rule map_row_update) (rule assms(2))
  then have "q_run_id ` set (row_update P f (pg_run_queue db)) = q_run_id ` set (pg_run_queue db)"
    by (metis set_map)
  with ids assms(1) show ?thesis by (simp add: pg_wf_def)
qed

lemma pg_wf_claim: "pg_wf db \<Longrightarrow> pg_wf (fst (pg_claim t w l db))"
  by (auto simp: pg_claim_def intro: pg_wf_queue_update split: list.splits)

lemma pg_wf_heartbeat: "pg_wf db \<Longrightarrow> pg_wf (fst (pg_heartbeat t r w l db))"
  by (auto simp: pg_heartbeat_def intro: pg_wf_queue_update)

lemma pg_wf_release: "pg_wf db \<Longrightarrow> pg_wf (pg_release t r w l db)"
  by (auto simp: pg_release_def intro: pg_wf_queue_update)

lemma pg_wf_dequeue: "pg_wf db \<Longrightarrow> pg_wf (pg_dequeue r db)"
  by (auto simp: pg_wf_def pg_dequeue_def row_delete_def distinct_map_filter)

lemma pg_wf_insert_run:
  assumes wf: "pg_wf db"
    and new: "find_run (rw_run_id w) db = None" "rw_idempotency_key w \<notin> rw_idempotency_key ` set (pg_runs db)"
    and "rw_event_seq w = 0" and "q_run_id q = rw_run_id w"
  shows "pg_wf (db\<lparr>pg_runs := pg_runs db @ [w], pg_run_queue := pg_run_queue db @ [q]\<rparr>)"
proof -
  have fresh: "rw_run_id w \<notin> rw_run_id ` set (pg_runs db)" using new(1) by (simp add: find_run_None)
  have "er_run_id e \<noteq> rw_run_id w" if "e \<in> set (pg_events db)" for e
    using that fresh wf by (metis pg_wf_def runs_wf_def)
  then have "run_seqs (rw_run_id w) (pg_events db) = []"
    by (auto simp: run_seqs_def)
  then have "gapless (pg_runs db @ [w]) (pg_events db)"
    using wf assms(4) by (auto simp: gapless_def pg_wf_def runs_wf_def)
  moreover have "rw_run_id w \<notin> q_run_id ` set (pg_run_queue db)"
    using fresh wf by (auto simp: pg_wf_def)
  ultimately show ?thesis
    using wf fresh new(2) assms(5) by (auto simp: pg_wf_def runs_wf_def)
qed

lemma json_ok_run_started [simp]:
  "json_ok (run_started_payload wn p b) = json_ok p"
  by (simp add: run_started_payload_def json_native_ok [OF json_native_budget, simplified])

text \<open>A first submission under a key: row, queue row and first event, at once.\<close>

lemma pg_submit_run_new:
  assumes wf: "pg_wf db" and p: "json_ok p"
    and key: "row_find (\<lambda>w. rw_idempotency_key w = k) (pg_runs db) = None"
    and r: "find_run r db = None"
  shows "pg_wf (fst (pg_submit_run t r wn p k b db))"
    and "snd (pg_submit_run t r wn p k b db) =
           Inr (to_run ((new_run_row t r wn p k b)\<lparr>rw_event_seq := 1\<rparr>), True)"
    and "pg_load_events r (fst (pg_submit_run t r wn p k b db)) =
           [new_event t 1 RUN_STARTED None (run_started_payload wn p b)]"
    and "pg_run_queue (fst (pg_submit_run t r wn p k b db)) = pg_run_queue db @ [new_queue_row t r]"
    and "fst (pg_submit_run t r wn p k b db) =
           fst (append_event_conn t r RUN_STARTED None (run_started_payload wn p b)
             (db\<lparr>pg_runs := pg_runs db @ [new_run_row t r wn p k b],
                pg_run_queue := pg_run_queue db @ [new_queue_row t r]\<rparr>))"
proof -
  let ?db1 = "db\<lparr>pg_runs := pg_runs db @ [new_run_row t r wn p k b],
                pg_run_queue := pg_run_queue db @ [new_queue_row t r]\<rparr>"
  have wf1: "pg_wf ?db1"
    using key r by (intro pg_wf_insert_run [OF wf])
      (auto simp: new_run_row_def new_queue_row_def row_find_None)
  have f1: "find_run r ?db1 = Some (new_run_row t r wn p k b)"
    using r by (simp add: find_run_def row_find_append new_run_row_def)
  have old: "filter (\<lambda>e. er_run_id e = r) (pg_events db) = []"
    using r wf by (auto simp: find_run_None pg_wf_def runs_wf_def filter_empty_conv)
  have sub: "pg_submit_run t r wn p k b db =
      (fst (append_event_conn t r RUN_STARTED None (run_started_payload wn p b) ?db1),
       Inr (to_run ((new_run_row t r wn p k b)\<lparr>rw_event_seq := 1\<rparr>), True))"
    using p key r f1
    by (simp add: pg_submit_run_def append_event_conn_wf [OF wf1] Let_def find_update_run)
      (simp add: new_run_row_def)
  show "pg_wf (fst (pg_submit_run t r wn p k b db))"
    using sub pg_wf_append_event [OF wf1] by simp
  show "fst (pg_submit_run t r wn p k b db) =
      fst (append_event_conn t r RUN_STARTED None (run_started_payload wn p b) ?db1)"
    using sub by simp
  show "snd (pg_submit_run t r wn p k b db) =
           Inr (to_run ((new_run_row t r wn p k b)\<lparr>rw_event_seq := 1\<rparr>), True)"
    using sub by simp
  show "pg_load_events r (fst (pg_submit_run t r wn p k b db)) =
           [new_event t 1 RUN_STARTED None (run_started_payload wn p b)]"
    using sub p f1 old
    by (simp add: append_event_conn_wf [OF wf1] pg_load_events_def) (simp add: new_run_row_def)
  show "pg_run_queue (fst (pg_submit_run t r wn p k b db)) = pg_run_queue db @ [new_queue_row t r]"
    using sub p f1 by (simp add: append_event_conn_wf [OF wf1])
qed

text \<open>The other branches leave the database alone.\<close>

lemma pg_submit_run_unchanged:
  assumes "\<not> json_ok p \<or> row_find (\<lambda>w. rw_idempotency_key w = k) (pg_runs db) \<noteq> None
           \<or> find_run r db \<noteq> None"
  shows "fst (pg_submit_run t r wn p k b db) = db"
  using assms by (auto simp: pg_submit_run_def split: option.splits)

lemma pg_wf_submit: "pg_wf db \<Longrightarrow> pg_wf (fst (pg_submit_run t r wn p k b db))"
  using pg_submit_run_new(1) pg_submit_run_unchanged by metis

section \<open>Every operation keeps the tables well formed and the history\<close>

interpretation pg_tables: guaranteed_store pg_store "\<lambda>d d'. pg_wf d \<longrightarrow> pg_wf d'"
  by unfold_locales
    (simp_all add: pg_wf_submit pg_wf_append_event pg_wf_set_status pg_wf_bump_attempt
      pg_wf_save_usage pg_wf_request_cancel pg_wf_claim pg_wf_heartbeat pg_wf_release pg_wf_dequeue)

definition history_grows :: "pg \<Rightarrow> pg \<Rightarrow> bool" where
  "history_grows d d' \<longleftrightarrow> extends (pg_events d') (pg_events d)"

lemma append_event_conn_history: "history_grows d (fst (append_event_conn t r ty sk p d))"
  by (auto simp: history_grows_def append_event_conn_def Let_def split: option.splits)

lemma history_update_run: "history_grows d (update_run r f d)"
  by (simp add: history_grows_def)

lemma history_submit: "history_grows d (fst (pg_submit_run t r wn p k b d))"
  using append_event_conn_history [of "d\<lparr>pg_runs := pg_runs d @ [new_run_row t r wn p k b],
      pg_run_queue := pg_run_queue d @ [new_queue_row t r]\<rparr>" t r RUN_STARTED None
      "run_started_payload wn p b"]
  by (auto simp: history_grows_def pg_submit_run_def Let_def split: option.splits prod.splits sum.splits)

lemma history_request_cancel: "history_grows d (fst (pg_request_cancel t r d))"
  using append_event_conn_history [of "update_run r (\<lambda>w. w\<lparr>rw_cancel_requested := True,
      rw_updated_at := t\<rparr>) d" t r CANCEL_REQUESTED None "PDict []"]
  by (auto simp: history_grows_def pg_request_cancel_def split: option.splits)

lemma history_same: "pg_events d' = pg_events d \<Longrightarrow> history_grows d d'"
  by (simp add: history_grows_def)

interpretation pg_history: guaranteed_store pg_store history_grows
  by unfold_locales
    (auto simp: append_event_conn_history history_submit history_request_cancel
      pg_set_status_def pg_bump_attempt_def pg_save_usage_def pg_claim_def
      pg_heartbeat_def pg_release_def pg_dequeue_def intro!: history_same split: list.splits)

section \<open>The log contract\<close>

definition pg_has_run :: "uuid \<Rightarrow> pg \<Rightarrow> bool" where
  "pg_has_run r db \<longleftrightarrow> pg_wf db \<and> find_run r db \<noteq> None"

text \<open>On a well-formed database the order by number is the order of writing.\<close>

lemma run_seqs_sorted: "pg_wf db \<Longrightarrow> sorted (run_seqs r (pg_events db))"
proof (cases "find_run r db")
  case None
  assume "pg_wf db"
  with None have "filter (\<lambda>e. er_run_id e = r) (pg_events db) = []"
    by (auto simp: find_run_None pg_wf_def runs_wf_def filter_empty_conv)
  then show ?thesis by (simp add: run_seqs_def)
next
  case (Some w)
  assume "pg_wf db"
  with Some have "run_seqs r (pg_events db) = [1..<Suc (rw_event_seq w)]"
    by (auto simp: pg_wf_def runs_wf_def gapless_def dest: find_run_SomeD)
  then show ?thesis by (metis sorted_upt)
qed

lemma pg_load_events_wf:
  "pg_wf db \<Longrightarrow> pg_load_events r db = map er_event (filter (\<lambda>e. er_run_id e = r) (pg_events db))"
  using run_seqs_sorted [of db r] unfolding pg_load_events_def run_seqs_def
  by (intro sort_key_id_if_sorted) (simp add: o_def)

lemma pg_load_events_numbers:
  assumes "pg_wf db" and "find_run r db = Some w"
  shows "map ev_seq (pg_load_events r db) = [1..<Suc (rw_event_seq w)]"
proof -
  have "map ev_seq (pg_load_events r db) = run_seqs r (pg_events db)"
    by (simp add: pg_load_events_wf [OF assms(1)] run_seqs_def)
  with assms show ?thesis
    by (auto simp: pg_wf_def runs_wf_def gapless_def dest: find_run_SomeD)
qed

lemma load_events_update_run [simp]: "pg_load_events r (update_run r' f db) = pg_load_events r db"
  by (simp add: pg_load_events_def)

lemma load_events_queue [simp]: "pg_load_events r (db\<lparr>pg_run_queue := qs\<rparr>) = pg_load_events r db"
  by (simp add: pg_load_events_def)

lemma pg_load_append:
  assumes "pg_has_run r db" and "json_ok p"
  shows "\<exists>w. find_run r db = Some w \<and>
           pg_load_events r (fst (append_event_conn t r ty sk p db)) =
             pg_load_events r db @ [new_event t (Suc (rw_event_seq w)) ty sk p]"
proof -
  from assms obtain w where w: "find_run r db = Some w" and wf: "pg_wf db"
    by (auto simp: pg_has_run_def)
  have wf': "pg_wf (fst (append_event_conn t r ty sk p db))"
    using wf by (rule pg_wf_append_event)
  show ?thesis
    unfolding pg_load_events_wf [OF wf'] pg_load_events_wf [OF wf]
    using w assms(2) by (simp add: append_event_conn_wf [OF wf])
qed

lemma find_run_append [store_simps]:
  "pg_wf db \<Longrightarrow> find_run r (fst (append_event_conn t r' ty sk p db)) =
     (if r = r' \<and> json_ok p then map_option (\<lambda>w. w\<lparr>rw_event_seq := Suc (rw_event_seq w),
        rw_updated_at := t\<rparr>) (find_run r db) else find_run r db)"
  by (auto simp: append_event_conn_wf find_update_run split: option.splits)

lemma pg_has_append: "pg_has_run r db \<Longrightarrow> pg_has_run r (fst (append_event_conn t r' ty sk p db))"
  by (auto simp: pg_has_run_def pg_wf_append_event find_run_append)

lemma pg_has_update_run:
  assumes "pg_has_run r db"
    and "\<And>w. rw_run_id (f w) = rw_run_id w" and "\<And>w. rw_idempotency_key (f w) = rw_idempotency_key w"
    and "\<And>w. rw_event_seq (f w) = rw_event_seq w"
  shows "pg_has_run r (update_run r' f db)"
  using assms by (auto simp: pg_has_run_def pg_wf_update_run find_update_run)

lemma pg_has_heartbeat: "pg_has_run r db \<Longrightarrow> pg_has_run r (fst (pg_heartbeat t r' w l db))"
  by (auto simp: pg_has_run_def pg_heartbeat_def pg_wf_queue_update)

text \<open>Whatever leaves the events alone leaves every log alone; whatever keeps the tables well formed
  and the set of runs keeps a run.\<close>

lemma pg_keyless_same: "pg_events d' = pg_events d \<Longrightarrow> keyless_growth pg_store r d d'"
  by (rule keyless_growth_same) (simp add: pg_load_events_def)

lemma pg_load_append_other:
  assumes "pg_has_run r d" and "r' \<noteq> r"
  shows "keyless_growth pg_store r d (fst (append_event_conn t r' ty sk p d))"
  using assms
  by (intro keyless_growth_same)
    (auto simp: pg_load_events_def append_event_conn_def Let_def split: option.splits)

lemma pg_grow_request_cancel:
  assumes "pg_has_run r d"
  shows "pg_has_run r (fst (pg_request_cancel t r' d)) \<and>
         keyless_growth pg_store r d (fst (pg_request_cancel t r' d))"
proof -
  let ?d = "update_run r' (\<lambda>w. w\<lparr>rw_cancel_requested := True, rw_updated_at := t\<rparr>) d"
  have h: "pg_has_run r ?d" using assms by (rule pg_has_update_run) simp_all
  have same: "pg_load_events r ?d = pg_load_events r d" by (simp add: pg_load_events_def)
  have "keyless_growth pg_store r d (fst (append_event_conn t r' CANCEL_REQUESTED None (PDict []) ?d))"
  proof (cases "r' = r")
    case True
    then show ?thesis
      using pg_load_append [of r ?d "PDict []" t CANCEL_REQUESTED None] h same
      by (auto simp: new_event_def keyless_growth_def)
  next
    case False
    then show ?thesis
      using pg_load_append_other [OF h, of r'] same by (simp add: keyless_growth_def)
  qed
  then show ?thesis
    using assms h by (auto simp: pg_request_cancel_def pg_has_append keyless_growth_same
        split: option.splits)
qed

lemma pg_has_queue_update:
  "pg_has_run r d \<Longrightarrow> (\<And>q. q_run_id (f q) = q_run_id q) \<Longrightarrow>
   pg_has_run r (d\<lparr>pg_run_queue := row_update P f (pg_run_queue d)\<rparr>)"
  by (auto simp: pg_has_run_def pg_wf_queue_update)

lemma pg_has_claim: "pg_has_run r d \<Longrightarrow> pg_has_run r (fst (pg_claim t w l d))"
  by (auto simp: pg_claim_def intro: pg_has_queue_update split: list.splits)

lemma pg_has_dequeue: "pg_has_run r d \<Longrightarrow> pg_has_run r (pg_dequeue r' d)"
  using pg_wf_dequeue [of d r'] by (auto simp: pg_has_run_def pg_dequeue_def)

lemma pg_has_set_status: "pg_has_run r d \<Longrightarrow> pg_has_run r (fst (pg_set_status t r' st res err d))"
  by (auto simp: pg_set_status_def intro: pg_has_update_run)

interpretation pg_log: log_store pg_store pg_has_run
proof (unfold_locales, unfold pg_store_simps)
  fix r d p t ty sk
  show "\<not> json_ok p \<Longrightarrow> \<exists>e. append_event_conn t r ty sk p d = (d, Inl e)"
    by (simp add: append_event_conn_def)
  assume h: "pg_has_run r d" and j: "json_ok p"
  show "\<exists>n. snd (append_event_conn t r ty sk p d) = Inr (Some n)"
    using h j by (auto simp: pg_has_run_def append_event_conn_wf)
  show "\<exists>e. ev_type e = ty \<and> ev_step_key e = sk \<and> ev_payload e = json_norm p \<and>
      pg_load_events r (fst (append_event_conn t r ty sk p d)) = pg_load_events r d @ [e]"
    using pg_load_append [OF h j, of t ty sk] by (auto simp: new_event_def)
next
  fix r d
  assume h: "pg_has_run r d"
  show "keyless_growth pg_store r d (fst (append_event_conn t r' ty sk p d))" if "r' \<noteq> r" for t r' ty sk p
    using h that by (rule pg_load_append_other)
  show "pg_has_run r (fst (append_event_conn t r' ty sk p d))" for t r' ty sk p
    using h by (rule pg_has_append)
  show "pg_has_run r (pg_save_usage t r' u d)" for t r' u
    unfolding pg_save_usage_def using h by (rule pg_has_update_run) simp_all
  show "keyless_growth pg_store r d (pg_save_usage t r' u d)" for t r' u
    by (rule pg_keyless_same) (simp add: pg_save_usage_def)
  show "pg_has_run r (fst (pg_set_status t r' st res err d))" for t r' st res err
    using h by (rule pg_has_set_status)
  show "keyless_growth pg_store r d (fst (pg_set_status t r' st res err d))" for t r' st res err
    by (rule pg_keyless_same) (simp add: pg_set_status_def)
  show "pg_has_run r (fst (pg_bump_attempt t r' d))" for t r'
    unfolding pg_bump_attempt_def fst_conv using h by (rule pg_has_update_run) simp_all
  show "keyless_growth pg_store r d (fst (pg_bump_attempt t r' d))" for t r'
    by (rule pg_keyless_same) (simp add: pg_bump_attempt_def)
  show "pg_has_run r (fst (pg_request_cancel t r' d))"
    "keyless_growth pg_store r d (fst (pg_request_cancel t r' d))" for t r'
    using pg_grow_request_cancel [OF h] by blast+
  show "pg_has_run r (fst (pg_claim t w l d))" for t w l
    using h by (rule pg_has_claim)
  show "keyless_growth pg_store r d (fst (pg_claim t w l d))" for t w l
    by (rule pg_keyless_same) (auto simp: pg_claim_def split: list.splits)
  show "pg_has_run r (fst (pg_heartbeat t r' w l d))" for t r' w l
    using h by (rule pg_has_heartbeat)
  show "keyless_growth pg_store r d (fst (pg_heartbeat t r' w l d))" for t r' w l
    by (rule pg_keyless_same) (simp add: pg_heartbeat_def)
  show "pg_has_run r (pg_release t r' w l d)" for t r' w l
    unfolding pg_release_def using h by (rule pg_has_queue_update) simp
  show "keyless_growth pg_store r d (pg_release t r' w l d)" for t r' w l
    by (rule pg_keyless_same) (simp add: pg_release_def)
  show "pg_has_run r (pg_dequeue r' d)" for r'
    using h by (rule pg_has_dequeue)
  show "keyless_growth pg_store r d (pg_dequeue r' d)" for r'
    by (rule pg_keyless_same) (simp add: pg_dequeue_def)
  show "\<exists>rr. pg_get_run r d = Some rr"
    using h by (auto simp: pg_get_run_def pg_has_run_def)
next
  show "pg_get_run r d = Some rr \<Longrightarrow> rr_run_id rr = r" for r d rr
    by (auto simp: pg_get_run_def to_run_def dest: find_run_SomeD)
qed

lemma pg_status_of: "status_of pg_store r d = map_option rw_status (find_run r d)"
  by (cases "find_run r d") (simp_all add: status_of_def pg_get_run_def to_run_def)

interpretation pg_status: run_store pg_store pg_has_run
proof (unfold_locales, unfold pg_store_simps pg_status_of)
  fix r d res err t st
  assume h: "pg_has_run r d" and "json_ok res" "json_ok err"
  moreover from h obtain w where "find_run r d = Some w" by (auto simp: pg_has_run_def)
  ultimately show "snd (pg_set_status t r st res err d) = Inr () \<and>
      map_option rw_status (find_run r (fst (pg_set_status t r st res err d))) = Some st"
    by (simp add: pg_set_status_def find_update_run)
next
  fix r d res err t st
  show "\<not> (json_ok res \<and> json_ok err) \<Longrightarrow> \<exists>e. pg_set_status t r st res err d = (d, Inl e)"
    by (auto simp: pg_set_status_def)
next
  fix r d t r' ty sk p
  assume "pg_has_run r d"
  then have wf: "pg_wf d" by (simp add: pg_has_run_def)
  show "map_option rw_status (find_run r (fst (append_event_conn t r' ty sk p d)))
      = map_option rw_status (find_run r d)"
    by (cases "find_run r d") (auto simp: find_run_append [OF wf])
qed (auto simp: pg_save_usage_def pg_bump_attempt_def find_update_run pg_has_run_def
    intro!: option.map_cong0 simp: option.map_comp)

section \<open>The lease contract\<close>

definition pg_holds :: "rat \<Rightarrow> uuid \<Rightarrow> string \<Rightarrow> pg \<Rightarrow> bool" where
  "pg_holds t r w db \<longleftrightarrow> (\<exists>q \<in> set (pg_run_queue db). leased_to t r w q)"

lemma queue_row_unique:
  "pg_wf db \<Longrightarrow> q \<in> set (pg_run_queue db) \<Longrightarrow> q' \<in> set (pg_run_queue db) \<Longrightarrow>
   q_run_id q = q_run_id q' \<Longrightarrow> q = q'"
  by (auto simp: pg_wf_def distinct_map inj_on_def)

lemma pg_claim_SomeD:
  assumes "snd (pg_claim t w l db) = Some c"
  obtains q where "q \<in> set (pg_run_queue db)" "claimable t q" "q_run_id q = cl_run_id c"
    "cl_attempts c = Suc (q_attempts q)"
    "fst (pg_claim t w l db) = db\<lparr>pg_run_queue := row_update (\<lambda>x. q_run_id x = cl_run_id c)
       (\<lambda>x. x\<lparr>q_locked_until := Some (t + l), q_worker_id := Some w,
              q_attempts := q_attempts x + 1\<rparr>) (pg_run_queue db)\<rparr>"
proof -
  from assms obtain q qs where s: "sort_key q_visible_at (filter (claimable t) (pg_run_queue db)) = q # qs"
    by (auto simp: pg_claim_def split: list.splits)
  then have "q \<in> set (sort_key q_visible_at (filter (claimable t) (pg_run_queue db)))" by simp
  then have "q \<in> set (pg_run_queue db)" "claimable t q" by simp_all
  then show thesis using assms s by (intro that) (auto simp: pg_claim_def)
qed

lemma claimable_not_leased: "claimable t q \<Longrightarrow> \<not> leased_to t r w q"
  by (auto simp: claimable_def leased_to_def split: option.splits)

lemma pg_holds_update:
  "pg_holds t r w (db\<lparr>pg_run_queue := row_update P f (pg_run_queue db)\<rparr>) \<longleftrightarrow>
     (\<exists>q \<in> set (pg_run_queue db). leased_to t r w (if P q then f q else q))"
  by (simp add: pg_holds_def row_update_def del: if_image_distrib)

lemma pg_holds_update_other:
  assumes "\<And>q. P q \<Longrightarrow> leased_to t r w (f q) = leased_to t r w q"
  shows "pg_holds t r w (db\<lparr>pg_run_queue := row_update P f (pg_run_queue db)\<rparr>) = pg_holds t r w db"
  unfolding pg_holds_update using assms by (auto simp: pg_holds_def)

interpretation pg_lease: lease_store pg_store pg_wf pg_holds
proof (unfold_locales, unfold pg_store_simps)
  fix d t r w w' t'
  show "pg_wf d \<Longrightarrow> pg_holds t r w d \<Longrightarrow> pg_holds t r w' d \<Longrightarrow> w = w'"
    unfolding pg_holds_def leased_to_def by (metis option.inject queue_row_unique)
  show "pg_holds t r w d \<Longrightarrow> t' \<le> t \<Longrightarrow> pg_holds t' r w d"
    by (force simp: pg_holds_def leased_to_def split: option.splits)
next
  fix d t r w l
  show "pg_wf d \<Longrightarrow> snd (pg_heartbeat t r w l d) = pg_holds t r w d"
    by (simp add: pg_heartbeat_def pg_holds_def)
  fix t'
  show "pg_wf d \<Longrightarrow> pg_holds t r w d \<Longrightarrow>
      pg_holds t' r w (fst (pg_heartbeat t r w l d)) = (t' < t + l)"
    by (auto simp: pg_heartbeat_def pg_holds_update)
      (auto simp: pg_holds_def leased_to_def dest: queue_row_unique split: if_splits)
  fix r' w'
  show "pg_wf d \<Longrightarrow> (r', w') \<noteq> (r, w) \<Longrightarrow>
      pg_holds t' r' w' (fst (pg_heartbeat t r w l d)) = pg_holds t' r' w' d"
    unfolding pg_heartbeat_def fst_conv by (rule pg_holds_update_other) (auto simp: leased_to_def)
  show "pg_wf d \<Longrightarrow> \<not> pg_holds t' r w (pg_release t r w l d)"
    by (auto simp: pg_release_def pg_holds_update) (auto simp: leased_to_def split: if_splits)
  show "pg_wf d \<Longrightarrow> (r', w') \<noteq> (r, w) \<Longrightarrow>
      pg_holds t' r' w' (pg_release t r w l d) = pg_holds t' r' w' d"
    unfolding pg_release_def by (rule pg_holds_update_other) (auto simp: leased_to_def)
next
  fix d t w l c w' t' r'
  show "snd (pg_claim t w l d) = None \<Longrightarrow> fst (pg_claim t w l d) = d"
    by (auto simp: pg_claim_def split: list.splits)
  assume wf: "pg_wf d" and cl: "snd (pg_claim t w l d) = Some c"
  obtain q where q: "q \<in> set (pg_run_queue d)" "claimable t q" "q_run_id q = cl_run_id c"
    "cl_attempts c = Suc (q_attempts q)" and d': "fst (pg_claim t w l d) =
      d\<lparr>pg_run_queue := row_update (\<lambda>x. q_run_id x = cl_run_id c) (\<lambda>x. x\<lparr>q_locked_until := Some (t + l),
        q_worker_id := Some w, q_attempts := q_attempts x + 1\<rparr>) (pg_run_queue d)\<rparr>"
    by (rule pg_claim_SomeD [OF cl])
  show "\<not> pg_holds t (cl_run_id c) w' d"
  proof
    assume "pg_holds t (cl_run_id c) w' d"
    then obtain x where x: "x \<in> set (pg_run_queue d)" "leased_to t (cl_run_id c) w' x"
      by (auto simp: pg_holds_def)
    then have "q_run_id x = q_run_id q" using q(3) by (simp add: leased_to_def)
    then have "x = q" by (rule queue_row_unique [OF wf x(1) q(1)])
    with x(2) claimable_not_leased [OF q(2)] show False by simp
  qed
  show "pg_holds t' (cl_run_id c) w (fst (pg_claim t w l d)) = (t' < t + l)"
    unfolding d' pg_holds_update using q by (auto simp: leased_to_def split: if_splits)
  show "r' \<noteq> cl_run_id c \<Longrightarrow> pg_holds t' r' w' (fst (pg_claim t w l d)) = pg_holds t' r' w' d"
    unfolding d' by (rule pg_holds_update_other) (auto simp: leased_to_def)
qed

end
