(* ===== verification/System.thy ===== *)
theory System
  imports Worker Postgres_Inv
begin

text \<open>
  The whole system over Postgres: any number of workers, their atoms interleaved in any order with
  each other, with heartbeats, with requests to the API, with the clock and with the outside world;
  a worker may be killed between any two of its atoms. What every atom guarantees becomes an
  invariant of every reachable state.
\<close>

record 'x cluster =
  cs_sys :: "(pg, 'x) sys"
  cs_threads :: "(pg, 'x) worker_prog list"

text \<open>One step. \<open>E\<close> carries the Postgres store; its lease guard is not used by workers.\<close>

inductive cluster_step :: "(pg, 'x) deps \<Rightarrow> 'x cluster \<Rightarrow> 'x cluster \<Rightarrow> bool" for E where
  submit:
    "cluster_step E cl (cl\<lparr>cs_sys := (cs_sys cl)\<lparr>sy_db :=
       fst (pg_submit_run (sy_now (cs_sys cl)) r wn p k b (sy_db (cs_sys cl)))\<rparr>\<rparr>)"
| cancel:
    "cluster_step E cl (cl\<lparr>cs_sys := (cs_sys cl)\<lparr>sy_db :=
       fst (pg_request_cancel (sy_now (cs_sys cl)) r (sy_db (cs_sys cl)))\<rparr>\<rparr>)"
| tick: "0 \<le> dt \<Longrightarrow> cluster_step E cl (cl\<lparr>cs_sys := (cs_sys cl)\<lparr>sy_now := sy_now (cs_sys cl) + dt\<rparr>\<rparr>)"
| world: "cluster_step E cl (cl\<lparr>cs_sys := (cs_sys cl)\<lparr>sy_ext := x\<rparr>\<rparr>)"
| heartbeat: "cluster_step E cl (cl\<lparr>cs_sys := fst (run (heartbeat_tick E w r) (cs_sys cl))\<rparr>)"
| spawn: "cluster_step E cl (cl\<lparr>cs_threads := cs_threads cl @ [run_once E w st]\<rparr>)"
| kill: "cluster_step E cl (cl\<lparr>cs_threads := take i (cs_threads cl) @ drop (Suc i) (cs_threads cl)\<rparr>)"
| atom:
    "i < length (cs_threads cl) \<Longrightarrow> cs_threads cl ! i = Atom f \<Longrightarrow>
     cluster_step E cl (cl\<lparr>cs_sys := fst (f (cs_sys cl)),
                           cs_threads := (cs_threads cl)[i := snd (f (cs_sys cl))]\<rparr>)"

inductive cluster_reach :: "(pg, 'x) deps \<Rightarrow> 'x cluster \<Rightarrow> 'x cluster \<Rightarrow> bool" for E c0 where
  start: "cluster_reach E c0 c0"
| step: "cluster_reach E c0 c \<Longrightarrow> cluster_step E c c' \<Longrightarrow> cluster_reach E c0 c'"

section \<open>From guarantees to invariants\<close>

lemma pg_get_run_id: "pg_get_run r d = Some rr \<Longrightarrow> rr_run_id rr = r"
  by (auto simp: pg_get_run_def to_run_def dest: find_run_SomeD)

context guaranteed_store
begin

lemma guar_process:
  assumes E: "d_store E = S" and id: "\<And>r d rr. st_get_run S r d = Some rr \<Longrightarrow> rr_run_id rr = r"
  shows "guar on_db (process E w r st)"
proof -
  have ex: "guar on_db (execute (guarded E w r) r)"
    by (rule guar_execute_db) (auto simp: guarded_def owns_def E R_ops id)
  show ?thesis
    unfolding process_def
    by (auto intro!: guar_bindI ex guar_db_op simp: on_db_def E R_ops split: sum.splits)
qed

lemma guar_run_once:
  assumes E: "d_store E = S" and id: "\<And>r d rr. st_get_run S r d = Some rr \<Longrightarrow> rr_run_id rr = r"
  shows "guar on_db (run_once E w st)"
  unfolding run_once_def
  by (auto intro!: guar_bindI guar_db_op guar_process [OF E id] simp: on_db_def E R_ops split: option.splits)

text \<open>Every thread keeps the guarantee; so does every step of the cluster.\<close>

definition threads_ok :: "(('st, 'x) sys, 'r) prog list \<Rightarrow> bool" where
  "threads_ok ps \<longleftrightarrow> (\<forall>p \<in> set ps. guar on_db p)"

lemma threads_ok_drop: "threads_ok ps \<Longrightarrow> threads_ok (take i ps @ drop (Suc i) ps)"
  by (auto simp: threads_ok_def dest: in_set_takeD in_set_dropD)

lemma threads_ok_atom:
  "threads_ok ps \<Longrightarrow> i < length ps \<Longrightarrow> ps ! i = Atom f \<Longrightarrow>
   on_db s (fst (f s)) \<and> threads_ok (ps[i := snd (f s)])"
proof -
  assume ok: "threads_ok ps" and i: "i < length ps" "ps ! i = Atom f"
  from i have "Atom f \<in> set ps" by (metis nth_mem)
  with ok have "guar on_db (Atom f)" unfolding threads_ok_def by blast
  with ok show ?thesis
    by (auto simp: threads_ok_def dest!: set_update_subset_insert [THEN subsetD])
qed

end

lemma cluster_step_ok:
  assumes "cluster_step E c c'" and g: "guaranteed_store pg_store R" and E: "d_store E = pg_store"
    and ok: "guaranteed_store.threads_ok R (cs_threads c)"
  shows "R (sy_db (cs_sys c)) (sy_db (cs_sys c')) \<and> guaranteed_store.threads_ok R (cs_threads c')"
proof -
  note ops = guaranteed_store.R_ops [OF g, simplified]
  note defs = guaranteed_store.threads_ok_def [OF g] guaranteed_store.on_db_def [OF g]
  from assms(1) show ?thesis
  proof cases
    case (heartbeat w r)
    with ok ops E show ?thesis by (simp add: heartbeat_tick_def db_op_def owns_def split_def Let_def)
  next
    case (spawn w st)
    with ok ops show ?thesis
      using guaranteed_store.guar_run_once [OF g E, of w st] pg_get_run_id
      by (auto simp: defs)
  next
    case (kill i)
    with ok ops show ?thesis by (simp add: guaranteed_store.threads_ok_drop [OF g])
  next
    case (atom i f)
    with guaranteed_store.threads_ok_atom [OF g ok, of i f "cs_sys c"] show ?thesis
      by (simp add: defs)
  qed (use ok ops in simp_all)
qed

lemma cluster_reach_ok:
  assumes "cluster_reach E c0 c" and g: "guaranteed_store pg_store R" and E: "d_store E = pg_store"
    and trans: "\<And>a b d. R a b \<Longrightarrow> R b d \<Longrightarrow> R a d" and start: "cs_threads c0 = []"
  shows "R (sy_db (cs_sys c0)) (sy_db (cs_sys c)) \<and> guaranteed_store.threads_ok R (cs_threads c)"
  using assms(1)
proof (induction rule: cluster_reach.induct)
  case start
  show ?case
    using assms(5) guaranteed_store.R_refl [OF g] by (simp add: guaranteed_store.threads_ok_def [OF g])
next
  case (step c c')
  then show ?case using cluster_step_ok [OF step.hyps(2) g E] trans by blast
qed

end
