(* ===== verification/History.thy ===== *)
theory History
  imports System
begin

text \<open>
  Everything that can happen to the runs of one system when each run is attempted by one worker at
  a time: attempts of any run that die anywhere, in any number and order, and between them requests
  to the API, the queue operations of any worker, the passing of time and changes outside.
\<close>

inductive history :: "('st, 'x) deps \<Rightarrow> ('st, 'x) sys \<Rightarrow> ('st, 'x) sys \<Rightarrow> bool" for E s0 where
  start: "history E s0 s0"
| attempt:
    "history E s0 s \<Longrightarrow> history E s0 (crash n (execute (guarded E w r) r) s)"
| unguarded_attempt:
    "history E s0 s \<Longrightarrow> history E s0 (crash n (execute (E\<lparr>d_lease_guard := None\<rparr>) r) s)"
| submit:
    "history E s0 s \<Longrightarrow>
     history E s0 (s\<lparr>sy_db := fst (st_submit_run (d_store E) (sy_now s) r wn p k b (sy_db s))\<rparr>)"
| cancel:
    "history E s0 s \<Longrightarrow>
     history E s0 (s\<lparr>sy_db := fst (st_request_cancel (d_store E) (sy_now s) r (sy_db s))\<rparr>)"
| claim:
    "history E s0 s \<Longrightarrow>
     history E s0 (s\<lparr>sy_db := fst (st_claim (d_store E) (sy_now s) w l (sy_db s))\<rparr>)"
| heartbeat:
    "history E s0 s \<Longrightarrow>
     history E s0 (s\<lparr>sy_db := fst (st_heartbeat (d_store E) (sy_now s) r w l (sy_db s))\<rparr>)"
| release:
    "history E s0 s \<Longrightarrow>
     history E s0 (s\<lparr>sy_db := st_release (d_store E) (sy_now s) r w l (sy_db s)\<rparr>)"
| dequeue:
    "history E s0 s \<Longrightarrow> history E s0 (s\<lparr>sy_db := st_dequeue (d_store E) r (sy_db s)\<rparr>)"
| tick: "history E s0 s \<Longrightarrow> 0 \<le> dt \<Longrightarrow> history E s0 (s\<lparr>sy_now := sy_now s + dt\<rparr>)"
| world: "history E s0 s \<Longrightarrow> history E s0 (s\<lparr>sy_ext := x\<rparr>)"

lemma amo_registry_empty: "amo_registry E {}"
  by (auto simp: amo_registry_def amo_safe_empty)

context log_store
begin

section \<open>Attempts of other runs\<close>

definition spares :: "(string \<Rightarrow> bool) \<Rightarrow> uuid \<Rightarrow> ('st, 'x) sys \<Rightarrow> ('st, 'x) sys \<Rightarrow> bool" where
  "spares amo r s s' \<longleftrightarrow> (log_inv amo r s \<longrightarrow> log_inv amo r s')"

lemma spares_db: "has_run r d \<Longrightarrow> keyless_growth S r (sy_db s) d \<Longrightarrow> spares amo r s (s\<lparr>sy_db := d\<rparr>)"
  by (simp add: spares_def log_inv_keyless)

lemma sparesD: "spares amo r s s' \<Longrightarrow> log_inv amo r s \<Longrightarrow> log_inv amo r s'"
  by (simp add: spares_def)

lemma spares_op:
  assumes "\<And>d. has_run r d \<Longrightarrow> has_run r (f d) \<and> keyless_growth S r d (f d)"
  shows "spares amo r s (s\<lparr>sy_db := f (sy_db s)\<rparr>)"
  using assms [of "sy_db s"] by (auto simp: spares_def log_inv_has intro: log_inv_keyless)

lemma spares_other_attempt:
  assumes E: "d_store E = S" and r: "r' \<noteq> r" and g: "guard_keeps keyless_growth has_run E"
  shows "guar (spares amo r) (execute E r')"
proof (rule guar_execute_all)
  have guard: "spares amo r s (s\<lparr>sy_db := fst (guard (sy_now s) (sy_db s))\<rparr>)"
    if "d_lease_guard E = Some guard" for s guard
    using g that by (intro spares_op) (simp add: guard_keeps_def E)
  have "spares amo r s (s\<lparr>sy_now := t, sy_ext := x\<rparr>)" for s t x
    by (simp add: spares_def log_inv_def log_of_def calls_of_def)
  moreover have "spares amo r s (s\<lparr>sy_now := t\<rparr>)" for s t
    by (simp add: spares_def log_inv_def log_of_def calls_of_def)
  moreover have "spares amo r s (s\<lparr>sy_calls := sy_calls s @ [(r', key)]\<rparr>)" for s key
    using r by (simp add: spares_def log_inv_def log_of_def calls_of_def)
  moreover have "spares amo r s s" for s by (simp add: spares_def)
  moreover have "spares amo r s (s\<lparr>sy_db := fst (st_append_event S (sy_now s) r' ty sk p (sy_db s))\<rparr>)"
    for s ty sk p using r by (intro spares_op conjI has_append load_append_other) auto
  moreover have "spares amo r s (s\<lparr>sy_db := st_save_usage S (sy_now s) r' u (sy_db s)\<rparr>)" for s u
    by (intro spares_op conjI has_save_usage load_save_usage)
  moreover have "spares amo r s (s\<lparr>sy_db := fst (st_set_status S (sy_now s) r' st res err (sy_db s))\<rparr>)"
    for s st res err by (intro spares_op conjI has_set_status load_set_status)
  ultimately show "admits_all E (of_run r' (spares amo r))"
    by (auto simp: admits_all_def admits_def admits_keys_def of_run_def E cx_run_id_def intro: guard)
  show "spares amo r s (s\<lparr>sy_db := fst (st_bump_attempt (d_store E) (sy_now s) r' (sy_db s))\<rparr>)" for s
    unfolding E by (intro spares_op conjI has_bump load_bump)
  show "spares amo r s (s\<lparr>sy_db := fst (st_append_event (d_store E) (sy_now s) r' ty sk p (sy_db s))\<rparr>)"
    for s ty sk p
    unfolding E using r by (intro spares_op conjI has_append load_append_other) auto
  show "spares amo r s (s\<lparr>sy_db := fst (st_set_status (d_store E) (sy_now s) r' st res err (sy_db s))\<rparr>)"
    for s st res err
    unfolding E by (intro spares_op conjI has_set_status load_set_status)
qed (auto simp: spares_def E dest: get_run_id)

lemma spares_crash:
  assumes "d_store E = S" and "r' \<noteq> r" and "guard_keeps keyless_growth has_run E" and "log_inv amo r s"
  shows "log_inv amo r (crash n (execute E r') s)"
  using guar_crash [OF spares_other_attempt [OF assms(1-3), of amo], of s n] assms(4)
  by (auto simp: spares_def)

section \<open>The invariant over histories\<close>

lemma guard_keeps_guarded: "d_store E = S \<Longrightarrow> guard_keeps keyless_growth has_run (guarded E w r)"
  by (simp add: guard_keeps_def guarded_def owns_def has_heartbeat load_heartbeat)

lemma good_deps_guarded: "d_store E = S \<Longrightarrow> good_deps (guarded E w r)"
  using guard_keeps_guarded [of E w r] by (simp add: good_deps_def guarded_def)

lemma good_deps_unguarded: "d_store E = S \<Longrightarrow> good_deps (E\<lparr>d_lease_guard := None\<rparr>)"
  by (simp add: good_deps_def guard_keeps_def)

lemma amo_safe_guard: "amo_safe (E\<lparr>d_lease_guard := g\<rparr>) N w = amo_safe E N w"
  by (induction w) simp_all

lemma crash_attempt:
  assumes E: "d_store E = S" and w: "amo_registry E N" and E': "E' = E\<lparr>d_lease_guard := g\<rparr>"
    and g: "guard_keeps keyless_growth has_run E'" and inv: "log_inv (keys_of N) r s"
  shows "log_inv (keys_of N) r (crash n (execute E' r') s)"
proof (cases "r' = r")
  case True
  have "amo_registry E' N" using w by (simp add: E' amo_registry_def amo_safe_guard)
  then have "throughout (keys_of N) r (execute E' r)"
    using g by (intro throughout_execute) (simp_all add: good_deps_def E E')
  then show ?thesis
    using inv by (simp add: True triple_def always_crash)
next
  case False
  then show ?thesis
    using inv g by (intro spares_crash) (simp_all add: E E')
qed

theorem history_inv:
  assumes E: "d_store E = S" and w: "amo_registry E N" and s0: "log_inv (keys_of N) r s0"
    and sub: "\<And>t r' wn p k b d. has_run r d \<Longrightarrow>
        has_run r (fst (st_submit_run S t r' wn p k b d)) \<and>
        keyless_growth S r d (fst (st_submit_run S t r' wn p k b d))"
    and h: "history E s0 s"
  shows "log_inv (keys_of N) r s"
  using h
proof (induction rule: history.induct)
  case (attempt s n wk r')
  show ?case
    by (rule crash_attempt [OF E w _ guard_keeps_guarded [OF E] attempt.IH]) (simp add: guarded_def)
next
  case (unguarded_attempt s n r')
  show ?case
    by (rule crash_attempt [OF E w refl _ unguarded_attempt.IH]) (simp add: guard_keeps_def)
next
  case (submit s r' wn p k b)
  show ?case unfolding E by (rule sparesD [OF spares_op submit.IH]) (rule assms(4))
next
  case (cancel s r')
  show ?case unfolding E
    by (rule sparesD [OF spares_op cancel.IH]) (intro conjI has_request_cancel load_request_cancel)
next
  case (claim s wk l)
  show ?case unfolding E by (rule sparesD [OF spares_op claim.IH]) (intro conjI has_claim load_claim)
next
  case (heartbeat s r' wk l)
  show ?case unfolding E
    by (rule sparesD [OF spares_op heartbeat.IH]) (intro conjI has_heartbeat load_heartbeat)
next
  case (release s r' wk l)
  show ?case unfolding E by (rule sparesD [OF spares_op release.IH]) (intro conjI has_release load_release)
next
  case (dequeue s r')
  show ?case unfolding E by (rule sparesD [OF spares_op dequeue.IH]) (intro conjI has_dequeue load_dequeue)
qed (use s0 in \<open>simp_all add: log_inv_def log_of_def calls_of_def\<close>)

text \<open>The invariant at the start of a run that has not been attempted.\<close>

lemma log_inv_start:
  assumes "has_run r (sy_db s)" and "\<forall>e \<in> set (st_load_events S r (sy_db s)). ev_step_key e = None"
    and "r \<notin> fst ` set (sy_calls s)"
  shows "log_inv amo r s"
proof -
  have "calls_of s r key = 0" for key
    using assms(3) by (force simp: calls_of_def count_list_0_iff)
  moreover have "key_inv amo ([] @ log_of r s) 0 key" for key
    using assms(2) by (subst key_inv_keyless) (auto simp: log_of_def key_inv_def)
  ultimately show ?thesis using assms(1) by (simp add: log_inv_def)
qed

end

section \<open>Submissions over Postgres\<close>

lemma pg_grow_submit:
  assumes h: "pg_has_run r d"
  shows "pg_has_run r (fst (st_submit_run pg_store t r' wn p k b d)) \<and>
         keyless_growth pg_store r d (fst (st_submit_run pg_store t r' wn p k b d))"
proof (cases "\<not> json_ok p \<or> row_find (\<lambda>w. rw_idempotency_key w = k) (pg_runs d) \<noteq> None \<or> find_run r' d \<noteq> None")
  case True
  then show ?thesis using h by (simp add: pg_submit_run_unchanged keyless_growth_same)
next
  case False
  let ?d1 = "d\<lparr>pg_runs := pg_runs d @ [new_run_row t r' wn p k b],
              pg_run_queue := pg_run_queue d @ [new_queue_row t r']\<rparr>"
  have r: "r \<noteq> r'" using False h by (auto simp: pg_has_run_def)
  have wf: "pg_wf d" using h by (simp add: pg_has_run_def)
  have wf1: "pg_wf ?d1"
    using False wf by (intro pg_wf_insert_run) (auto simp: new_run_row_def new_queue_row_def row_find_None)
  have h1: "pg_has_run r ?d1"
    using h wf1 by (auto simp: pg_has_run_def find_run_def row_find_append split: option.splits)
  have same: "pg_load_events r ?d1 = pg_load_events r d" by (simp add: pg_load_events_def)
  have sub: "fst (pg_submit_run t r' wn p k b d) =
      fst (append_event_conn t r' RUN_STARTED None (run_started_payload wn p b) ?d1)"
    using False by (intro pg_submit_run_new(5) [OF wf]) simp_all
  show ?thesis
    using pg_has_append [OF h1] pg_load_append_other [OF h1, of r'] r same
    by (simp add: sub keyless_growth_def)
qed

end
