(* ===== verification/Demo.thy ===== *)
theory Demo
  imports History
begin

text \<open>
  A small concrete system for the witnesses of the properties: a registry with one at-most-once
  tool that pays out by appending its token to the outside world, a workflow that calls it once, a
  provider, and a database with one submitted run.
\<close>

section \<open>Equations of the atoms\<close>

lemma run_ctx_gets [prog_simps]: "run (ctx_gets f) \<sigma> = (\<sigma>, f (snd \<sigma>))"
  by (simp add: ctx_gets_def)

lemma run_ctx_modify [prog_simps]: "run (ctx_modify f) (s, c) = ((s, f c), ())"
  by (simp add: ctx_modify_def)

lemma run_raise [prog_simps]: "run (raise e) \<sigma> = (\<sigma>, Inl e)"
  by (simp add: raise_def)

lemma run_ctx_db_op [prog_simps]:
  "run (ctx_db_op f) (s, c) =
     ((s\<lparr>sy_db := fst (f c (sy_now s) (sy_db s))\<rparr>, c), snd (f c (sy_now s) (sy_db s)))"
  by (simp add: ctx_db_op_def split_def Let_def)

lemma run_append [prog_simps]:
  "run (append E ty sk p) (s, c) =
     ((s\<lparr>sy_db := fst (st_append_event (d_store E) (sy_now s) (cx_run_id c) ty sk p (sy_db s))\<rparr>, c),
      snd (st_append_event (d_store E) (sy_now s) (cx_run_id c) ty sk p (sy_db s)))"
  by (simp add: append_def run_ctx_db_op)

lemma run_sleep [prog_simps]: "run (sleep dt) (s, c) = ((s\<lparr>sy_now := sy_now s + dt\<rparr>, c), ())"
  by (simp add: sleep_def)

lemma run_log_call [prog_simps]:
  "run (log_call key) (s, c) = ((s\<lparr>sy_calls := sy_calls s @ [(cx_run_id c, key)]\<rparr>, c), ())"
  by (simp add: log_call_def)

section \<open>A tool that pays out\<close>

definition pay_fn :: "uuid list pyfn" where
  "pay_fn = \<lparr>pf_params = [''token''], pf_var_kwargs = False,
             pf_code = (\<lambda>args. atom (\<lambda>(t, x).
               ((t, x @ [token. (n, ArgToken token) \<leftarrow> args]), Inr (PStr ''paid''))))\<rparr>"

definition pay_tool :: "uuid list tool_spec" where
  "pay_tool = \<lparr>ts_name = ''pay'', ts_fn = pay_fn, ts_description = ''pays out'',
               ts_input_schema = PDict [], ts_idempotency = AT_MOST_ONCE, ts_verify = None\<rparr>"

definition pay_workflow :: "pyval \<Rightarrow> uuid list wf" where
  "pay_workflow inp =
     WTool ''pay'' [] (\<lambda>x. case x of Inl e \<Rightarrow> WRaise e | Inr v \<Rightarrow> WReturn v)"

definition demo_registry :: "uuid list registry" where
  "demo_registry = \<lparr>rg_workflows = [(''payout'', 1, pay_workflow)], rg_tools = [(''pay'', 2, pay_tool)]\<rparr>"

definition demo_provider :: "uuid list provider" where
  "demo_provider = \<lparr>pv_name = ''none'',
     pv_complete = (\<lambda>req. Ret (Inl (PyError ''ConnectionError'' None)))\<rparr>"

definition demo :: "(pg, uuid list) deps" where
  "demo = \<lparr>d_store = pg_store, d_registry = demo_registry, d_provider = demo_provider,
           d_settings = default_settings, d_lease_guard = None, d_float_str = (\<lambda>_. ''0.0''),
           d_traceback = (\<lambda>_. [])\<rparr>"

definition demo_db :: pg where
  "demo_db = fst (pg_submit_run 0 7 ''payout'' PNone ''order-1'' no_budget pg_empty)"

definition demo_sys :: "(pg, uuid list) sys" where
  "demo_sys = \<lparr>sy_now = 0, sy_db = demo_db, sy_ext = [], sy_calls = []\<rparr>"

lemma demo_simps [simp]:
  "d_store demo = pg_store" "d_registry demo = demo_registry" "d_lease_guard demo = None"
  "d_settings demo = default_settings" "sy_now demo_sys = 0" "sy_db demo_sys = demo_db"
  "sy_calls demo_sys = []" "sy_ext demo_sys = []"
  by (simp_all add: demo_def demo_sys_def)

lemma pg_wf_demo: "pg_wf demo_db"
  unfolding demo_db_def by (rule pg_wf_submit [OF pg_wf_empty])

lemma demo_has_run: "pg_has_run 7 demo_db"
  unfolding pg_has_run_def
  by (rule conjI [OF pg_wf_demo])
    (simp add: demo_db_def pg_submit_run_def pg_empty_def append_event_conn_def find_run_def
      new_run_row_def update_run_def)

lemma demo_log: "\<forall>e \<in> set (pg_load_events 7 demo_db). ev_step_key e = None"
  using pg_submit_run_new(3) [OF pg_wf_empty, of PNone "''order-1''" 7 0 "''payout''" no_budget]
  by (simp add: demo_db_def pg_empty_def find_run_def new_event_def)

lemma pay_never_fails: "never_fails pay_fn []"
  by (simp add: never_fails_def invoke_def pay_fn_def split_def)

lemma demo_amo: "amo_registry demo {''tool:pay''}"
  by (auto simp: amo_registry_def demo_registry_def pay_workflow_def lookup_tool_def
      pay_tool_def pay_never_fails split: sum.splits)

text \<open>The context of a first attempt of the run.\<close>

definition demo_run :: run_record where
  "demo_run = to_run ((new_run_row 0 7 ''payout'' PNone ''order-1'' no_budget)\<lparr>rw_event_seq := 1\<rparr>)"

definition demo_ctx :: ctx where
  "demo_ctx = new_context demo_run []"

lemma demo_ctx_simps [simp]:
  "cx_run_id demo_ctx = 7" "cx_completed demo_ctx key = None" "cx_unresolved demo_ctx key = None"
  "cx_ordinals demo_ctx nm = None" "bt_budget (cx_budget demo_ctx) = no_budget"
  "bt_run_created_at (cx_budget demo_ctx) = 0" "bt_usage (cx_budget demo_ctx) = no_usage"
  by (simp_all add: demo_ctx_def demo_run_def new_context_def cx_run_id_def to_run_def new_run_row_def
      budget_from_dict_def usage_from_dict_def no_budget_def pydict_of_def dict_int_def dict_rat_def
      budget_to_dict_def opt_item_def no_usage_def)

lemma demo_find_run:
  "find_run 7 demo_db = Some ((new_run_row 0 7 ''payout'' PNone ''order-1'' no_budget)\<lparr>rw_event_seq := 1\<rparr>)"
  by (simp add: demo_db_def pg_submit_run_def pg_empty_def append_event_conn_def find_run_def
      new_run_row_def update_run_def)

lemma demo_not_cancelled [simp]: "pg_is_cancel_requested 7 demo_db = False"
  by (simp add: pg_is_cancel_requested_def demo_find_run new_run_row_def)

lemma demo_checkpoint:
  "cx_run_id c = 7 \<Longrightarrow> bt_budget (cx_budget c) = no_budget \<Longrightarrow>
   run (checkpoint_guards demo) (demo_sys, c) = ((demo_sys, c), Inr ())"
  by (simp add: checkpoint_guards_def ctx_gets_def ctx_db_op_def)

text \<open>A tool body that never works.\<close>

definition broken_fn :: "uuid list pyfn" where
  "broken_fn = \<lparr>pf_params = [], pf_var_kwargs = False,
     pf_code = (\<lambda>_. Ret (Inl (PyError ''ConnectionError'' (Some ''reset''))))\<rparr>"

section \<open>One pass through the workflow\<close>

lemma demo_db_rows:
  "demo_db = \<lparr>pg_runs = [(new_run_row 0 7 ''payout'' PNone ''order-1'' no_budget)\<lparr>rw_event_seq := 1\<rparr>],
     pg_events = [\<lparr>er_run_id = 7, er_event = new_event 0 1 RUN_STARTED None (run_started_payload ''payout'' PNone no_budget)\<rparr>],
     pg_run_queue = [new_queue_row 0 7]\<rparr>"
  by (simp add: demo_db_def pg_submit_run_def pg_empty_def append_event_conn_def find_run_def
      new_run_row_def update_run_def new_event_def new_queue_row_def)

lemma demo_load: "pg_load_events 7 demo_db = [new_event 0 1 RUN_STARTED None (run_started_payload ''payout'' PNone no_budget)]"
  by (simp add: demo_db_rows pg_load_events_def)

lemma budget_dict_empty: "budget_from_dict [] = no_budget" "usage_from_dict [] = no_usage"
  by (simp_all add: budget_from_dict_def usage_from_dict_def no_budget_def no_usage_def dict_int_def dict_rat_def)

lemma demo_replay_ctx: "new_context demo_run (pg_load_events 7 demo_db) = demo_ctx"
  by (simp add: demo_load demo_ctx_def new_context_def build_replay_state_def replay_event_def new_event_def)

lemma pay_run: "snd (run (interp demo (pay_workflow PNone)) (demo_sys, demo_ctx)) = Inr (PStr ''paid'')"
proof -
  have t: "lookup_tool demo_registry ''pay'' = Inr pay_tool" by (simp add: lookup_tool_def demo_registry_def)
  have c: "run (checkpoint_guards demo) (demo_sys, demo_ctx\<lparr>cx_ordinals := m\<rparr>) = ((demo_sys, demo_ctx\<lparr>cx_ordinals := m\<rparr>), Inr ())" for m
    by (rule demo_checkpoint) simp_all
  show ?thesis
    by (simp add: pay_workflow_def ctx_call_tool_def t pay_tool_def next_key_def step_with_key_def
        execute_step_def c announce_step_def prog_simps Let_def max_step_attempts_def numeral_eq_Suc
        tool_body_def call_fn_def run_outside invoke_def pay_fn_def finish_step_def ensure_json_def
        persist_usage_def split_def append_event_conn_def demo_db_rows find_run_def new_run_row_def
        update_run_def row_update_def new_event_def ordinal_def pg_save_usage_def
        tool_invoked_payload_def cx_run_id_def)
qed

end
