(* ===== verification/Safety.thy ===== *)
theory Safety
  imports Demo
begin

text \<open>
  The safety properties of the runtime over Postgres, for all histories: how often a body runs,
  what the log looks like, and what no interleaving of workers can break.
\<close>

section \<open>Histories over Postgres\<close>

text \<open>What the log invariant says, over Postgres.\<close>

lemma pg_history_inv:
  assumes "d_store E = pg_store" and "amo_registry E N" and "pg_has_run r (sy_db s0)"
    and "\<forall>e \<in> set (pg_load_events r (sy_db s0)). ev_step_key e = None"
    and "r \<notin> fst ` set (sy_calls s0)" and "history E s0 s"
  shows "key_inv (keys_of N) (pg_load_events r (sy_db s)) (calls_of s r key) key"
proof -
  have "pg_log.log_inv (keys_of N) r s0"
    using assms(3-5) by (intro pg_log.log_inv_start) simp_all
  then have "pg_log.log_inv (keys_of N) r s"
    using pg_log.history_inv [OF assms(1,2)] pg_grow_submit assms(6) by blast
  then show ?thesis by (simp add: pg_log.log_inv_def pg_log.log_of_def)
qed

text \<open>
  C1. At most once: a step name that the workflows use only for at-most-once steps whose body does
  not raise has, under each of its keys, a body that is entered at most once, whatever attempts are
  made and wherever each of them is killed.
\<close>

theorem at_most_once:
  assumes "d_store E = pg_store" and "amo_registry E {nm}" and "pg_has_run r (sy_db s0)"
    and "\<forall>e \<in> set (pg_load_events r (sy_db s0)). ev_step_key e = None"
    and "r \<notin> fst ` set (sy_calls s0)" and "history E s0 s"
  shows "calls_of s r (step_key nm n) \<le> 1"
  by (rule key_inv_once [OF pg_history_inv [OF assms]]) simp

lemma at_most_once_witness:
  "calls_of (crash 40 (execute (guarded demo ''w2'' 7) 7)
      (crash 25 (execute (guarded demo ''w1'' 7) 7) demo_sys)) 7 (step_key ''tool:pay'' 1) \<le> 1"
  by (rule at_most_once [where E = demo and ?s0.0 = demo_sys])
    (simp_all add: demo_amo demo_has_run demo_log history.intros)

text \<open>
  C4. Write-ahead: in every history the log of a run follows the step protocol for every key, and
  every entry into a body was announced in the log before, by the start of the step or by a retry.
\<close>

theorem protocol_kept:
  assumes "d_store E = pg_store" and "pg_has_run r (sy_db s0)"
    and "\<forall>e \<in> set (pg_load_events r (sy_db s0)). ev_step_key e = None"
    and "r \<notin> fst ` set (sy_calls s0)" and "history E s0 s"
  shows "obeys_protocol (pg_load_events r (sy_db s)) \<and>
    calls_of s r key \<le> count_events (pg_load_events r (sy_db s)) key STEP_STARTED +
      count_events (pg_load_events r (sy_db s)) key STEP_RETRIED"
  using pg_history_inv [OF assms(1) amo_registry_empty assms(2-5)]
  by (simp add: obeys_protocol_iff key_inv_def licences_def)

lemma protocol_kept_witness:
  "obeys_protocol (pg_load_events 7 (sy_db (crash 25 (execute (guarded demo ''w1'' 7) 7) demo_sys))) \<and>
   calls_of (crash 25 (execute (guarded demo ''w1'' 7) 7) demo_sys) 7 ''a#1'' \<le>
     count_events (pg_load_events 7 (sy_db (crash 25 (execute (guarded demo ''w1'' 7) 7) demo_sys))) ''a#1'' STEP_STARTED +
     count_events (pg_load_events 7 (sy_db (crash 25 (execute (guarded demo ''w1'' 7) 7) demo_sys))) ''a#1'' STEP_RETRIED"
  by (rule protocol_kept [where E = demo and ?s0.0 = demo_sys])
    (simp_all add: demo_has_run demo_log history.intros)


section \<open>Any number of workers at once\<close>

text \<open>
  C21. Under every interleaving of workers, API requests, heartbeats and crashes, the events of every
  run are numbered 1, 2, 3 and so on up to the run's counter: no number is skipped or used twice.
\<close>

theorem cluster_tables:
  assumes "cluster_reach E c0 c" and "d_store E = pg_store" and "cs_threads c0 = []"
    and "pg_wf (sy_db (cs_sys c0))" and "find_run r (sy_db (cs_sys c)) = Some w"
  shows "map ev_seq (pg_load_events r (sy_db (cs_sys c))) = [1..<Suc (rw_event_seq w)]"
  using cluster_reach_ok [OF assms(1) pg_tables.guaranteed_store_axioms assms(2) _ assms(3)] assms(4,5)
  by (simp add: pg_load_events_numbers)

text \<open>
  C22. Under every interleaving the log of a run only grows at its end.
\<close>

theorem cluster_append_only:
  assumes "cluster_reach E c0 c" and "d_store E = pg_store" and "cs_threads c0 = []"
    and "pg_wf (sy_db (cs_sys c0))"
  shows "extends (pg_load_events r (sy_db (cs_sys c))) (pg_load_events r (sy_db (cs_sys c0)))"
proof -
  have wf: "pg_wf (sy_db (cs_sys c))"
    using cluster_reach_ok [OF assms(1) pg_tables.guaranteed_store_axioms assms(2) _ assms(3)] assms(4) by simp
  have "history_grows (sy_db (cs_sys c0)) (sy_db (cs_sys c))"
    using cluster_reach_ok [OF assms(1) pg_history.guaranteed_store_axioms assms(2) _ assms(3)]
    by (simp add: history_grows_def) (metis extends_trans)
  then show ?thesis
    unfolding pg_load_events_wf [OF wf] pg_load_events_wf [OF assms(4)]
    by (auto simp: history_grows_def extends_iff)
qed

definition demo_cluster :: "uuid list cluster" where
  "demo_cluster = \<lparr>cs_sys = demo_sys, cs_threads = []\<rparr>"


lemma demo_cancel_reach:
  "cluster_reach demo demo_cluster (demo_cluster\<lparr>cs_sys := demo_sys\<lparr>sy_db := fst (pg_request_cancel 0 7 demo_db)\<rparr>\<rparr>)"
  using cluster_reach.step [OF cluster_reach.start cluster_step.cancel, of demo demo_cluster 7]
  by (simp add: demo_cluster_def)

lemma demo_cancelled:
  "find_run 7 (fst (pg_request_cancel 0 7 demo_db)) = Some ((new_run_row 0 7 ''payout'' PNone ''order-1'' no_budget)
     \<lparr>rw_event_seq := 2, rw_cancel_requested := True\<rparr>)"
  by (simp add: pg_request_cancel_def demo_db_rows find_run_def new_run_row_def append_event_conn_def
      update_run_def row_update_def new_event_def)

lemma cluster_tables_witness:
  "map ev_seq (pg_load_events 7 (fst (pg_request_cancel 0 7 demo_db))) = [1, 2]"
  using cluster_tables [OF demo_cancel_reach, of 7] demo_cancelled pg_wf_demo
  by (simp add: demo_cluster_def upt_rec)

lemma cluster_append_only_witness:
  "extends (pg_load_events 7 (fst (pg_request_cancel 0 7 demo_db))) (pg_load_events 7 demo_db)"
  using cluster_append_only [OF demo_cancel_reach, of 7] pg_wf_demo by (simp add: demo_cluster_def)

end
