(* ===== verification/Typed.thy ===== *)
theory Typed
  imports Safety
begin

text \<open>
  The types of the columns. The tables of \<open>schema/001_init.sql\<close> declare \<open>input\<close>, \<open>budget\<close>, \<open>usage\<close>,
  \<open>result\<close>, \<open>error\<close> and \<open>payload\<close> as \<open>jsonb\<close> and nothing more; what the code relies on when it reads them
  is stronger. \<open>typed_row\<close> says it, \<open>pg_typed\<close> for all tables, and no operation of the store breaks it, so
  that no interleaving of workers, requests and crashes does.
\<close>

section \<open>Well-typed tables\<close>

text \<open>
  A run: its budget and usage are what \<open>to_dict\<close> writes, its result is wrapped in an object, so that
  SQL's \<open>NULL\<close> is no result, its other columns are JSON, and one that is over has the time of its end.
\<close>

definition usage_column :: "pyval \<Rightarrow> bool" where
  "usage_column v \<longleftrightarrow> v = PDict [] \<or> (\<exists>u. v = PDict (usage_to_dict u))"

definition result_column :: "pyval option \<Rightarrow> bool" where
  "result_column c \<longleftrightarrow>
     (case c of None \<Rightarrow> True | Some v \<Rightarrow> \<exists>x. json_native x \<and> v = PDict [(KStr ''value'', x)])"

definition error_column :: "pyval option \<Rightarrow> bool" where
  "error_column c \<longleftrightarrow> (case c of None \<Rightarrow> True | Some v \<Rightarrow> json_native v)"

definition typed_row :: "run_row \<Rightarrow> bool" where
  "typed_row w \<longleftrightarrow>
     json_native (rw_input w) \<and> (\<exists>b. rw_budget w = PDict (budget_to_dict b)) \<and>
     usage_column (rw_usage w) \<and> result_column (rw_result w) \<and> error_column (rw_error w) \<and>
     (terminal (rw_status w) \<longrightarrow> rw_finished_at w \<noteq> None)"

definition pg_typed :: "pg \<Rightarrow> bool" where
  "pg_typed d \<longleftrightarrow> list_all typed_row (pg_runs d) \<and>
     list_all (\<lambda>e. json_native (ev_payload (er_event e))) (pg_events d)"

lemma usage_column_simps [simp]:
  "usage_column (PDict [])" "usage_column (PDict (usage_to_dict u))"
  by (auto simp: usage_column_def)

lemma column_simps [simp]:
  "result_column None" "error_column None"
  "result_column (Some (PDict [(KStr ''value'', x)])) \<longleftrightarrow> json_native x"
  "error_column (Some v) \<longleftrightarrow> json_native v"
  by (simp_all add: result_column_def error_column_def)

section \<open>Every operation keeps the types\<close>

lemma pg_typed_empty: "pg_typed pg_empty"
  by (simp add: pg_typed_def pg_empty_def)

lemma typed_update_run:
  assumes "pg_typed d" and "\<And>w. typed_row w \<Longrightarrow> typed_row (f w)"
  shows "pg_typed (update_run r f d)"
  using assms by (auto simp: pg_typed_def update_run_def row_update_def list_all_iff)

lemma typed_queue [simp]: "pg_typed (d\<lparr>pg_run_queue := qs\<rparr>) = pg_typed d"
  by (simp add: pg_typed_def)

lemma typed_append:
  assumes "pg_typed d" shows "pg_typed (fst (append_event_conn t r ty sk p d))"
proof (cases "json_ok p")
  case True
  have up: "pg_typed (update_run r (\<lambda>w. w\<lparr>rw_event_seq := n, rw_updated_at := t\<rparr>) d)" for n
    using assms by (rule typed_update_run) (simp add: typed_row_def)
  show ?thesis
    using assms up True json_native_norm [OF True]
    by (auto simp: append_event_conn_def Let_def pg_typed_def split: option.splits)
qed (simp add: append_event_conn_def assms)

lemma typed_new_run_row: "json_ok p \<Longrightarrow> typed_row (new_run_row t r wn p k b)"
  by (auto simp: typed_row_def new_run_row_def json_native_norm)

lemma typed_submit:
  assumes "pg_typed d" shows "pg_typed (fst (pg_submit_run t r wn p k b d))"
proof (cases "json_ok p")
  case True
  have "pg_typed (d\<lparr>pg_runs := pg_runs d @ [new_run_row t r wn p k b],
      pg_run_queue := pg_run_queue d @ [new_queue_row t r]\<rparr>)"
    using assms typed_new_run_row [OF True] by (simp add: pg_typed_def)
  from typed_append [OF this, of t r RUN_STARTED None "run_started_payload wn p b"] show ?thesis
    using assms by (auto simp: pg_submit_run_def Let_def split: option.splits prod.splits sum.splits)
qed (simp add: pg_submit_run_def assms)

lemma typed_set_status:
  assumes "pg_typed d" shows "pg_typed (fst (pg_set_status t r st res err d))"
proof (cases "json_ok res \<and> json_ok err")
  case True
  then show ?thesis
    using assms by (auto simp: pg_set_status_def typed_row_def json_native_norm intro!: typed_update_run)
qed (use assms in \<open>simp add: pg_set_status_def\<close>)

lemma typed_request_cancel:
  assumes "pg_typed d" shows "pg_typed (fst (pg_request_cancel t r d))"
proof -
  have "pg_typed (update_run r (\<lambda>w. w\<lparr>rw_cancel_requested := True, rw_updated_at := t\<rparr>) d)"
    using assms by (rule typed_update_run) (simp add: typed_row_def)
  then show ?thesis
    using assms by (auto simp: pg_request_cancel_def typed_append split: option.splits)
qed

lemma typed_bump: "pg_typed d \<Longrightarrow> pg_typed (fst (pg_bump_attempt t r d))"
  by (auto simp: pg_bump_attempt_def typed_row_def intro!: typed_update_run)

lemma typed_save_usage: "pg_typed d \<Longrightarrow> pg_typed (pg_save_usage t r u d)"
  by (auto simp: pg_save_usage_def typed_row_def intro!: typed_update_run)

interpretation pg_types: guaranteed_store pg_store "\<lambda>d d'. pg_typed d \<longrightarrow> pg_typed d'"
  by unfold_locales
    (auto simp: typed_append typed_submit typed_set_status typed_request_cancel typed_bump
      typed_save_usage pg_claim_def pg_heartbeat_def pg_release_def pg_dequeue_def split: list.splits)

section \<open>What a reader finds\<close>

lemma typed_find: "pg_typed d \<Longrightarrow> find_run r d = Some w \<Longrightarrow> typed_row w"
  by (auto simp: pg_typed_def list_all_iff dest: find_run_SomeD)

lemma typed_events: "pg_typed d \<Longrightarrow> e \<in> set (pg_load_events r d) \<Longrightarrow> json_native (ev_payload e)"
  by (auto simp: pg_typed_def list_all_iff pg_load_events_def)

text \<open>The columns are read without loss, and what is read is JSON again.\<close>

lemma typed_to_run:
  assumes "typed_row w"
  shows "rw_budget w = PDict (budget_to_dict (rr_budget (to_run w)))"
    and "json_native (rr_input (to_run w))" and "json_native (rr_result (to_run w))"
    and "json_native (rr_error (to_run w))"
    and "rw_usage w \<noteq> PDict [] \<Longrightarrow> rw_usage w = PDict (usage_to_dict (rr_usage (to_run w)))"
    and "terminal (rr_status (to_run w)) \<Longrightarrow> rr_finished_at (to_run w) \<noteq> None"
  using assms
  by (auto simp: typed_row_def to_run_def budget_dict_roundtrip usage_dict_roundtrip usage_column_def
      result_column_def error_column_def py_get_def pydict_of_def split: option.splits)

lemma run_api_native:
  assumes "json_native (rr_result rr)" and "json_native (rr_error rr)"
  shows "json_native (PDict (run_to_api isof rr))"
  using assms json_native_budget json_native_usage by (simp add: run_to_api_def opt_str_def split: option.split)

lemma event_api_native:
  "json_native (ev_payload e) \<Longrightarrow> json_native (PDict (event_to_api isof e))"
  by (simp add: event_to_api_def opt_str_def split: option.split)

lemma typed_get_run:
  assumes "pg_typed d"
  shows "case find_run r d of None \<Rightarrow> pg_get_run r d = None
     | Some w \<Rightarrow> \<exists>rr. pg_get_run r d = Some rr \<and>
         rw_budget w = PDict (budget_to_dict (rr_budget rr)) \<and> json_native (rr_input rr) \<and>
         \<not> (terminal (rr_status rr) \<and> rr_finished_at rr = None) \<and>
         json_native (PDict (run_to_api isof rr))"
proof (cases "find_run r d")
  case (Some w)
  note typed = typed_to_run [OF typed_find [OF assms Some]]
  show ?thesis
    using Some typed(1,2,6) run_api_native [OF typed(3,4)] unfolding pg_get_run_def by simp
qed (simp add: pg_get_run_def)

text \<open>
  C23. Started on well-typed tables, any number of workers, requests and heartbeats, interleaved atom by
  atom and killed anywhere, leave them well typed: whatever run is read has the budget that was written,
  a result and an error that are JSON, the time of its end when it is over, and an answer of the API that
  \<open>json.dumps\<close> accepts; and so has every event.
\<close>

theorem cluster_typed:
  assumes "cluster_reach E c0 c" and "d_store E = pg_store" and "cs_threads c0 = []"
    and "pg_typed (sy_db (cs_sys c0))"
  shows "pg_typed (sy_db (cs_sys c)) \<and>
    (case find_run r (sy_db (cs_sys c)) of None \<Rightarrow> pg_get_run r (sy_db (cs_sys c)) = None
     | Some w \<Rightarrow> \<exists>rr. pg_get_run r (sy_db (cs_sys c)) = Some rr \<and>
         rw_budget w = PDict (budget_to_dict (rr_budget rr)) \<and> json_native (rr_input rr) \<and>
         \<not> (terminal (rr_status rr) \<and> rr_finished_at rr = None) \<and>
         json_native (PDict (run_to_api isof rr))) \<and>
    list_all (\<lambda>e. json_native (PDict (event_to_api isof e))) (pg_load_events r (sy_db (cs_sys c)))"
proof -
  have t: "pg_typed (sy_db (cs_sys c))"
    using cluster_reach_ok [OF assms(1) pg_types.guaranteed_store_axioms assms(2) _ assms(3)] assms(4) by simp
  have "list_all (\<lambda>e. json_native (PDict (event_to_api isof e))) (pg_load_events r (sy_db (cs_sys c)))"
    unfolding list_all_iff using typed_events [OF t] event_api_native by blast
  with t typed_get_run [OF t] show ?thesis by blast
qed

lemma pg_typed_demo: "pg_typed demo_db"
  unfolding demo_db_def by (rule typed_submit [OF pg_typed_empty])

lemma cluster_typed_witness:
  "pg_typed (fst (pg_request_cancel 0 7 demo_db)) \<and>
   list_all (\<lambda>e. json_native (PDict (event_to_api (\<lambda>_. ''now'') e)))
     (pg_load_events 7 (fst (pg_request_cancel 0 7 demo_db)))"
  using cluster_typed [OF demo_cancel_reach, of 7 "\<lambda>_. ''now''"] pg_typed_demo
  by (simp add: demo_cluster_def)

end
