(* ===== verification/Replay.thy ===== *)
theory Replay
  imports Demo
begin

text \<open>
  Replay: an attempt that starts from the log of a finished pass through a workflow goes through it
  again without touching anything, and ends with the same result.
\<close>

section \<open>Reading a workflow off a log\<close>

definition next_ordinal :: "(string \<Rightarrow> nat option) \<Rightarrow> string \<Rightarrow> nat" where
  "next_ordinal os name = (case os name of None \<Rightarrow> 0 | Some n \<Rightarrow> n) + 1"

text \<open>
  The result of a workflow if every call it makes is answered from the recorded results: \<open>None\<close>
  as soon as one is missing.
\<close>

primrec replay ::
  "'x registry \<Rightarrow> (string \<Rightarrow> pyval option) \<Rightarrow> 'x wf \<Rightarrow> (string \<Rightarrow> nat option) \<Rightarrow> pyval option" where
  "replay g recorded (WReturn v) = (\<lambda>os. Some v)"
| "replay g recorded (WRaise e) = (\<lambda>os. None)"
| "replay g recorded (WStep name fn idem verify n kwargs k) = (\<lambda>os.
     case recorded (step_key name (next_ordinal os name)) of
       None \<Rightarrow> None
     | Some v \<Rightarrow> (replay g recorded \<circ> k) (Inr v) (os(name \<mapsto> next_ordinal os name)))"
| "replay g recorded (WTool name args k) = (\<lambda>os.
     case lookup_tool g name of
       Inl e \<Rightarrow> None
     | Inr spec \<Rightarrow>
         (let nm = ''tool:'' @ ts_name spec in
          case recorded (step_key nm (next_ordinal os nm)) of
            None \<Rightarrow> None
          | Some v \<Rightarrow> (replay g recorded \<circ> k) (Inr v) (os(nm \<mapsto> next_ordinal os nm))))"
| "replay g recorded (WModel name req k) = (\<lambda>os.
     case recorded (step_key name (next_ordinal os name)) of
       None \<Rightarrow> None
     | Some v \<Rightarrow>
         (case response_from_dict v of
            Inl e \<Rightarrow> None
          | Inr resp \<Rightarrow> (replay g recorded \<circ> k) (Inr resp) (os(name \<mapsto> next_ordinal os name))))"
| "replay g recorded (WCounters k) = (\<lambda>os. None)"

lemma next_ordinal_ctx: "ordinal c nm + 1 = next_ordinal (cx_ordinals c) nm"
  by (simp add: ordinal_def next_ordinal_def)

text \<open>The interpreter follows it, and leaves the system alone.\<close>

lemma run_step_recorded:
  assumes "cx_completed c (step_key nm (next_ordinal (cx_ordinals c) nm)) = Some v"
  shows "run (bind (next_key nm) (\<lambda>key. ebind (step_with_key E key body idem verify n) (k key))) (s, c) =
    run (k (step_key nm (next_ordinal (cx_ordinals c) nm)) (v, False))
      (s, c\<lparr>cx_ordinals := (cx_ordinals c)(nm \<mapsto> next_ordinal (cx_ordinals c) nm),
            cx_replayed_steps := cx_replayed_steps c + 1\<rparr>)"
  using assms next_ordinal_ctx [of c nm]
  by (simp add: next_key_def step_with_key_def ctx_gets_def ctx_modify_def Let_def)

lemma interp_replay:
  assumes "replay (d_registry E) (cx_completed c) w (cx_ordinals c) = Some v"
  shows "\<exists>c'. run (interp E w) (s, c) = ((s, c'), Inr v) \<and> cx_executed_steps c' = cx_executed_steps c"
  using assms
proof (induction w arbitrary: c)
  case (Step name fn idem verify n kwargs k)
  let ?o = "next_ordinal (cx_ordinals c) name"
  obtain u where u: "cx_completed c (step_key name ?o) = Some u"
    and rest: "replay (d_registry E) (cx_completed c) (k (Inr u)) ((cx_ordinals c)(name \<mapsto> ?o)) = Some v"
    using Step.prems by (auto split: option.splits)
  let ?c = "c\<lparr>cx_ordinals := (cx_ordinals c)(name \<mapsto> ?o), cx_replayed_steps := cx_replayed_steps c + 1\<rparr>"
  have "run (ctx_step E name fn idem verify n kwargs) (s, c) = ((s, ?c), Inr u)"
    unfolding ctx_step_def by (subst run_step_recorded [OF u]) simp
  then show ?case
    using Step.IH [where x = "Inr u" and c = ?c] rest by (simp add: fun_upd_def)
next
  case (Tool name args k)
  obtain spec where spec: "lookup_tool (d_registry E) name = Inr spec"
    using Tool.prems by (auto split: sum.splits)
  let ?nm = "''tool:'' @ ts_name spec"
  let ?o = "next_ordinal (cx_ordinals c) ?nm"
  obtain u where u: "cx_completed c (step_key ?nm ?o) = Some u"
    and rest: "replay (d_registry E) (cx_completed c) (k (Inr u)) ((cx_ordinals c)(?nm \<mapsto> ?o)) = Some v"
    using Tool.prems spec by (auto simp: Let_def split: option.splits)
  let ?c = "c\<lparr>cx_ordinals := (cx_ordinals c)(?nm \<mapsto> ?o), cx_replayed_steps := cx_replayed_steps c + 1\<rparr>"
  have "run (ctx_call_tool E name args) (s, c) = ((s, ?c), Inr u)"
    unfolding ctx_call_tool_def spec sum.case by (subst run_step_recorded [OF u]) simp
  then show ?case
    using Tool.IH [where x = "Inr u" and c = ?c] rest by (simp add: fun_upd_def)
next
  case (Model name req k)
  let ?o = "next_ordinal (cx_ordinals c) name"
  obtain u resp where u: "cx_completed c (step_key name ?o) = Some u" and resp: "response_from_dict u = Inr resp"
    and rest: "replay (d_registry E) (cx_completed c) (k (Inr resp)) ((cx_ordinals c)(name \<mapsto> ?o)) = Some v"
    using Model.prems by (auto split: option.splits sum.splits)
  let ?c = "c\<lparr>cx_ordinals := (cx_ordinals c)(name \<mapsto> ?o), cx_replayed_steps := cx_replayed_steps c + 1\<rparr>"
  have "run (ctx_model E name req) (s, c) = ((s, ?c), Inr resp)"
    unfolding ctx_model_def by (subst run_step_recorded [OF u]) (simp add: resp)
  then show ?case
    using Model.IH [where x = "Inr resp" and c = ?c] rest by (simp add: fun_upd_def)
qed simp_all

section \<open>Workflows that replay\<close>

text \<open>A workflow that lets the exceptions of its calls through, as a plain \<open>await\<close> does, and does not
  look at the counters of its context.\<close>

primrec strict :: "'x wf \<Rightarrow> bool" where
  "strict (WReturn v) = True"
| "strict (WRaise e) = True"
| "strict (WStep name fn idem verify n kwargs k) =
     ((\<forall>e. k (Inl e) = WRaise e) \<and> (\<forall>v. (strict \<circ> k) (Inr v)))"
| "strict (WTool name args k) = ((\<forall>e. k (Inl e) = WRaise e) \<and> (\<forall>v. (strict \<circ> k) (Inr v)))"
| "strict (WModel name req k) = ((\<forall>e. k (Inl e) = WRaise e) \<and> (\<forall>v. (strict \<circ> k) (Inr v)))"
| "strict (WCounters k) = False"

text \<open>Every value a body or a verifier returns is one that JSON gives back as it is.\<close>

definition json_stable :: "pyval \<Rightarrow> bool" where
  "json_stable v \<longleftrightarrow> json_norm v = v"

definition stable_fn :: "'x pyfn \<Rightarrow> pydict \<Rightarrow> bool" where
  "stable_fn fn args \<longleftrightarrow> (\<forall>rid token. yields json_stable (invoke fn rid token args))"

definition stable_provider :: "'x provider \<Rightarrow> bool" where
  "stable_provider P \<longleftrightarrow>
     (\<forall>req tx. case snd (run (pv_complete P req) tx) of Inl e \<Rightarrow> True | Inr resp \<Rightarrow> response_native resp)"

primrec stable :: "('st, 'x) deps \<Rightarrow> 'x wf \<Rightarrow> bool" where
  "stable E (WReturn v) = True"
| "stable E (WRaise e) = True"
| "stable E (WStep name fn idem verify n kwargs k) =
     (stable_fn fn kwargs \<and> (\<forall>vf. verify = Some vf \<longrightarrow> stable_fn vf kwargs) \<and> All (stable E \<circ> k))"
| "stable E (WTool name args k) =
     ((\<forall>spec. lookup_tool (d_registry E) name = Inr spec \<longrightarrow>
         stable_fn (ts_fn spec) args \<and> (\<forall>vf. ts_verify spec = Some vf \<longrightarrow> stable_fn vf args)) \<and>
      All (stable E \<circ> k))"
| "stable E (WModel name req k) = (stable_provider (d_provider E) \<and> All (stable E \<circ> k))"
| "stable E (WCounters k) = All (stable E \<circ> k)"

lemma yields_outside: "yields val p \<Longrightarrow> yields val (outside p)"
  by (auto simp: yields_def run_outside split_def)

lemma yields_call_fn: "stable_fn fn args \<Longrightarrow> yields json_stable (call_fn fn args token)"
  unfolding stable_fn_def call_fn_def ctx_gets_def yields_def by (auto simp: run_outside split_def)

lemma yields_tool_body: "stable_fn (ts_fn spec) args \<Longrightarrow> yields json_stable (tool_body spec args token)"
  using yields_call_fn [of "ts_fn spec" args token] unfolding yields_def tool_body_def run_bind by blast

lemma yields_model_body: "stable_provider (d_provider E) \<Longrightarrow> yields json_stable (model_body E req token)"
  by (auto simp: yields_def model_body_def run_outside split_def stable_provider_def json_stable_def
      json_norm_native json_native_response split: sum.splits)

section \<open>A finished pass is recorded\<close>

context log_store
begin

text \<open>The log of the context's run only grows.\<close>

definition later :: "uuid \<Rightarrow> ('st, 'x) sys \<times> ctx \<Rightarrow> ('st, 'x) sys \<times> ctx \<Rightarrow> bool" where
  "later r \<sigma> \<sigma>' \<longleftrightarrow>
     (has_run r (sy_db (fst \<sigma>)) \<and> cx_run_id (snd \<sigma>) = r \<longrightarrow>
        has_run r (sy_db (fst \<sigma>')) \<and> cx_run_id (snd \<sigma>') = r \<and>
        extends (log_of r (fst \<sigma>')) (log_of r (fst \<sigma>)))"

definition same_keys :: "('st, 'x) sys \<times> ctx \<Rightarrow> ('st, 'x) sys \<times> ctx \<Rightarrow> bool" where
  "same_keys \<sigma> \<sigma>' \<longleftrightarrow> cx_ordinals (snd \<sigma>') = cx_ordinals (snd \<sigma>)"

lemma later_refl: "later r \<sigma> \<sigma>"
  by (simp add: later_def)

lemma later_trans: "later r a b \<Longrightarrow> later r b c \<Longrightarrow> later r a c"
  by (auto simp: later_def intro: extends_trans)

lemma later_keyless:
  "(has_run r (sy_db s) \<Longrightarrow> has_run r d \<and> keyless_growth S r (sy_db s) d) \<Longrightarrow> later r (s, c) (s\<lparr>sy_db := d\<rparr>, c)"
  by (auto simp: later_def log_of_def keyless_growth_def Let_def)

lemma later_append:
  "later (cx_run_id c) (s, c) (s\<lparr>sy_db := fst (st_append_event S t (cx_run_id c) ty sk p (sy_db s))\<rparr>, c)"
proof (cases "json_ok p")
  case True
  then show ?thesis
    using load_append [OF _ True, where r = "cx_run_id c" and d = "sy_db s" and t = t and ty = ty and sk = sk]
      has_append [where r = "cx_run_id c" and d = "sy_db s"]
    by (auto simp: later_def log_of_def)
next
  case False
  then obtain e where "st_append_event S t (cx_run_id c) ty sk p (sy_db s) = (sy_db s, Inl e)"
    using append_bad by blast
  then show ?thesis by (simp add: later_refl)
qed

lemma admits_later: "good_deps E \<Longrightarrow> admits_all E (later r)"
proof -
  assume E: "good_deps E"
  then have E': "d_store E = S" by (simp add: good_deps_def)
  have app: "later r (s, c) (s\<lparr>sy_db := fst (st_append_event S t (cx_run_id c) ty sk p (sy_db s))\<rparr>, c)"
    for s c t ty sk p
    using later_append [of c s t ty sk p] by (cases "cx_run_id c = r") (auto simp: later_def)
  have guard: "later r (s, c) (s\<lparr>sy_db := fst (guard (sy_now s) (sy_db s))\<rparr>, c)"
    if "d_lease_guard E = Some guard" for s c guard
    using E that by (intro later_keyless) (auto simp: good_deps_def guard_keeps_def)
  have use: "later r (s, c) (s\<lparr>sy_db := st_save_usage S t r' u (sy_db s)\<rparr>, c)" for s c t r' u
    by (intro later_keyless conjI has_save_usage load_save_usage)
  have stat: "later r (s, c) (s\<lparr>sy_db := fst (st_set_status S t r' st res err (sy_db s))\<rparr>, c)"
    for s c t r' st res err
    by (intro later_keyless conjI has_set_status load_set_status)
  have same: "later r (s, c) (s, c')" if "cx_run c' = cx_run c" for s :: "('st, 'a) sys" and c c'
    using that by (simp add: later_def cx_run_id_def)
  have out: "later r (s, c) (s\<lparr>sy_now := t, sy_ext := x\<rparr>, c)" for s :: "('st, 'a) sys" and c t x
    by (simp add: later_def log_of_def)
  have clock: "later r (s, c) (s\<lparr>sy_now := t\<rparr>, c)" for s :: "('st, 'a) sys" and c t
    by (simp add: later_def log_of_def)
  have calls: "later r (s, c) (s\<lparr>sy_calls := l\<rparr>, c)" for s :: "('st, 'a) sys" and c l
    by (simp add: later_def log_of_def)
  have keys: "later r (s, c) (s, c\<lparr>cx_ordinals := os\<rparr>)" for s :: "('st, 'a) sys" and c os
    by (simp add: later_def)
  show ?thesis
    using app use stat same out clock calls keys
    by (auto simp only: admits_all_def admits_def admits_keys_def E' intro: guard)
qed

lemma admits_same_keys: "admits E same_keys"
  by (simp add: admits_def same_keys_def)

text \<open>What is recorded stays recorded, with its value.\<close>

lemma recorded_later:
  assumes "recorded_as r key v \<sigma>" and "log_inv amo r (fst \<sigma>)" and "log_inv amo r (fst \<sigma>')"
    and "later r \<sigma> \<sigma>'" and "cx_run_id (snd \<sigma>) = r"
  shows "recorded_as r key v \<sigma>'"
proof -
  obtain es where es: "log_of r (fst \<sigma>') = log_of r (fst \<sigma>) @ es"
    using assms(2,4,5) by (auto simp: later_def log_inv_has extends_iff)
  have "phase (log_of r (fst \<sigma>)) key = Recorded"
    using replay_phase [OF log_inv_key [OF assms(2)], of key] assms(1) by (auto simp: recorded_as_def)
  then show ?thesis
    using replay_recorded [of "log_of r (fst \<sigma>)" key es] log_inv_key [OF assms(3), of key] assms(1)
    by (simp add: recorded_as_def es)
qed

lemma quiet_same_keys: "guar quiet p \<Longrightarrow> guar same_keys p"
  by (erule guar_mono) (auto simp: quiet_def same_keys_def)

lemma run_same_keys: "guar same_keys p \<Longrightarrow> cx_ordinals (snd (fst (run p \<sigma>))) = cx_ordinals (snd \<sigma>)"
  using guar_run [of same_keys p \<sigma>] by (simp add: same_keys_def)

text \<open>What a step under a fresh key returns is recorded under that key at the end of the operation.\<close>

lemma op_known:
  assumes E: "good_deps E"
    and b: "\<forall>tok. guar quiet (body tok) \<and> yields json_stable (body tok)"
    and v: "\<forall>vb tok. verify = Some vb \<longrightarrow> guar quiet (vb tok) \<and> yields json_stable (vb tok)"
    and k: "\<forall>key a. guar same_keys (k key a) \<and> guar (later r) (k key a)"
    and inv: "ctx_inv (keys_of {}) r (s, c)" and fin: "log_inv (keys_of {}) r (fst \<sigma>')"
    and run: "run (bind (next_key nm) (\<lambda>key. ebind (step_with_key E key body idem verify n) (k key))) (s, c)
      = (\<sigma>', Inr y)"
    and key: "key = step_key nm (next_ordinal (cx_ordinals c) nm)"
  shows "\<exists>v ex \<sigma>m. recorded_as r key v \<sigma>' \<and> snd (run (k key (v, ex)) \<sigma>m) = Inr y \<and>
    cx_ordinals (snd \<sigma>') = (cx_ordinals c)(nm \<mapsto> next_ordinal (cx_ordinals c) nm)"
proof -
  let ?c = "c\<lparr>cx_ordinals := (cx_ordinals c)(nm \<mapsto> next_ordinal (cx_ordinals c) nm)\<rparr>"
  have nk: "run (next_key nm) (s, c) = ((s, ?c), key)"
    using next_ordinal_ctx [of c nm] by (simp add: next_key_def key Let_def)
  let ?step = "step_with_key E key body idem verify n"
  obtain \<sigma>2 x where x: "run ?step (s, ?c) = (\<sigma>2, x)" by (cases "run ?step (s, ?c)")
  obtain v ex where vx: "x = Inr (v, ex)" and tail: "run (k key (v, ex)) \<sigma>2 = (\<sigma>', Inr y)"
    using run nk x by (cases x) auto
  have "at_key (keys_of {}) r key UNIV False (s, ?c) \<and> agrees (log_of r s) ?c key"
    using triple_run [OF triple_next_key inv, of nm] nk by simp
  then have "steps_to json_stable (keys_of {}) r key x \<sigma>2"
    using triple_run [OF triple_step_with_key [OF E, of "keys_of {}" key idem body json_stable verify r n]]
      b v x by (force simp: keys_of_def)
  then have at: "at_key (keys_of {}) r key UNIV False \<sigma>2" and rec: "recorded_as r key v \<sigma>2"
    by (auto simp: steps_to_def known_def vx json_stable_def)
  have "later r \<sigma>2 \<sigma>'"
    using guar_run [of "later r" "k key (v, ex)" \<sigma>2] k later_refl later_trans tail by (metis fst_conv)
  then have "recorded_as r key v \<sigma>'"
    using recorded_later [OF rec at_key_log [OF at] fin] ctx_inv_has [OF at_key_ctx [OF at]] by blast
  moreover have "cx_ordinals (snd \<sigma>') = cx_ordinals ?c"
    using run_same_keys [of ?step "(s, ?c)"] run_same_keys [of "k key (v, ex)" \<sigma>2] k x tail
      admits_step_with_key [OF admits_same_keys, of body verify E key idem n] b v
    by (auto simp: quiet_same_keys)
  ultimately show ?thesis using tail by (intro exI [of _ v] exI [of _ ex] exI [of _ \<sigma>2]) simp
qed

text \<open>The three operations: their result is read off the log.\<close>

lemma ctx_step_known:
  assumes "good_deps E" and "stable_fn fn kwargs" and "\<And>vf. verify = Some vf \<Longrightarrow> stable_fn vf kwargs"
    and "ctx_inv (keys_of {}) r (s, c)" and "log_inv (keys_of {}) r (fst \<sigma>')"
    and "run (ctx_step E name fn idem verify n kwargs) (s, c) = (\<sigma>', Inr y)"
  shows "recorded_as r (step_key name (next_ordinal (cx_ordinals c) name)) y \<sigma>' \<and>
    cx_ordinals (snd \<sigma>') = (cx_ordinals c)(name \<mapsto> next_ordinal (cx_ordinals c) name)"
  using op_known [OF assms(1) _ _ _ assms(4,5) assms(6) [unfolded ctx_step_def] refl] assms(2,3)
  by (auto intro: quiet_call_fn yields_call_fn)

lemma ctx_call_tool_known:
  assumes E: "good_deps E" and spec: "lookup_tool (d_registry E) name = Inr spec"
    and "stable_fn (ts_fn spec) args" and "\<And>vf. ts_verify spec = Some vf \<Longrightarrow> stable_fn vf args"
    and "ctx_inv (keys_of {}) r (s, c)" and "log_inv (keys_of {}) r (fst \<sigma>')"
    and run: "run (ctx_call_tool E name args) (s, c) = (\<sigma>', Inr y)"
    and nm: "nm = ''tool:'' @ ts_name spec"
  shows "recorded_as r (step_key nm (next_ordinal (cx_ordinals c) nm)) y \<sigma>' \<and>
    cx_ordinals (snd \<sigma>') = (cx_ordinals c)(nm \<mapsto> next_ordinal (cx_ordinals c) nm)"
proof -
  note A = admits_append [OF admits_same_keys] admits_append [OF admits_all_admits [OF admits_later [OF E]]]
  let ?k = "\<lambda>key (result, executed).
      if executed then ebind (append E TOOL_INVOKED (Some key) (tool_invoked_payload spec args)) (\<lambda>_. Ret (Inr result))
      else Ret (Inr result)"
  have "guar same_keys (?k key a) \<and> guar (later r) (?k key a)" for key a
    by (auto intro!: guar_ebindI A split: prod.splits)
  then have k: "\<forall>key a. guar same_keys (?k key a) \<and> guar (later r) (?k key a)" by blast
  have res: "snd (run (?k key (v, ex)) \<sigma>m) = Inr y \<Longrightarrow> v = y" for key v ex \<sigma>m
    by (auto split: if_splits sum.splits)
  have pb: "\<forall>tok. guar quiet (tool_body spec args tok) \<and> yields json_stable (tool_body spec args tok)"
    using assms(3) by (simp add: quiet_tool_body yields_tool_body)
  have pv: "\<forall>vb tok. map_option (\<lambda>v. call_fn v args) (ts_verify spec) = Some vb \<longrightarrow>
      guar quiet (vb tok) \<and> yields json_stable (vb tok)"
    using assms(4) by (auto simp: quiet_call_fn yields_call_fn)
  from op_known [where body = "tool_body spec args" and verify = "map_option (\<lambda>v. call_fn v args) (ts_verify spec)"
      and k = ?k, OF E pb pv k assms(5,6) run [unfolded ctx_call_tool_def spec sum.case, folded nm] refl]
  show ?thesis using res by blast
qed

lemma ctx_model_known:
  assumes E: "good_deps E" and "stable_provider (d_provider E)"
    and "ctx_inv (keys_of {}) r (s, c)" and "log_inv (keys_of {}) r (fst \<sigma>')"
    and run: "run (ctx_model E name req) (s, c) = (\<sigma>', Inr y)"
  shows "\<exists>raw. recorded_as r (step_key name (next_ordinal (cx_ordinals c) name)) raw \<sigma>' \<and>
    response_from_dict raw = Inr y \<and>
    cx_ordinals (snd \<sigma>') = (cx_ordinals c)(name \<mapsto> next_ordinal (cx_ordinals c) name)"
proof -
  let ?k = "\<lambda>key (raw, executed).
     ebind (Ret (response_from_dict raw)) (\<lambda>response.
     if executed then
       bind (ctx_modify (\<lambda>c. c\<lparr>cx_budget := (cx_budget c)
               \<lparr>bt_usage := add_model_usage (mr_input_tokens response) (mr_output_tokens response)
                  (mr_cost_usd response) (bt_usage (cx_budget c))\<rparr>\<rparr>)) (\<lambda>_.
       bind (persist_usage E) (\<lambda>_.
       ebind (append E MODEL_CALLED (Some key) (model_called_payload response)) (\<lambda>_.
       Ret (Inr response))))
     else Ret (Inr response))"
  note A = admits_model_tail [OF admits_same_keys] admits_model_tail [OF admits_all_admits [OF admits_later [OF E]]]
  have "guar same_keys (?k key a) \<and> guar (later r) (?k key a)" for key a
    by (cases a) (auto intro!: guar_ebindI A)
  then have k: "\<forall>key a. guar same_keys (?k key a) \<and> guar (later r) (?k key a)" by blast
  have res: "snd (run (?k key (raw, ex)) \<sigma>m) = Inr y \<Longrightarrow> response_from_dict raw = Inr y" for key raw ex \<sigma>m
    by (auto split: if_splits sum.splits)
  have pb: "\<forall>tok. guar quiet (model_body E req tok) \<and> yields json_stable (model_body E req tok)"
    using assms(2) by (simp add: quiet_model_body yields_model_body)
  have pv: "\<forall>(vb :: ('st, 'a) body) tok. None = Some vb \<longrightarrow> guar quiet (vb tok) \<and> yields json_stable (vb tok)"
    by simp
  from op_known [where body = "model_body E req" and verify = None and k = ?k,
      OF E pb pv k assms(3,4) run [unfolded ctx_model_def] refl]
  show ?thesis using res by blast
qed

section \<open>The theorem\<close>

lemma recorded_through:
  assumes E: "good_deps E" and inv: "ctx_inv (keys_of {}) r \<sigma>" and run: "run (interp E w) \<sigma> = (\<sigma>', x)"
    and rec: "recorded_as r key v \<sigma>"
  shows "recorded_as r key v \<sigma>'"
proof (rule recorded_later [OF rec ctx_inv_log [OF inv]])
  show "log_inv (keys_of {}) r (fst \<sigma>')"
    using triple_run [OF triple_interp [OF E amo_safe_empty] inv, of w] run by (simp add: ctx_inv_log)
  show "later r \<sigma> \<sigma>'"
    using guar_run [OF admits_interp_all [OF admits_later [OF E, of r], of w], of \<sigma>] run later_refl later_trans
    by (metis fst_conv)
qed (use ctx_inv_has [OF inv] in blast)

lemma interp_known:
  assumes E: "good_deps E" and "strict w" and "stable E w"
    and "ctx_inv (keys_of {}) r (s, c)" and "run (interp E w) (s, c) = (\<sigma>', Inr v)"
  shows "replay (d_registry E) (fst (build_replay_state (log_of r (fst \<sigma>')))) w (cx_ordinals c) = Some v"
  using assms(2-)
proof (induction w arbitrary: s c)
  case (Step name fn idem verify n kwargs k)
  obtain \<sigma>2 x where x: "run (ctx_step E name fn idem verify n kwargs) (s, c) = (\<sigma>2, x)"
    by (cases "run (ctx_step E name fn idem verify n kwargs) (s, c)")
  obtain y where y: "x = Inr y" and rest: "run (interp E (k (Inr y))) \<sigma>2 = (\<sigma>', Inr v)"
    using Step.prems x by (cases x) (auto simp: raise_def)
  have inv2: "ctx_inv (keys_of {}) r \<sigma>2"
    using triple_run [OF triple_ctx_step [OF E, where N = "{}"] Step.prems(3)] x by (metis empty_iff fst_conv)
  note kn = ctx_step_known [OF E _ _ Step.prems(3) ctx_inv_log [OF inv2] x [unfolded y]]
  have "replay (d_registry E) (fst (build_replay_state (log_of r (fst \<sigma>')))) (k (Inr y)) (cx_ordinals (snd \<sigma>2)) = Some v"
    using Step.IH [of "Inr y" "fst \<sigma>2" "snd \<sigma>2"] Step.prems rest inv2 by simp
  then show ?case
    using kn Step.prems(2) recorded_through [OF E inv2 rest] by (simp add: recorded_as_def fun_upd_def)
next
  case (Tool name args k)
  obtain \<sigma>2 x where x: "run (ctx_call_tool E name args) (s, c) = (\<sigma>2, x)"
    by (cases "run (ctx_call_tool E name args) (s, c)")
  obtain y where y: "x = Inr y" and rest: "run (interp E (k (Inr y))) \<sigma>2 = (\<sigma>', Inr v)"
    using Tool.prems x by (cases x) (auto simp: raise_def)
  obtain spec where spec: "lookup_tool (d_registry E) name = Inr spec"
    using x y by (auto simp: ctx_call_tool_def raise_def split: sum.splits)
  have inv2: "ctx_inv (keys_of {}) r \<sigma>2"
    using triple_run [OF triple_ctx_call_tool [OF E, where N = "{}"] Tool.prems(3)] x by (metis empty_iff fst_conv)
  note kn = ctx_call_tool_known [OF E spec _ _ Tool.prems(3) ctx_inv_log [OF inv2] x [unfolded y] refl]
  have "replay (d_registry E) (fst (build_replay_state (log_of r (fst \<sigma>')))) (k (Inr y)) (cx_ordinals (snd \<sigma>2)) = Some v"
    using Tool.IH [of "Inr y" "fst \<sigma>2" "snd \<sigma>2"] Tool.prems rest inv2 by simp
  then show ?case
    using kn Tool.prems(2) spec recorded_through [OF E inv2 rest]
    by (simp add: recorded_as_def fun_upd_def Let_def)
next
  case (Model name req k)
  obtain \<sigma>2 x where x: "run (ctx_model E name req) (s, c) = (\<sigma>2, x)"
    by (cases "run (ctx_model E name req) (s, c)")
  obtain y where y: "x = Inr y" and rest: "run (interp E (k (Inr y))) \<sigma>2 = (\<sigma>', Inr v)"
    using Model.prems x by (cases x) (auto simp: raise_def)
  have inv2: "ctx_inv (keys_of {}) r \<sigma>2"
    using triple_run [OF triple_ctx_model [OF E, where N = "{}"] Model.prems(3)] x by (metis empty_iff fst_conv)
  obtain raw where "recorded_as r (step_key name (next_ordinal (cx_ordinals c) name)) raw \<sigma>2"
    "response_from_dict raw = Inr y"
    "cx_ordinals (snd \<sigma>2) = (cx_ordinals c)(name \<mapsto> next_ordinal (cx_ordinals c) name)"
    using ctx_model_known [OF E _ Model.prems(3) ctx_inv_log [OF inv2] x [unfolded y]] Model.prems(2) by auto
  moreover have "replay (d_registry E) (fst (build_replay_state (log_of r (fst \<sigma>')))) (k (Inr y)) (cx_ordinals (snd \<sigma>2)) = Some v"
    using Model.IH [of "Inr y" "fst \<sigma>2" "snd \<sigma>2"] Model.prems rest inv2 by simp
  ultimately show ?case
    using recorded_through [OF E inv2 rest] by (simp add: recorded_as_def fun_upd_def)
qed (simp_all add: raise_def)

end



end
