(* ===== verification/Steps.thy ===== *)
theory Steps
  imports Demo
begin

text \<open>
  What a durable step does on each of its branches: replayed, refused at the checkpoint, announced
  and executed, recovered by its verifier, parked, retried until it fails.
\<close>

section \<open>The checkpoint\<close>

text \<open>
  The checkpoint without a lease: a cancelled run raises \<open>CancellationRequested\<close>; otherwise the
  budget decides, and it passes exactly within the budget. Nothing is written either way.
\<close>

theorem checkpoint_verdict:
  assumes "d_lease_guard E = None"
  shows "run (checkpoint_guards E) (s, c) =
    ((s, c),
     if st_is_cancel_requested (d_store E) (cx_run_id c) (sy_db s)
     then Inl (CancellationRequested (''run '' @ uuid_str (cx_run_id c) @ '' was cancelled''))
     else case check (sy_now s) (cx_budget c) of None \<Rightarrow> Inr () | Some e \<Rightarrow> Inl e)"
  using assms by (simp add: checkpoint_guards_def prog_simps split: option.splits)

lemma checkpoint_verdict_witness:
  "run (checkpoint_guards demo) (demo_sys, demo_ctx) = ((demo_sys, demo_ctx), Inr ())"
  using checkpoint_verdict [of demo demo_sys demo_ctx] by simp

section \<open>Replayed and refused steps\<close>

text \<open>
  A step whose result is in the log returns it: no guard, no event, no body, and the whole
  system is as it was; only the counter of replayed steps moves.
\<close>

theorem replayed_step:
  assumes "cx_completed c key = Some v"
  shows "run (step_with_key E key body idem verify n) (s, c) =
    ((s, c\<lparr>cx_replayed_steps := cx_replayed_steps c + 1\<rparr>), Inr (v, False))"
  using assms by (simp add: step_with_key_def prog_simps)

text \<open>
  A step that is not recorded and whose checkpoint raises does nothing else: the exception
  passes through, with no event written, no verifier asked and no body entered.
\<close>

theorem refused_step:
  assumes "cx_completed c key = None" and "run (checkpoint_guards E) (s, c) = (\<sigma>, Inl e)"
  shows "run (step_with_key E key body idem verify n) (s, c) = (\<sigma>, Inl e)"
  using assms by (simp add: step_with_key_def execute_step_def prog_simps)

lemma replayed_step_witness:
  "run (step_with_key demo ''a#1'' (call_fn broken_fn []) AT_MOST_ONCE None None)
      (demo_sys, demo_ctx\<lparr>cx_completed := [''a#1'' \<mapsto> PInt 5]\<rparr>) =
    ((demo_sys, demo_ctx\<lparr>cx_completed := [''a#1'' \<mapsto> PInt 5],
        cx_replayed_steps := cx_replayed_steps demo_ctx + 1\<rparr>), Inr (PInt 5, False))"
  using replayed_step [of "demo_ctx\<lparr>cx_completed := [''a#1'' \<mapsto> PInt 5]\<rparr>" "''a#1''" "PInt 5"] by simp

lemma refused_step_witness:
  "run (step_with_key demo ''a#1'' (call_fn broken_fn []) AT_LEAST_ONCE None None)
      (demo_sys, demo_ctx\<lparr>cx_budget := (cx_budget demo_ctx)\<lparr>bt_budget := no_budget\<lparr>b_max_tool_calls := Some 0\<rparr>\<rparr>\<rparr>) =
    ((demo_sys, demo_ctx\<lparr>cx_budget := (cx_budget demo_ctx)\<lparr>bt_budget := no_budget\<lparr>b_max_tool_calls := Some 0\<rparr>\<rparr>\<rparr>),
     Inl (BudgetExceededError ''tool_calls'' (PInt 0) (PInt 0)))"
  by (rule refused_step)
    (simp_all add: checkpoint_guards_def prog_simps check_def ceiling_exn_def Let_def no_budget_def no_usage_def)

section \<open>The crash window\<close>

definition in_window :: "ctx \<Rightarrow> string \<Rightarrow> bool" where
  "in_window c key \<longleftrightarrow> cx_completed c key = None \<and> cx_unresolved c key \<noteq> None"

definition token_of :: "ctx \<Rightarrow> string \<Rightarrow> uuid" where
  "token_of c key = step_token (cx_run_id c) key"

text \<open>
  C15. A step that an earlier attempt left in flight, declared at-most-once and without a verifier:
  once the checkpoint passes, \<open>AmbiguousStepError\<close> with the step's token. No event is written and the
  body is not entered.
\<close>

theorem ambiguous_step:
  assumes "in_window c key" and "run (checkpoint_guards E) (s, c) = ((s', c), Inr ())"
  shows "run (step_with_key E key body AT_MOST_ONCE None n) (s, c) =
    ((s', c), Inl (AmbiguousStepError key (uuid_str (token_of c key))))"
  using assms
  by (simp add: step_with_key_def execute_step_def announce_step_def resolve_crash_window_def
      in_window_def token_of_def prog_simps)

lemma ambiguous_step_witness:
  "run (step_with_key demo ''a#1'' (call_fn broken_fn []) AT_MOST_ONCE None None)
      (demo_sys, demo_ctx\<lparr>cx_unresolved := [''a#1'' \<mapsto> PStr []]\<rparr>) =
    ((demo_sys, demo_ctx\<lparr>cx_unresolved := [''a#1'' \<mapsto> PStr []]\<rparr>),
     Inl (AmbiguousStepError ''a#1'' (uuid_str (token_of (demo_ctx\<lparr>cx_unresolved := [''a#1'' \<mapsto> PStr []]\<rparr>) ''a#1''))))"
  by (rule ambiguous_step) (simp_all add: in_window_def demo_checkpoint)

text \<open>
  C16. With a verifier that finds the effect, the step is recorded with what the verifier returned
  and returns it: the body is not entered, and the step counts as replayed work, not executed work.
\<close>

theorem verified_step:
  assumes "in_window c key" and "run (checkpoint_guards E) (s, c) = ((s1, c), Inr ())"
    and "run (vb (token_of c key)) (s1, c) = ((s2, c2), Inr v)" and "v \<noteq> PNone" and "json_ok v"
    and "st_append_event (d_store E) (sy_now s2) (cx_run_id c2) STEP_COMPLETED (Some key)
           (PDict [(KStr ''result'', v), (KStr ''recovered_by'', PStr ''verify'')]) (sy_db s2) = (d, Inr x)"
  shows "run (step_with_key E key body idem (Some vb) n) (s, c) =
    ((s2\<lparr>sy_db := d\<rparr>, complete_step key v c2), Inr (v, False))"
  using assms
  by (simp add: step_with_key_def execute_step_def announce_step_def resolve_crash_window_def
      in_window_def token_of_def ensure_json_def prog_simps)

lemma verified_step_witness:
  "\<exists>d. run (step_with_key demo ''a#1'' (call_fn broken_fn []) AT_MOST_ONCE
            (Some (\<lambda>_. Ret (Inr (PStr ''landed'')))) None)
      (demo_sys, demo_ctx\<lparr>cx_unresolved := [''a#1'' \<mapsto> PStr []]\<rparr>) =
    ((demo_sys\<lparr>sy_db := d\<rparr>, complete_step ''a#1'' (PStr ''landed'')
        (demo_ctx\<lparr>cx_unresolved := [''a#1'' \<mapsto> PStr []]\<rparr>)), Inr (PStr ''landed'', False))"
proof -
  let ?p = "PDict [(KStr ''result'', PStr ''landed''), (KStr ''recovered_by'', PStr ''verify'')]"
  obtain d x where "append_event_conn 0 7 STEP_COMPLETED (Some ''a#1'') ?p demo_db = (d, Inr x)"
    using pg_log.append_Inr [of 7 demo_db ?p 0 STEP_COMPLETED "Some ''a#1''"] demo_has_run
    by (auto simp: prod_eq_iff)
  then show ?thesis
    by (intro exI [of _ d] verified_step [where ?s1.0 = demo_sys])
      (simp_all add: in_window_def demo_checkpoint)
qed

text \<open>
  A verifier that finds nothing does not help an at-most-once step: although it says that the
  effect did not happen, the step is still reported as ambiguous.
\<close>

theorem unverified_step_ambiguous:
  assumes "in_window c key" and "run (checkpoint_guards E) (s, c) = ((s1, c), Inr ())"
    and "run (vb (token_of c key)) (s1, c) = (\<sigma>, Inr PNone)"
  shows "run (step_with_key E key body AT_MOST_ONCE (Some vb) n) (s, c) =
    (\<sigma>, Inl (AmbiguousStepError key (uuid_str (token_of c key))))"
  using assms
  by (simp add: step_with_key_def execute_step_def announce_step_def resolve_crash_window_def
      in_window_def token_of_def prog_simps)

lemma unverified_step_ambiguous_witness:
  "run (step_with_key demo ''a#1'' (call_fn broken_fn []) AT_MOST_ONCE (Some (\<lambda>_. Ret (Inr PNone))) None)
      (demo_sys, demo_ctx\<lparr>cx_unresolved := [''a#1'' \<mapsto> PStr []]\<rparr>) =
    ((demo_sys, demo_ctx\<lparr>cx_unresolved := [''a#1'' \<mapsto> PStr []]\<rparr>),
     Inl (AmbiguousStepError ''a#1'' (uuid_str (token_of (demo_ctx\<lparr>cx_unresolved := [''a#1'' \<mapsto> PStr []]\<rparr>) ''a#1''))))"
  by (rule unverified_step_ambiguous [where ?s1.0 = demo_sys]) (simp_all add: in_window_def demo_checkpoint)

section \<open>The retry loop\<close>

text \<open>A body that always raises an ordinary exception.\<close>

definition always_fails :: "('st, 'x, pyval py_result) ctx_prog \<Rightarrow> bool" where
  "always_fails body \<longleftrightarrow>
     (\<forall>\<sigma>. case snd (run body \<sigma>) of Inl e \<Rightarrow> \<not> passes_retry e | Inr _ \<Rightarrow> False)"

context log_store
begin

lemma failing_pass:
  assumes q: "guar quiet body" and f: "always_fails body"
  obtains s1 c1 e where
    "run body (s\<lparr>sy_calls := sy_calls s @ [(cx_run_id c, key)]\<rparr>, c) = ((s1, c1), Inl e)" "\<not> passes_retry e"
    "sy_db s1 = sy_db s" "sy_calls s1 = sy_calls s @ [(cx_run_id c, key)]" "cx_run_id c1 = cx_run_id c"
proof -
  let ?\<sigma> = "(s\<lparr>sy_calls := sy_calls s @ [(cx_run_id c, key)]\<rparr>, c)"
  obtain s1 c1 x where b: "run body ?\<sigma> = ((s1, c1), x)" by (metis surj_pair)
  have "quiet ?\<sigma> (s1, c1)" using quiet_run [OF q, of ?\<sigma>] b by simp
  moreover have "case x of Inl e \<Rightarrow> \<not> passes_retry e | Inr _ \<Rightarrow> False"
    using f [unfolded always_fails_def, rule_format, of ?\<sigma>] b by simp
  ultimately show thesis using that b by (cases x) (auto simp: quiet_def)
qed

lemma append_types:
  assumes "has_run r (sy_db s)" and "json_ok p"
  obtains d m where "st_append_event S t r ty sk p (sy_db s) = (d, Inr (Some m))" "has_run r d"
    "map ev_type (st_load_events S r d) = map ev_type (log_of r s) @ [ty]"
proof -
  obtain m where m: "snd (st_append_event S t r ty sk p (sy_db s)) = Inr (Some m)"
    using append_Inr [OF assms] by blast
  obtain e where "ev_type e = ty"
    "st_load_events S r (fst (st_append_event S t r ty sk p (sy_db s))) = st_load_events S r (sy_db s) @ [e]"
    using load_append [OF assms] by blast
  then show thesis
    using that [of "fst (st_append_event S t r ty sk p (sy_db s))" m] m has_append [OF assms(1)]
    by (simp add: log_of_def prod_eq_iff)
qed

lemma failing_loop:
  assumes E: "d_store E = S" and q: "guar quiet body" and f: "always_fails body"
    and has: "has_run (cx_run_id c) (sy_db s)"
  shows "\<exists>s' c' e. run (attempt_loop E key body n (Suc left)) (s, c) = ((s', c'), Inl (StepFailedError key n e)) \<and>
    calls_of s' (cx_run_id c) key = calls_of s (cx_run_id c) key + Suc left \<and>
    map ev_type (log_of (cx_run_id c) s') =
      map ev_type (log_of (cx_run_id c) s) @ replicate left STEP_RETRIED @ [STEP_FAILED]"
  using has
proof (induction left arbitrary: s c)
  case 0
  obtain s1 c1 e where b: "run body (s\<lparr>sy_calls := sy_calls s @ [(cx_run_id c, key)]\<rparr>, c) = ((s1, c1), Inl e)"
    "\<not> passes_retry e" and s1: "sy_db s1 = sy_db s" "sy_calls s1 = sy_calls s @ [(cx_run_id c, key)]"
    and c1: "cx_run_id c1 = cx_run_id c" by (rule failing_pass [OF q f])
  obtain d m where "st_append_event S (sy_now s1) (cx_run_id c) STEP_FAILED (Some key)
      (failed_payload (d_float_str E) n e) (sy_db s) = (d, Inr (Some m))"
    "map ev_type (st_load_events S (cx_run_id c) d) = map ev_type (log_of (cx_run_id c) s) @ [STEP_FAILED]"
    by (rule append_types [OF 0, of "failed_payload (d_float_str E) n e"]) simp_all
  then show ?case
    by (simp add: prog_simps b s1 c1 E calls_of_def log_of_def)
next
  case (Suc left)
  obtain s1 c1 e where b: "run body (s\<lparr>sy_calls := sy_calls s @ [(cx_run_id c, key)]\<rparr>, c) = ((s1, c1), Inl e)"
    "\<not> passes_retry e" and s1: "sy_db s1 = sy_db s" "sy_calls s1 = sy_calls s @ [(cx_run_id c, key)]"
    and c1: "cx_run_id c1 = cx_run_id c" by (rule failing_pass [OF q f])
  let ?p = "retry_payload (d_float_str E) (n - int (Suc left)) e"
  obtain d m where a: "st_append_event S (sy_now s1) (cx_run_id c) STEP_RETRIED (Some key) ?p (sy_db s)
        = (d, Inr (Some m))" and d: "has_run (cx_run_id c) d"
    "map ev_type (st_load_events S (cx_run_id c) d) = map ev_type (log_of (cx_run_id c) s) @ [STEP_RETRIED]"
    by (rule append_types [OF Suc.prems, of ?p]) simp_all
  let ?dt = "se_step_backoff_base (d_settings E) * 2 ^ nat (n - int (Suc left) - 1)"
  let ?s2 = "s1\<lparr>sy_db := d, sy_now := sy_now s1 + ?dt\<rparr>"
  have "run (attempt_loop E key body n (Suc (Suc left))) (s, c) = run (attempt_loop E key body n (Suc left)) (?s2, c1)"
    using a by (simp add: prog_simps b s1 c1 E del: attempt_loop.simps, subst attempt_loop.simps)
      (simp add: prog_simps b s1 c1 E del: attempt_loop.simps)
  then show ?case
    using Suc.IH [of c1 ?s2] d s1 c1 by (auto simp: calls_of_def log_of_def)
qed

end

text \<open>
  C17. Retries: a fresh step, of either idempotency class, whose body raises every time is entered
  exactly as many times as attempts are allowed within this one attempt of the run, and then fails
  with \<open>StepFailedError\<close>; the log gains one start, a retry between any two entries, one failure.
\<close>

theorem retries_exhausted:
  fixes E :: "(pg, 'x) deps"
  assumes E: "d_store E = pg_store" and fresh: "cx_completed c key = None" "cx_unresolved c key = None"
    and chk: "run (checkpoint_guards E) (s, c) = ((s, c), Inr ())"
    and has: "pg_has_run (cx_run_id c) (sy_db s)" 
    and f: "always_fails (call_fn fn args (token_of c key) :: (pg, 'x, pyval py_result) ctx_prog)"
    and n: "0 < max_step_attempts E n"
  shows "\<exists>s' c' e. run (step_with_key E key (call_fn fn args) idem verify n) (s, c) =
      ((s', c'), Inl (StepFailedError key (max_step_attempts E n) e)) \<and>
    calls_of s' (cx_run_id c) key = calls_of s (cx_run_id c) key + nat (max_step_attempts E n) \<and>
    map ev_type (pg_load_events (cx_run_id c) (sy_db s')) =
      map ev_type (pg_load_events (cx_run_id c) (sy_db s)) @
      STEP_STARTED # replicate (nat (max_step_attempts E n) - 1) STEP_RETRIED @ [STEP_FAILED]"
proof -
  let ?A = "max_step_attempts E n"
  obtain left where left: "nat ?A = Suc left" using n by (cases "nat ?A") auto
  let ?p = "PDict [(KStr ''token'', PStr (uuid_str (token_of c key)))]"
  obtain d m where a: "st_append_event pg_store (sy_now s) (cx_run_id c) STEP_STARTED (Some key) ?p (sy_db s)
      = (d, Inr (Some m))" and d: "pg_has_run (cx_run_id c) d"
    "map ev_type (pg_load_events (cx_run_id c) d) = map ev_type (pg_log.log_of (cx_run_id c) s) @ [STEP_STARTED]"
    by (rule pg_log.append_types [OF has, of ?p]) (simp_all)
  have "run (step_with_key E key (call_fn fn args) idem verify n) (s, c) =
      run (attempt_loop E key (call_fn fn args (token_of c key)) ?A (Suc left)) (s\<lparr>sy_db := d\<rparr>, c)"
    using fresh chk a left
    by (simp add: step_with_key_def execute_step_def announce_step_def prog_simps E token_of_def
        del: attempt_loop.simps)
  moreover have "pg_has_run (cx_run_id c) (sy_db (s\<lparr>sy_db := d\<rparr>))" using d by simp
  note pg_log.failing_loop [OF E quiet_call_fn f this, of key ?A left]
  ultimately show ?thesis
    using d(2) left by (auto simp: calls_of_def pg_log.log_of_def)
qed

lemma retries_exhausted_witness:
  "\<exists>s' c' e. run (step_with_key demo ''a#1'' (call_fn broken_fn []) AT_MOST_ONCE None None) (demo_sys, demo_ctx) =
      ((s', c'), Inl (StepFailedError ''a#1'' 3 e)) \<and> calls_of s' 7 ''a#1'' = 3"
proof -
  have "always_fails (call_fn broken_fn [] (token_of demo_ctx ''a#1'') ::
      ((pg, uuid list) sys \<times> ctx, pyval py_result) prog)"
    by (auto simp: always_fails_def call_fn_def prog_simps run_outside invoke_def broken_fn_def)
  then show ?thesis
    using retries_exhausted [of demo demo_ctx "''a#1''" demo_sys broken_fn "[]" None AT_MOST_ONCE None]
      demo_has_run
    by (auto simp: demo_checkpoint max_step_attempts_def calls_of_def)
qed

section \<open>A step that works\<close>

lemma pg_append_entry:
  assumes "pg_has_run r d" and "json_ok p"
  obtains d' m e where "append_event_conn t r ty sk p d = (d', Inr (Some m))" "pg_has_run r d'"
    "pg_load_events r d' = pg_load_events r d @ [e]" "ev_type e = ty" "ev_step_key e = sk" "ev_payload e = json_norm p"
proof -
  obtain m where "snd (append_event_conn t r ty sk p d) = Inr (Some m)"
    using pg_log.append_Inr [OF assms, of t ty sk] by auto
  moreover obtain e where "ev_type e = ty" "ev_step_key e = sk" "ev_payload e = json_norm p"
    "pg_load_events r (fst (append_event_conn t r ty sk p d)) = pg_load_events r d @ [e]"
    using pg_log.load_append [OF assms, of ty sk t] by auto
  moreover have "pg_has_run r (fst (append_event_conn t r ty sk p d))"
    using pg_log.has_append [OF assms(1)] by simp
  ultimately show thesis using that [of "fst (append_event_conn t r ty sk p d)" m e] by (simp add: prod_eq_iff)
qed

text \<open>What is recorded when a step is done: an event, and the log it makes.\<close>

definition recorded_event :: "event_type \<Rightarrow> string \<Rightarrow> pyval \<Rightarrow> event \<Rightarrow> bool" where
  "recorded_event ty key p e \<longleftrightarrow> ev_type e = ty \<and> ev_step_key e = Some key \<and> ev_payload e = json_norm p"

lemma fresh_step_run:
  fixes E :: "(pg, 'x) deps"
  assumes E: "d_store E = pg_store" and fresh: "cx_completed c key = None" "cx_unresolved c key = None"
    and chk: "run (checkpoint_guards E) (s, c) = ((s, c), Inr ())"
    and has: "pg_has_run (cx_run_id c) (sy_db s)"
    and body: "\<forall>t x. snd (run (invoke fn (cx_run_id c) (token_of c key) args) (t, x)) = Inr v"
    and v: "json_ok v" and n: "0 < max_step_attempts E n"
  shows "\<exists>s' c' e1 e2. run (step_with_key E key (call_fn fn args) idem verify n) (s, c) = ((s', c'), Inr (v, True)) \<and>
    calls_of s' (cx_run_id c) key = calls_of s (cx_run_id c) key + 1 \<and>
    pg_load_events (cx_run_id c) (sy_db s') = pg_load_events (cx_run_id c) (sy_db s) @ [e1, e2] \<and>
    recorded_event STEP_STARTED key (PDict [(KStr ''token'', PStr (uuid_str (token_of c key)))]) e1 \<and>
    recorded_event STEP_COMPLETED key (PDict [(KStr ''result'', v), (KStr ''attempt'', PInt 1)]) e2 \<and>
    cx_completed c' = (cx_completed c)(key \<mapsto> v) \<and> cx_executed_steps c' = cx_executed_steps c + 1"
proof -
  let ?A = "max_step_attempts E n" and ?r = "cx_run_id c"
  obtain left where left: "nat ?A = Suc left" using n by (cases "nat ?A") auto
  let ?p = "PDict [(KStr ''token'', PStr (uuid_str (token_of c key)))]"
  let ?q = "PDict [(KStr ''result'', v), (KStr ''attempt'', PInt 1)]"
  obtain d m e1 where a: "append_event_conn (sy_now s) ?r STEP_STARTED (Some key) ?p (sy_db s) = (d, Inr (Some m))"
    and d: "pg_has_run ?r d" "pg_load_events ?r d = pg_load_events ?r (sy_db s) @ [e1]" "recorded_event STEP_STARTED key ?p e1"
    by (rule pg_append_entry [OF has, of ?p "sy_now s" STEP_STARTED "Some key"]) (simp_all add: recorded_event_def del: json_norm.simps)
  define s1 where "s1 = s\<lparr>sy_db := d, sy_calls := sy_calls s @ [(?r, key)]\<rparr>"
  obtain t x y where y: "run (invoke fn ?r (token_of c key) args) (sy_now s1, sy_ext s1) = ((t, x), y)" by (metis surj_pair)
  then have "y = Inr v" using body by (metis snd_conv)
  with y have b: "run (call_fn fn args (token_of c key)) (s1, c) = ((s1\<lparr>sy_now := t, sy_ext := x\<rparr>, c), Inr v)"
    by (simp add: call_fn_def prog_simps run_outside)
  obtain d2 m2 e2 where a2: "append_event_conn t ?r STEP_COMPLETED (Some key) ?q d = (d2, Inr (Some m2))"
    and d2: "pg_load_events ?r d2 = pg_load_events ?r d @ [e2]" "recorded_event STEP_COMPLETED key ?q e2"
    by (rule pg_append_entry [OF d(1), of ?q t STEP_COMPLETED "Some key"]) (use v in \<open>simp_all add: recorded_event_def del: json_norm.simps\<close>)
  have "?A - int left = 1" using left n by linarith
  then have "run (step_with_key E key (call_fn fn args) idem verify n) (s, c) =
      (let c' = (complete_step key v c)\<lparr>cx_executed_steps := cx_executed_steps c + 1\<rparr>
       in ((s1\<lparr>sy_now := t, sy_ext := x, sy_db := pg_save_usage t ?r (bt_usage (cx_budget c)) d2\<rparr>, c'), Inr (v, True)))"
    using fresh chk a left b a2 v
    by (simp add: step_with_key_def execute_step_def announce_step_def prog_simps E token_of_def s1_def finish_step_def
        ensure_json_def persist_usage_def complete_step_def cx_run_id_def)
  then show ?thesis
    using d d2 by (auto simp: Let_def calls_of_def s1_def pg_save_usage_def complete_step_def)
qed



end
