(* ===== verification/Outcomes.thy ===== *)
theory Outcomes
  imports Steps Replay
begin

text \<open>
  How an attempt ends: which status each exception and each result leads to, what the database
  says afterwards, and which attempts change nothing.
\<close>

section \<open>Statements that succeed\<close>

lemma json_ok_snapshot: "json_ok (PDict (snapshot t bt))"
  by (simp add: snapshot_def usage_to_dict_def dict_update_def)

lemma json_ok_None: "json_ok PNone"
  by simp

context run_store
begin

lemma run_append_ok:
  assumes "has_run (cx_run_id c) (sy_db s)" and "json_ok p" and E: "d_store E = S"
  obtains d m where "run (append E ty sk p) (s, c) = ((s\<lparr>sy_db := d\<rparr>, c), Inr (Some m))"
    "has_run (cx_run_id c) d" "status_of S (cx_run_id c) d = status_of S (cx_run_id c) (sy_db s)"
    "map ev_type (st_load_events S (cx_run_id c) d) = map ev_type (st_load_events S (cx_run_id c) (sy_db s)) @ [ty]"
proof -
  obtain d m where a: "st_append_event S (sy_now s) (cx_run_id c) ty sk p (sy_db s) = (d, Inr (Some m))"
    "has_run (cx_run_id c) d" "map ev_type (st_load_events S (cx_run_id c) d) = map ev_type (log_of (cx_run_id c) s) @ [ty]"
    by (rule append_types [OF assms(1,2)])
  then show thesis
    using that [of d m] status_append [OF assms(1), of "sy_now s" "cx_run_id c" ty sk p]
    by (simp add: run_append E log_of_def)
qed

lemma run_persist_ok:
  assumes "has_run (cx_run_id c) (sy_db s)" and E: "d_store E = S"
  obtains d where "run (persist_usage E) (s, c) = ((s\<lparr>sy_db := d\<rparr>, c), ())" "has_run (cx_run_id c) d"
    "status_of S (cx_run_id c) d = status_of S (cx_run_id c) (sy_db s)"
  using that [of "st_save_usage S (sy_now s) (cx_run_id c) (bt_usage (cx_budget c)) (sy_db s)"]
    has_save_usage [OF assms(1)] status_save_usage [OF assms(1)]
  by (simp add: persist_usage_def run_ctx_db_op E)

lemma run_set_status_ok:
  assumes "has_run (cx_run_id c) (sy_db s)" and "json_ok res" "json_ok err" and E: "d_store E = S"
  obtains d where "run (set_run_status E st res err) (s, c) = ((s\<lparr>sy_db := d\<rparr>, c), Inr ())"
    "has_run (cx_run_id c) d" "status_of S (cx_run_id c) d = Some st"
  using that [of "fst (st_set_status S (sy_now s) (cx_run_id c) st res err (sy_db s))"]
    has_set_status [OF assms(1)] status_set [OF assms(1-3)]
  by (simp add: set_run_status_def run_ctx_db_op E)

section \<open>The handlers\<close>

lemma fail_ok:
  assumes has: "has_run (cx_run_id c) (sy_db s)" and E: "d_store E = S"
    and err: "json_ok (PDict (dict_update [(KStr ''type'', PStr nm), (KStr ''message'', PStr m),
        (KStr ''retryable'', PBool b)] extra))" (is "json_ok ?err")
  obtains d where "run (fail E nm m b extra) (s, c) = ((s\<lparr>sy_db := d\<rparr>, c), Inr (make_outcome FAILED PNone ?err c))"
    "status_of S (cx_run_id c) d = Some FAILED"
proof -
  obtain d1 n where 1: "run (append E RUN_FAILED None ?err) (s, c) = ((s\<lparr>sy_db := d1\<rparr>, c), Inr (Some n))"
    "has_run (cx_run_id c) d1" by (rule run_append_ok [OF has err E])
  have h1: "has_run (cx_run_id c) (sy_db (s\<lparr>sy_db := d1\<rparr>))" using 1(2) by simp
  obtain d2 where 2: "run (persist_usage E) (s\<lparr>sy_db := d1\<rparr>, c) = ((s\<lparr>sy_db := d1, sy_db := d2\<rparr>, c), ())"
    "has_run (cx_run_id c) d2" by (rule run_persist_ok [OF h1 E])
  have h2: "has_run (cx_run_id c) (sy_db (s\<lparr>sy_db := d2\<rparr>))" using 2(2) by simp
  obtain d3 where 3: "run (set_run_status E FAILED PNone ?err) (s\<lparr>sy_db := d2\<rparr>, c)
      = ((s\<lparr>sy_db := d2, sy_db := d3\<rparr>, c), Inr ())" "status_of S (cx_run_id c) d3 = Some FAILED"
    by (rule run_set_status_ok [OF h2 json_ok_None err E])
  show thesis
    using that [of d3] 1(1) 2(1) 3 by (simp add: fail_def Let_def run_ctx_gets)
qed

end

text \<open>The status an exception of the workflow leads to.\<close>

fun status_for :: "exn \<Rightarrow> run_status" where
  "status_for (CancellationRequested _) = CANCELLED"
| "status_for (AmbiguousStepError _ _) = NEEDS_REVIEW"
| "status_for (LeaseLost _) = RUNNING"
| "status_for _ = FAILED"

definition reportable :: "exn \<Rightarrow> bool" where
  "reportable e \<longleftrightarrow> (case e of BudgetExceededError _ limit observed \<Rightarrow> json_ok limit \<and> json_ok observed | _ \<Rightarrow> True)"

context run_store
begin

lemma handle_ok:
  assumes has: "has_run (cx_run_id c) (sy_db s)" and E: "d_store E = S"
    and e: "reportable e" "\<And>m. e \<noteq> LeaseLost m"
  shows "\<exists>d oc. run (handle E e) (s, c) = ((s\<lparr>sy_db := d\<rparr>, c), Inr oc) \<and> oc_status oc = status_for e \<and>
    oc_run_id oc = cx_run_id c \<and> status_of S (cx_run_id c) d = Some (status_for e)"
proof -
  have fail: "\<exists>d oc. run (fail E nm m b extra) (s, c) = ((s\<lparr>sy_db := d\<rparr>, c), Inr oc) \<and> oc_status oc = FAILED \<and>
      oc_run_id oc = cx_run_id c \<and> status_of S (cx_run_id c) d = Some FAILED"
    if j: "json_ok (PDict (dict_update [(KStr ''type'', PStr nm), (KStr ''message'', PStr m),
        (KStr ''retryable'', PBool b)] extra))" and h: "has_run (cx_run_id c) (sy_db s)" for s nm m b extra
  proof -
    obtain d where "run (fail E nm m b extra) (s, c) = ((s\<lparr>sy_db := d\<rparr>, c), Inr (make_outcome FAILED PNone
        (PDict (dict_update [(KStr ''type'', PStr nm), (KStr ''message'', PStr m), (KStr ''retryable'', PBool b)] extra)) c))"
      "status_of S (cx_run_id c) d = Some FAILED" by (rule fail_ok [OF h E j])
    then show ?thesis
      by (intro exI [of _ d] exI [of _ "make_outcome FAILED PNone (PDict (dict_update
            [(KStr ''type'', PStr nm), (KStr ''message'', PStr m), (KStr ''retryable'', PBool b)] extra)) c"])
        (simp add: make_outcome_def)
  qed
  have two: "\<exists>d oc. run (ebind (append E ty sk p) (\<lambda>_. ebind (set_run_status E st PNone err) (\<lambda>_.
        bind (ctx_gets (make_outcome st PNone PNone)) (\<lambda>oc. Ret (Inr oc))))) (s, c)
      = ((s\<lparr>sy_db := d\<rparr>, c), Inr oc) \<and> oc_status oc = st \<and>
      oc_run_id oc = cx_run_id c \<and> status_of S (cx_run_id c) d = Some st"
    if jp: "json_ok p" and je: "json_ok err" for ty sk p st err
  proof -
    obtain d1 n where 1: "run (append E ty sk p) (s, c) = ((s\<lparr>sy_db := d1\<rparr>, c), Inr (Some n))"
      "has_run (cx_run_id c) d1" by (rule run_append_ok [OF has jp E])
    have h1: "has_run (cx_run_id c) (sy_db (s\<lparr>sy_db := d1\<rparr>))" using 1(2) by simp
    obtain d2 where 2: "run (set_run_status E st PNone err) (s\<lparr>sy_db := d1\<rparr>, c)
        = ((s\<lparr>sy_db := d1, sy_db := d2\<rparr>, c), Inr ())" "status_of S (cx_run_id c) d2 = Some st"
      by (rule run_set_status_ok [OF h1 json_ok_None je E])
    show ?thesis
      using 1(1) 2 by (intro exI [of _ d2] exI [of _ "make_outcome st PNone PNone c"])
        (simp add: run_ctx_gets make_outcome_def)
  qed
  have dict3: "dict_update [(KStr ''type'', PStr nm), (KStr ''message'', PStr m), (KStr ''retryable'', PBool b)]
      [(KStr ''traceback'', PStr tb)] = [(KStr ''type'', PStr nm), (KStr ''message'', PStr m),
        (KStr ''retryable'', PBool b), (KStr ''traceback'', PStr tb)]" for nm m b tb
    by (simp add: dict_update_def)
  have other: "\<exists>d oc. run (let m = exn_str (d_float_str E) e in fail E (exn_type e)
        (if m = [] then exn_repr (d_float_str E) e else m) False [(KStr ''traceback'', PStr (d_traceback E e))]) (s, c)
      = ((s\<lparr>sy_db := d\<rparr>, c), Inr oc) \<and> oc_status oc = FAILED \<and>
      oc_run_id oc = cx_run_id c \<and> status_of S (cx_run_id c) d = Some FAILED"
    unfolding Let_def by (rule fail [OF _ has]) (simp add: dict3)
  show ?thesis
  proof (cases e)
    case (BudgetExceededError dm l ob)
    then have j: "json_ok (PDict [(KStr ''dimension'', PStr dm), (KStr ''limit'', l), (KStr ''observed'', ob)])"
      using e(1) by (simp add: reportable_def)
    obtain d1 n where 1: "run (append E BUDGET_EXCEEDED None
        (PDict [(KStr ''dimension'', PStr dm), (KStr ''limit'', l), (KStr ''observed'', ob)])) (s, c)
        = ((s\<lparr>sy_db := d1\<rparr>, c), Inr (Some n))" "has_run (cx_run_id c) d1"
      by (rule run_append_ok [OF has j E])
    have h1: "has_run (cx_run_id c) (sy_db (s\<lparr>sy_db := d1\<rparr>))" using 1(2) by simp
    have "\<exists>d oc. run (fail E ''BudgetExceededError'' (exn_str (d_float_str E) e) False
          [(KStr ''dimension'', PStr dm)]) (s\<lparr>sy_db := d1\<rparr>, c) = ((s\<lparr>sy_db := d1, sy_db := d\<rparr>, c), Inr oc) \<and>
        oc_status oc = FAILED \<and> oc_run_id oc = cx_run_id c \<and> status_of S (cx_run_id c) d = Some FAILED"
      by (rule fail [OF _ h1]) (simp add: dict_update_def)
    then obtain d oc where 2: "run (fail E ''BudgetExceededError'' (exn_str (d_float_str E) e) False
          [(KStr ''dimension'', PStr dm)]) (s\<lparr>sy_db := d1\<rparr>, c) = ((s\<lparr>sy_db := d1, sy_db := d\<rparr>, c), Inr oc)"
      and "oc_status oc = FAILED" "oc_run_id oc = cx_run_id c" "status_of S (cx_run_id c) d = Some FAILED"
      by blast
    then show ?thesis
      using 1(1) by (intro exI [of _ d] exI [of _ oc]) (simp add: BudgetExceededError del: exn_str.simps)
  next
    case (CancellationRequested m)
    show ?thesis unfolding CancellationRequested handle.simps status_for.simps by (rule two) simp_all
  next
    case (AmbiguousStepError k t)
    show ?thesis unfolding AmbiguousStepError handle.simps status_for.simps by (rule two) simp_all
  next
    case (StepFailedError k n ce)
    show ?thesis unfolding StepFailedError handle.simps status_for.simps
      by (rule fail [OF _ has]) (simp add: dict_update_def)
  next
    case (LeaseLost m)
    then show ?thesis using e(2) by simp
  next
    case (WorkflowNotFound m)
    show ?thesis using other unfolding WorkflowNotFound handle.simps status_for.simps .
  next
    case (ToolNotFound m)
    show ?thesis using other unfolding ToolNotFound handle.simps status_for.simps .
  next
    case (PyError cl m)
    show ?thesis using other unfolding PyError handle.simps status_for.simps .
  qed
qed

lemma complete_ok:
  assumes has: "has_run (cx_run_id c) (sy_db s)" and E: "d_store E = S" and res: "json_ok result"
  shows "\<exists>d. run (complete E result) (s, c) = ((s\<lparr>sy_db := d\<rparr>, c), Inr (make_outcome COMPLETED result PNone c)) \<and>
    status_of S (cx_run_id c) d = Some COMPLETED"
proof -
  let ?p = "PDict [(KStr ''usage'', PDict (snapshot (sy_now s) (cx_budget c))),
        (KStr ''replayed_steps'', PInt (int (cx_replayed_steps c))),
        (KStr ''executed_steps'', PInt (int (cx_executed_steps c)))]"
  have p: "json_ok ?p" using json_ok_snapshot by simp
  obtain d1 n where 1: "run (append E RUN_COMPLETED None ?p) (s, c) = ((s\<lparr>sy_db := d1\<rparr>, c), Inr (Some n))"
    "has_run (cx_run_id c) d1" by (rule run_append_ok [OF has p E])
  have h1: "has_run (cx_run_id c) (sy_db (s\<lparr>sy_db := d1\<rparr>))" using 1(2) by simp
  obtain d2 where 2: "run (persist_usage E) (s\<lparr>sy_db := d1\<rparr>, c) = ((s\<lparr>sy_db := d1, sy_db := d2\<rparr>, c), ())"
    "has_run (cx_run_id c) d2" by (rule run_persist_ok [OF h1 E])
  have h2: "has_run (cx_run_id c) (sy_db (s\<lparr>sy_db := d2\<rparr>))" using 2(2) by simp
  obtain d3 where 3: "run (set_run_status E COMPLETED result PNone) (s\<lparr>sy_db := d2\<rparr>, c)
      = ((s\<lparr>sy_db := d2, sy_db := d3\<rparr>, c), Inr ())" "status_of S (cx_run_id c) d3 = Some COMPLETED"
    by (rule run_set_status_ok [OF h2 res json_ok_None E])
  show ?thesis
    using 1(1) 2(1) 3 by (intro exI [of _ d3]) (simp add: complete_def run_ctx_gets)
qed

text \<open>A result that is not JSON: the log says completed, the status does not, and the engine raises.\<close>

lemma complete_bad:
  assumes has: "has_run (cx_run_id c) (sy_db s)" and E: "d_store E = S" and res: "\<not> json_ok result"
  shows "\<exists>d e. run (complete E result) (s, c) = ((s\<lparr>sy_db := d\<rparr>, c), Inl e) \<and>
    status_of S (cx_run_id c) d = status_of S (cx_run_id c) (sy_db s) \<and>
    RUN_COMPLETED \<in> ev_type ` set (st_load_events S (cx_run_id c) d)"
proof -
  let ?p = "PDict [(KStr ''usage'', PDict (snapshot (sy_now s) (cx_budget c))),
        (KStr ''replayed_steps'', PInt (int (cx_replayed_steps c))),
        (KStr ''executed_steps'', PInt (int (cx_executed_steps c)))]"
  have p: "json_ok ?p" using json_ok_snapshot by simp
  obtain d1 n where 1: "run (append E RUN_COMPLETED None ?p) (s, c) = ((s\<lparr>sy_db := d1\<rparr>, c), Inr (Some n))"
    "has_run (cx_run_id c) d1" "status_of S (cx_run_id c) d1 = status_of S (cx_run_id c) (sy_db s)"
    "map ev_type (st_load_events S (cx_run_id c) d1) =
       map ev_type (st_load_events S (cx_run_id c) (sy_db s)) @ [RUN_COMPLETED]"
    by (rule run_append_ok [OF has p E])
  let ?d2 = "st_save_usage S (sy_now s) (cx_run_id c) (bt_usage (cx_budget c)) d1"
  have 2: "run (persist_usage E) (s\<lparr>sy_db := d1\<rparr>, c) = ((s\<lparr>sy_db := ?d2\<rparr>, c), ())"
    by (simp add: persist_usage_def run_ctx_db_op E)
  obtain e where 3: "st_set_status S (sy_now s) (cx_run_id c) COMPLETED result PNone ?d2 = (?d2, Inl e)"
    using status_set_bad [of result PNone] res by blast
  have "RUN_COMPLETED \<in> ev_type ` set (st_load_events S (cx_run_id c) d1)"
    using 1(4) by (metis in_set_conv_decomp set_map)
  then have "RUN_COMPLETED \<in> ev_type ` set (st_load_events S (cx_run_id c) ?d2)"
    using load_save_usage [OF 1(2), of "sy_now s" "cx_run_id c" "bt_usage (cx_budget c)"]
    by (auto elim!: keyless_growthE)
  then show ?thesis
    using 1 2 3 status_save_usage [OF 1(2)]
    by (auto simp: complete_def set_run_status_def run_ctx_db_op E)
qed

end

section \<open>What an attempt reports is what the database says\<close>

text \<open>The outcome of an attempt, when it is final, is the status of the run at its end.\<close>

definition reported :: "'st store \<Rightarrow> uuid \<Rightarrow> outcome py_result \<Rightarrow> ('st, 'x) sys \<Rightarrow> bool" where
  "reported S r x s \<longleftrightarrow>
     (\<forall>oc. x = Inr oc \<and> terminal (oc_status oc) \<longrightarrow> status_of S r (sy_db s) = Some (oc_status oc))"

context run_store
begin

definition at_run :: "uuid \<Rightarrow> ('st, 'x) sys \<times> ctx \<Rightarrow> bool" where
  "at_run r \<sigma> \<longleftrightarrow> has_run r (sy_db (fst \<sigma>)) \<and> cx_run_id (snd \<sigma>) = r"

definition reports :: "uuid \<Rightarrow> ('st, 'x, outcome py_result) ctx_prog \<Rightarrow> bool" where
  "reports r p \<longleftrightarrow> (\<forall>\<sigma>. at_run r \<sigma> \<longrightarrow> reported S r (snd (run p \<sigma>)) (fst (fst (run p \<sigma>))))"

lemma at_run_later:
  assumes g: "guar (later r) p" and "at_run r \<sigma>"
  shows "at_run r (fst (run p \<sigma>))"
proof -
  have "later r \<sigma> (fst (run p \<sigma>))"
    using g later_refl by (rule guar_run) (rule later_trans)
  then show ?thesis using assms(2) by (simp add: later_def at_run_def)
qed

lemma reports_bind: "guar (later r) p \<Longrightarrow> (\<And>x. reports r (k x)) \<Longrightarrow> reports r (bind p k)"
  unfolding reports_def run_bind using at_run_later [of r p] by blast

lemma reports_ebind: "guar (later r) p \<Longrightarrow> (\<And>x. reports r (k x)) \<Longrightarrow> reports r (ebind p k)"
  unfolding ebind_def by (rule reports_bind) (auto simp: reports_def reported_def split: sum.splits)

lemma reports_raise: "reports r (raise e)"
  by (simp add: reports_def reported_def raise_def)

lemma reports_status:
  assumes E: "d_store E = S"
  shows "reports r (ebind (set_run_status E st res err) (\<lambda>_.
     bind (ctx_gets (make_outcome st a b)) (\<lambda>oc. Ret (Inr oc))))"
proof -
  have "snd (st_set_status S t r st res err d) = Inr u \<Longrightarrow> has_run r d \<Longrightarrow>
      status_of S r (fst (st_set_status S t r st res err d)) = Some st" for t d u
    using status_set status_set_bad [of res err t r st d] by (cases "json_ok res \<and> json_ok err") auto
  then show ?thesis
    by (auto simp: reports_def reported_def at_run_def set_run_status_def run_ctx_db_op run_ctx_gets E
        make_outcome_def split: sum.splits)
qed

lemma reports_fail:
  assumes E: "d_store E = S" and g: "good_deps E"
  shows "reports r (fail E nm m b extra)"
  unfolding fail_def Let_def
  by (intro reports_ebind reports_bind reports_status [OF E] admits_append admits_persist
      admits_all_admits [OF admits_later [OF g]])

lemma reports_handle:
  assumes E: "d_store E = S" and g: "good_deps E"
  shows "reports r (handle E e)"
proof -
  note tail = reports_status [OF E] reports_fail [OF E g]
    admits_append [OF admits_all_admits [OF admits_later [OF g]]]
  show ?thesis
  proof (cases e)
    case (LeaseLost m)
    then show ?thesis by (simp add: reports_def reported_def run_ctx_gets make_outcome_def)
  qed (simp_all only: handle.simps Let_def, (intro reports_ebind tail)+)
qed

lemma reports_complete:
  assumes E: "d_store E = S" and g: "good_deps E"
  shows "reports r (complete E v)"
proof -
  note ad = admits_all_admits [OF admits_later [OF g]]
  show ?thesis
    unfolding complete_def
    by (intro reports_bind [OF admits_gets [OF ad]] reports_ebind [OF admits_append [OF ad]]
        reports_bind [OF admits_persist [OF ad]] reports_status [OF E])
qed

lemma reports_drive:
  assumes E: "d_store E = S" and g: "good_deps E"
  shows "reports r (drive E rr)"
  unfolding drive_def
  by (auto intro!: reports_bind reports_fail [OF E g] reports_handle [OF E g] reports_complete [OF E g]
      admits_interp_all [OF admits_later [OF g]] split: sum.splits)

lemma has_begin_attempt:
  assumes E: "d_store E = S"
  shows "guar (\<lambda>s s'. has_run r (sy_db s) \<longrightarrow> has_run r (sy_db s')) (begin_attempt E r rr)"
  unfolding begin_attempt_def E
  by (auto intro!: guar_ebindI guar_db_op guar_raise simp: has_bump has_append has_set_status split: option.splits)

lemma reported_run_attempt:
  assumes E: "d_store E = S" and g: "good_deps E" and has: "has_run r (sy_db s)"
  shows "reported S r (snd (run (run_attempt E r) s)) (fst (run (run_attempt E r) s))"
proof -
  obtain rr where rr: "st_get_run S r (sy_db s) = Some rr" using get_run [OF has] by blast
  let ?c = "new_context rr (st_load_events S r (sy_db s))"
  have "at_run r (s, ?c)"
    using has get_run_id [OF rr] by (simp add: at_run_def cx_run_id_def new_context_def)
  then have "reported S r (snd (run (drive E rr) (s, ?c))) (fst (fst (run (drive E rr) (s, ?c))))"
    using reports_drive [OF E g, of r rr] by (simp add: reports_def)
  then show ?thesis by (simp add: run_attempt_def E rr split_def)
qed

theorem reported_execute:
  assumes E: "d_store E = S" and g: "good_deps E" and has: "has_run r (sy_db s)"
  shows "reported S r (snd (run (execute E r) s)) (fst (run (execute E r) s))"
proof -
  obtain rr where rr: "st_get_run S r (sy_db s) = Some rr" using get_run [OF has] by blast
  have "has_run r (sy_db (fst (run (begin_attempt E r rr) s)))"
    using guar_run [OF has_begin_attempt [OF E, of r rr], of s] has by simp
  note rest = reported_run_attempt [OF E g this]
  show ?thesis
  proof (cases "terminal (rr_status rr)")
    case True
    then show ?thesis by (simp add: execute_def E rr reported_def status_of_def)
  next
    case False
    with rest show ?thesis
      by (cases "snd (run (begin_attempt E r rr) s)") (simp_all add: execute_def E rr reported_def)
  qed
qed

end

section \<open>A run that only returns\<close>

text \<open>A workflow that only returns its input, and one run of it.\<close>

definition idle_workflow :: "pyval \<Rightarrow> uuid list wf" where
  "idle_workflow inp = WReturn inp"

definition idle :: "(pg, uuid list) deps" where
  "idle = demo\<lparr>d_registry := \<lparr>rg_workflows = [(''idle'', 3, idle_workflow)], rg_tools = []\<rparr>\<rparr>"

definition idle_db :: pg where
  "idle_db = fst (pg_submit_run 0 7 ''idle'' PNone ''order-1'' no_budget pg_empty)"

definition idle_sys :: "(pg, uuid list) sys" where
  "idle_sys = \<lparr>sy_now = 0, sy_db = idle_db, sy_ext = [], sy_calls = []\<rparr>"

definition idle_run :: run_row where
  "idle_run = (new_run_row 0 7 ''idle'' PNone ''order-1'' no_budget)\<lparr>rw_event_seq := 1\<rparr>"

lemma idle_db_rows:
  "idle_db = \<lparr>pg_runs = [idle_run], pg_events = [\<lparr>er_run_id = 7, er_event = new_event 0 1 RUN_STARTED None
     (run_started_payload ''idle'' PNone no_budget)\<rparr>], pg_run_queue = [new_queue_row 0 7]\<rparr>"
  by (simp add: idle_db_def pg_submit_run_def pg_empty_def append_event_conn_def find_run_def
      new_run_row_def update_run_def idle_run_def new_event_def new_queue_row_def)

lemma idle_simps [simp]:
  "d_store idle = pg_store" "d_lease_guard idle = None" "d_settings idle = default_settings"
  "sy_db idle_sys = idle_db" "sy_now idle_sys = 0"
  "lookup_workflow (d_registry idle) ''idle'' = Inr idle_workflow"
  by (simp_all add: idle_def idle_sys_def lookup_workflow_def)

lemma idle_has_run: "pg_has_run 7 idle_db"
  unfolding pg_has_run_def
  by (rule conjI, simp only: idle_db_def, rule pg_wf_submit [OF pg_wf_empty])
    (simp add: idle_db_rows find_run_def idle_run_def new_run_row_def)

lemma json_ok_snapshot_items: "list_all (\<lambda>p. json_key_ok (fst p) \<and> json_ok (snd p)) (snapshot t bt)"
  using json_ok_snapshot [of t bt] by (simp add: split_def)

text \<open>Everything an attempt of it executes.\<close>

lemmas attempt_defs = execute_def begin_attempt_def run_attempt_def drive_def db_op_def pg_get_run_def
  find_run_def to_run_def new_run_row_def pg_bump_attempt_def update_run_def row_update_def
  pg_set_status_def idle_workflow_def complete_def new_context_def append_event_conn_def cx_run_id_def
  new_event_def persist_usage_def pg_save_usage_def set_run_status_def make_outcome_def
  json_ok_snapshot_items

lemma guarded_simps [simp]:
  "d_store (guarded E w r) = d_store E" "d_registry (guarded E w r) = d_registry E"
  "d_settings (guarded E w r) = d_settings E"
  by (simp_all add: guarded_def)

lemma idle_attempt:
  "snd (run (execute (guarded idle w 7) 7) idle_sys) = Inr \<lparr>oc_run_id = 7, oc_status = COMPLETED,
     oc_result = PNone, oc_error = PNone, oc_replayed_steps = 0, oc_executed_steps = 0\<rparr>"
  by (simp add: attempt_defs prog_simps split_def Let_def idle_db_rows idle_run_def)

section \<open>Properties\<close>

text \<open>
  C11. What a worker is told is what the database says: when an attempt under a lease ends with a
  final outcome (which is when the worker takes the run off the queue), the run's row has that status,
  whatever the workflow did.
\<close>

theorem outcome_reported:
  assumes "d_store E = pg_store" and "pg_has_run r (sy_db s)"
    and "run (execute (guarded E w r) r) s = (s', Inr oc)" and "terminal (oc_status oc)"
  shows "map_option rw_status (find_run r (sy_db s')) = Some (oc_status oc)"
  using pg_status.reported_execute [OF _ pg_log.good_deps_guarded [OF assms(1), of w r] assms(2)] assms
  by (simp add: reported_def pg_status_of)

lemma outcome_reported_witness:
  "map_option rw_status (find_run 7 (sy_db (fst (run (execute (guarded idle ''w1'' 7) 7) idle_sys)))) = Some COMPLETED"
  using outcome_reported [of idle 7 idle_sys "''w1''" _ "\<lparr>oc_run_id = 7, oc_status = COMPLETED,
     oc_result = PNone, oc_error = PNone, oc_replayed_steps = 0, oc_executed_steps = 0\<rparr>", OF _ _ prod_eqI]
    idle_attempt [of "''w1''"] idle_has_run by simp

text \<open>
  A run that is over is not executed again: the attempt returns the recorded status, result
  and error, and the whole system is as it was.
\<close>

theorem terminal_run_untouched:
  assumes "d_store E = pg_store" and "find_run r (sy_db s) = Some w" and "terminal (rw_status w)"
  shows "run (execute E r) s = (s, Inr \<lparr>oc_run_id = r, oc_status = rw_status w,
    oc_result = rr_result (to_run w), oc_error = rr_error (to_run w),
    oc_replayed_steps = 0, oc_executed_steps = 0\<rparr>)"
  using assms by (simp add: execute_def pg_get_run_def) (simp add: to_run_def)

lemma terminal_run_untouched_witness:
  "run (execute demo 7) (demo_sys\<lparr>sy_db := fst (pg_set_status 5 7 COMPLETED (PStr ''done'') PNone demo_db)\<rparr>) =
    (demo_sys\<lparr>sy_db := fst (pg_set_status 5 7 COMPLETED (PStr ''done'') PNone demo_db)\<rparr>,
     Inr \<lparr>oc_run_id = 7, oc_status = COMPLETED, oc_result = PStr ''done'', oc_error = PNone,
          oc_replayed_steps = 0, oc_executed_steps = 0\<rparr>)"
  by (subst terminal_run_untouched [where w = "(new_run_row 0 7 ''payout'' PNone ''order-1'' no_budget)
      \<lparr>rw_event_seq := 1, rw_status := COMPLETED, rw_result := Some (PDict [(KStr ''value'', PStr ''done'')]),
        rw_error := None, rw_updated_at := 5, rw_finished_at := Some 5\<rparr>"])
    (simp_all add: pg_set_status_def find_update_run demo_find_run new_run_row_def to_run_def py_get_def)

text \<open>
  C13. Every exception a workflow ends with, but a lost lease, is turned into a status, and the
  attempt succeeds in recording it: cancellation leads to \<open>CANCELLED\<close>, an ambiguous step to
  \<open>NEEDS_REVIEW\<close>, everything else to \<open>FAILED\<close>.
\<close>

theorem handled_status:
  assumes "d_store E = pg_store" and "pg_has_run (cx_run_id c) (sy_db s)"
    and "reportable e" and "\<forall>m. e \<noteq> LeaseLost m"
  shows "\<exists>d oc. run (handle E e) (s, c) = ((s\<lparr>sy_db := d\<rparr>, c), Inr oc) \<and>
    oc_status oc = status_for e \<and> map_option rw_status (find_run (cx_run_id c) d) = Some (status_for e)"
  using pg_status.handle_ok [OF assms(2,1,3)] assms(4) unfolding pg_status_of by blast

lemma handled_status_witness:
  "\<exists>d oc. run (handle demo (AmbiguousStepError ''a#1'' ''t'')) (demo_sys, demo_ctx) =
      ((demo_sys\<lparr>sy_db := d\<rparr>, demo_ctx), Inr oc) \<and>
    oc_status oc = NEEDS_REVIEW \<and> map_option rw_status (find_run 7 d) = Some NEEDS_REVIEW"
  using handled_status [of demo demo_ctx demo_sys "AmbiguousStepError ''a#1'' ''t''"] demo_has_run
  by (simp add: reportable_def)

text \<open>
  C20. A workflow result that is not JSON: the log records the completion and only then does the
  engine raise. The status stays what it was, so the run is executed again.
\<close>

theorem unserialisable_result:
  assumes "d_store E = pg_store" and "pg_has_run (cx_run_id c) (sy_db s)" and "\<not> json_ok v"
  shows "\<exists>d e. run (complete E v) (s, c) = ((s\<lparr>sy_db := d\<rparr>, c), Inl e) \<and>
    map_option rw_status (find_run (cx_run_id c) d) = map_option rw_status (find_run (cx_run_id c) (sy_db s)) \<and>
    RUN_COMPLETED \<in> ev_type ` set (pg_load_events (cx_run_id c) d)"
  using pg_status.complete_bad [OF assms(2,1,3)] unfolding pg_status_of pg_store_simps .

lemma unserialisable_result_witness:
  "\<exists>d e. run (complete demo (PObj ''Decimal'')) (demo_sys, demo_ctx) = ((demo_sys\<lparr>sy_db := d\<rparr>, demo_ctx), Inl e) \<and>
    map_option rw_status (find_run 7 d) = Some PENDING \<and> RUN_COMPLETED \<in> ev_type ` set (pg_load_events 7 d)"
  using unserialisable_result [of demo demo_ctx demo_sys "PObj ''Decimal''"] demo_has_run
  by (simp add: demo_find_run new_run_row_def)

text \<open>
  C10. Fencing: a worker that does not hold the lease of a run any more stops at its next step that
  is not recorded, with \<open>LeaseLost\<close>; it writes nothing and enters no body.
\<close>

theorem stale_worker_stops:
  assumes "d_store E = pg_store" and "cx_run_id c = r" and "\<not> pg_holds (sy_now s) r w (sy_db s)"
    and "cx_completed c key = None"
  shows "run (step_with_key (guarded E w r) key body idem verify n) (s, c) =
    ((s, c), Inl (LeaseLost (''lease lost for run '' @ uuid_str r)))"
proof -
  have "row_update (leased_to (sy_now s) r w) f (pg_run_queue (sy_db s)) = pg_run_queue (sy_db s)" for f
    using assms(3) by (auto simp: pg_holds_def row_update_def intro: map_idI)
  then have "pg_heartbeat (sy_now s) r w l (sy_db s) = (sy_db s, False)" for l
    using assms(3) by (simp add: pg_heartbeat_def pg_holds_def)
  then show ?thesis
    using assms(1,2,4)
    by (simp add: step_with_key_def execute_step_def checkpoint_guards_def guarded_def owns_def prog_simps)
qed

lemma stale_worker_stops_witness:
  "run (step_with_key (guarded demo ''w1'' 7) ''a#1'' (call_fn broken_fn []) AT_LEAST_ONCE None None)
     (demo_sys, demo_ctx) = ((demo_sys, demo_ctx), Inl (LeaseLost (''lease lost for run '' @ uuid_str 7)))"
  by (rule stale_worker_stops)
    (simp_all add: pg_holds_def leased_to_def demo_db_def pg_submit_run_def pg_empty_def append_event_conn_def
      find_run_def new_run_row_def update_run_def new_queue_row_def)

end
