(* ===== verification/Recovery.thy ===== *)
theory Recovery
  imports Safety Outcomes
begin

text \<open>
  Nothing is lost: as long as one worker at a time is at work, every run that is not over has a row
  in the queue, wherever the workers die, and a dead worker's run is handed out again once its lease
  is over.
\<close>

section \<open>Every run that is not over is in the queue\<close>

definition no_orphans :: "pg \<Rightarrow> bool" where
  "no_orphans db \<longleftrightarrow>
     pg_wf db \<and>
     (\<forall>w \<in> set (pg_runs db). \<not> terminal (rw_status w) \<longrightarrow> rw_run_id w \<in> q_run_id ` set (pg_run_queue db))"

definition queue_ids :: "pg \<Rightarrow> uuid set" where
  "queue_ids db = q_run_id ` set (pg_run_queue db)"

lemma find_run_mem:
  assumes "pg_wf db"
  shows "w \<in> set (pg_runs db) \<longleftrightarrow> find_run (rw_run_id w) db = Some w"
proof
  assume "w \<in> set (pg_runs db)"
  then show "find_run (rw_run_id w) db = Some w"
    using assms unfolding find_run_def pg_wf_def runs_wf_def by (intro row_find_unique) simp_all
next
  assume "find_run (rw_run_id w) db = Some w"
  then show "w \<in> set (pg_runs db)" by (blast dest: find_run_SomeD)
qed

lemma no_orphansD:
  assumes "no_orphans db" and "find_run r db = Some w" and "\<not> terminal (rw_status w)"
  shows "r \<in> queue_ids db"
  using assms find_run_SomeD [OF assms(2)] by (auto simp: no_orphans_def queue_ids_def)

lemma no_orphansI:
  assumes "pg_wf db" and "\<And>r w. find_run r db = Some w \<Longrightarrow> \<not> terminal (rw_status w) \<Longrightarrow> r \<in> queue_ids db"
  shows "no_orphans db"
  unfolding no_orphans_def
proof (intro conjI ballI impI)
  fix w assume "w \<in> set (pg_runs db)" "\<not> terminal (rw_status w)"
  then show "rw_run_id w \<in> q_run_id ` set (pg_run_queue db)"
    using assms(2) [of "rw_run_id w" w] find_run_mem [OF assms(1)] by (simp add: queue_ids_def)
qed (rule assms(1))

text \<open>
  Every statement but the insertion into and the removal from the queue keeps the queued runs.
  \<open>M\<close> are the runs whose status may change.
\<close>

definition keeps_queue :: "uuid set \<Rightarrow> pg \<Rightarrow> pg \<Rightarrow> bool" where
  "keeps_queue M db db' \<longleftrightarrow>
     (pg_wf db \<longrightarrow> pg_wf db' \<and> queue_ids db' = queue_ids db \<and>
       (\<forall>r. r \<notin> M \<longrightarrow> map_option rw_status (find_run r db') = map_option rw_status (find_run r db)))"

lemma no_orphans_keep:
  assumes "no_orphans db" and k: "keeps_queue M db db'" and M: "M \<subseteq> queue_ids db"
  shows "no_orphans db' \<and> queue_ids db' = queue_ids db"
proof -
  have wf: "pg_wf db" using assms(1) by (simp add: no_orphans_def)
  have q: "queue_ids db' = queue_ids db" using k wf by (simp add: keeps_queue_def)
  have "no_orphans db'"
  proof (rule no_orphansI)
    show "pg_wf db'" using k wf by (simp add: keeps_queue_def)
    fix r w assume w: "find_run r db' = Some w" "\<not> terminal (rw_status w)"
    show "r \<in> queue_ids db'"
    proof (cases "r \<in> M")
      case True
      then show ?thesis using M q by blast
    next
      case False
      then have "map_option rw_status (find_run r db') = map_option rw_status (find_run r db)"
        using k wf by (simp add: keeps_queue_def)
      then obtain v where "find_run r db = Some v" "rw_status v = rw_status w"
        using w(1) by (cases "find_run r db") auto
      then show ?thesis using no_orphansD [OF assms(1)] w(2) q by simp
    qed
  qed
  with q show ?thesis by simp
qed

lemma keeps_queue_runs:
  "pg_wf db' \<or> \<not> pg_wf db \<Longrightarrow> queue_ids db' = queue_ids db \<Longrightarrow> pg_runs db' = pg_runs db \<Longrightarrow> keeps_queue M db db'"
  by (auto simp: keeps_queue_def find_run_def)

lemma keeps_update_run:
  assumes "\<And>w. rw_run_id (f w) = rw_run_id w" and "\<And>w. rw_idempotency_key (f w) = rw_idempotency_key w"
    and "\<And>w. rw_event_seq (f w) = rw_event_seq w" and "r \<in> M \<or> (\<forall>w. rw_status (f w) = rw_status w)"
  shows "keeps_queue M db (update_run r f db)"
proof -
  have "map_option rw_status (map_option f x) = map_option rw_status x" if "r \<notin> M" for x
    using assms(4) that by (cases x) simp_all
  then show ?thesis
    using pg_wf_update_run [OF _ assms(1-3)]
    by (auto simp: keeps_queue_def queue_ids_def find_update_run [OF assms(1)])
qed

lemma keeps_append: "keeps_queue M db (fst (append_event_conn t r' ty sk p db))"
proof -
  have "queue_ids (fst (append_event_conn t r' ty sk p db)) = queue_ids db"
    by (auto simp: append_event_conn_def Let_def queue_ids_def split: option.splits)
  moreover have "map_option rw_status (find_run r (fst (append_event_conn t r' ty sk p db)))
      = map_option rw_status (find_run r db)" if "pg_wf db" for r
    using that by (cases "find_run r db") (auto simp: find_run_append)
  ultimately show ?thesis by (simp add: keeps_queue_def pg_wf_append_event)
qed

lemma keeps_refl: "keeps_queue M db db"
  by (simp add: keeps_queue_def)

lemma keeps_set_status: "r \<in> M \<Longrightarrow> keeps_queue M db (fst (pg_set_status t r st res err db))"
  by (cases "json_ok res \<and> json_ok err") (auto simp: pg_set_status_def keeps_refl intro!: keeps_update_run)

lemma keeps_bump: "keeps_queue M db (fst (pg_bump_attempt t r db))"
  unfolding pg_bump_attempt_def fst_conv by (rule keeps_update_run) simp_all

lemma keeps_usage: "keeps_queue M db (pg_save_usage t r u db)"
  unfolding pg_save_usage_def by (rule keeps_update_run) simp_all

lemma keeps_queue_update:
  assumes "\<And>q. q_run_id (f q) = q_run_id q"
  shows "keeps_queue M db (db\<lparr>pg_run_queue := row_update P f (pg_run_queue db)\<rparr>)"
proof (rule keeps_queue_runs)
  have "map q_run_id (row_update P f (pg_run_queue db)) = map q_run_id (pg_run_queue db)"
    by (rule map_row_update) (rule assms)
  then show "queue_ids (db\<lparr>pg_run_queue := row_update P f (pg_run_queue db)\<rparr>) = queue_ids db"
    by (simp add: queue_ids_def) (metis set_map)
qed (use pg_wf_queue_update [of db f P] assms in auto)

lemma keeps_heartbeat: "keeps_queue M db (fst (pg_heartbeat t r w l db))"
  unfolding pg_heartbeat_def fst_conv by (rule keeps_queue_update) simp

lemma keeps_release: "keeps_queue M db (pg_release t r w l db)"
  unfolding pg_release_def by (rule keeps_queue_update) simp

lemma keeps_claim: "keeps_queue M db (fst (pg_claim t w l db))"
  by (auto simp: pg_claim_def keeps_refl intro: keeps_queue_update split: list.splits)

lemma no_orphans_cancel: "no_orphans db \<Longrightarrow> no_orphans (fst (pg_request_cancel t r db))"
proof -
  assume db: "no_orphans db"
  let ?u = "update_run r (\<lambda>w. w\<lparr>rw_cancel_requested := True, rw_updated_at := t\<rparr>) db"
  have "keeps_queue {} db ?u" by (rule keeps_update_run) simp_all
  then have "no_orphans ?u" using no_orphans_keep [OF db] by simp
  then have "no_orphans (fst (append_event_conn t r CANCEL_REQUESTED None (PDict []) ?u))"
    using no_orphans_keep [OF _ keeps_append [of "{}"]] by simp
  with db show ?thesis by (auto simp: pg_request_cancel_def split: option.splits)
qed

lemma no_orphans_submit:
  assumes db: "no_orphans db"
  shows "no_orphans (fst (pg_submit_run t r wn p k b db))"
proof (cases "\<not> json_ok p \<or> row_find (\<lambda>w. rw_idempotency_key w = k) (pg_runs db) \<noteq> None \<or> find_run r db \<noteq> None")
  case True
  then show ?thesis using db by (simp add: pg_submit_run_unchanged)
next
  case False
  let ?db1 = "db\<lparr>pg_runs := pg_runs db @ [new_run_row t r wn p k b],
              pg_run_queue := pg_run_queue db @ [new_queue_row t r]\<rparr>"
  have wf: "pg_wf db" using db by (simp add: no_orphans_def)
  have "pg_wf ?db1"
    using False wf by (intro pg_wf_insert_run) (auto simp: new_run_row_def new_queue_row_def row_find_None)
  then have "no_orphans ?db1" using db by (auto simp: no_orphans_def new_run_row_def new_queue_row_def)
  then have "no_orphans (fst (append_event_conn t r RUN_STARTED None (run_started_payload wn p b) ?db1))"
    using no_orphans_keep [OF _ keeps_append [of "{}"]] by simp
  moreover have "fst (pg_submit_run t r wn p k b db) =
      fst (append_event_conn t r RUN_STARTED None (run_started_payload wn p b) ?db1)"
    using False by (intro pg_submit_run_new(5) [OF wf]) simp_all
  ultimately show ?thesis by simp
qed

lemma no_orphans_dequeue:
  assumes db: "no_orphans db" and st: "find_run r db = Some w" "terminal (rw_status w)"
  shows "no_orphans (pg_dequeue r db)"
proof (rule no_orphansI)
  show "pg_wf (pg_dequeue r db)" using db pg_wf_dequeue by (simp add: no_orphans_def)
  fix r' v assume v: "find_run r' (pg_dequeue r db) = Some v" "\<not> terminal (rw_status v)"
  then have v': "find_run r' db = Some v" by (simp add: pg_dequeue_def)
  then have "r' \<in> queue_ids db" using no_orphansD [OF db] v(2) by blast
  moreover have "r' \<noteq> r" using v' v(2) st by auto
  ultimately show "r' \<in> queue_ids (pg_dequeue r db)"
    by (auto simp: queue_ids_def pg_dequeue_def row_delete_def)
qed

section \<open>One worker at a time\<close>

text \<open>While run \<open>r\<close> is in the queue, an attempt of it keeps it there and orphans no run.\<close>

definition queued :: "uuid \<Rightarrow> pg \<Rightarrow> bool" where
  "queued r db \<longleftrightarrow> no_orphans db \<and> r \<in> queue_ids db"

lemma queued_keep: "queued r db \<Longrightarrow> keeps_queue {r} db db' \<Longrightarrow> queued r db'"
  using no_orphans_keep [of db "{r}" db'] by (simp add: queued_def)

lemma queued_has_run: "queued r db \<Longrightarrow> pg_has_run r db"
  unfolding queued_def no_orphans_def pg_has_run_def find_run_None pg_wf_def queue_ids_def by blast

definition keeps_queued :: "uuid \<Rightarrow> (pg, 'x) sys \<Rightarrow> (pg, 'x) sys \<Rightarrow> bool" where
  "keeps_queued r s s' \<longleftrightarrow> (queued r (sy_db s) \<longrightarrow> queued r (sy_db s'))"

lemma keeps_queuedI: "keeps_queue {r} (sy_db s) d \<Longrightarrow> keeps_queued r s (s\<lparr>sy_db := d\<rparr>)"
  by (auto simp: keeps_queued_def intro: queued_keep)

lemma execute_keeps_queued:
  assumes E: "d_store E = pg_store"
  shows "guar (keeps_queued r) (execute (guarded E w r) r)"
proof (rule guar_execute_all)
  show "admits_all (guarded E w r) (of_run r (keeps_queued r))"
    unfolding admits_all_def admits_def admits_keys_def of_run_def
    by (auto simp: E guarded_def owns_def cx_run_id_def keeps_queued_def [of _ s s for s]
        intro!: keeps_queuedI keeps_append keeps_usage keeps_set_status keeps_heartbeat)
      (auto simp: keeps_queued_def)
qed (auto simp: E keeps_queued_def [of _ s s for s] pg_get_run_id
    intro!: keeps_queuedI keeps_bump keeps_append keeps_set_status)

lemma always_db_op [simp]:
  "always I (db_op f) s \<longleftrightarrow> I s \<and> I (s\<lparr>sy_db := fst (f (sy_now s) (sy_db s))\<rparr>)"
  by (simp add: db_op_def Let_def split_def)

lemma run_db_op [simp]:
  "run (db_op f) s = (s\<lparr>sy_db := fst (f (sy_now s) (sy_db s))\<rparr>, snd (f (sy_now s) (sy_db s)))"
  by (simp add: db_op_def Let_def split_def)

lemma always_process:
  assumes E: "d_store E = pg_store" and q: "queued r (sy_db s)"
  shows "always (\<lambda>s. no_orphans (sy_db s)) (process E w r st) s"
proof -
  let ?p = "execute (guarded E w r) r" and ?s = "fst (run (execute (guarded E w r) r) s)"
  have a: "always (\<lambda>s. queued r (sy_db s)) ?p s"
    by (rule guar_always [OF execute_keeps_queued [OF E]]) (use q in \<open>simp_all add: keeps_queued_def\<close>)
  then have e: "queued r (sy_db ?s)" by (rule always_end)
  have "no_orphans (pg_dequeue r (sy_db ?s))" if "snd (run ?p s) = Inr oc" "terminal (oc_status oc)" for oc
  proof -
    have "reported pg_store r (snd (run ?p s)) ?s"
      using E by (intro pg_status.reported_execute queued_has_run [OF q] pg_log.good_deps_guarded) simp_all
    then have "map_option rw_status (find_run r (sy_db ?s)) = Some (oc_status oc)"
      using that unfolding reported_def pg_status_of by blast
    then obtain v where "find_run r (sy_db ?s) = Some v" "rw_status v = oc_status oc"
      by (cases "find_run r (sy_db ?s)") auto
    then show ?thesis using e that(2) by (intro no_orphans_dequeue) (auto simp: queued_def)
  qed
  moreover have "no_orphans (pg_release t r w l (sy_db ?s))" for t l
    using queued_keep [OF e keeps_release] by (simp add: queued_def)
  moreover have "always (\<lambda>s. no_orphans (sy_db s)) ?p s"
    using a by (rule always_mono) (simp add: queued_def)
  ultimately show ?thesis
    using e by (auto simp: process_def E should_dequeue_def queued_def split: sum.splits)
qed

lemma always_run_once:
  assumes E: "d_store E = pg_store" and s: "no_orphans (sy_db s)"
  shows "always (\<lambda>s. no_orphans (sy_db s)) (run_once E w st) s"
proof -
  let ?d = "fst (pg_claim (sy_now s) w (lease_seconds E) (sy_db s))"
  have d: "no_orphans ?d \<and> queue_ids ?d = queue_ids (sy_db s)"
    using no_orphans_keep [OF s keeps_claim [of "{}"]] by simp
  have "queued (cl_run_id c) ?d" if cl: "snd (pg_claim (sy_now s) w (lease_seconds E) (sy_db s)) = Some c" for c
  proof -
    obtain q where "q \<in> set (pg_run_queue (sy_db s))" "q_run_id q = cl_run_id c"
      by (rule pg_claim_SomeD [OF cl])
    then show ?thesis using d by (simp add: queued_def queue_ids_def) (metis imageI)
  qed
  then show ?thesis
    using s d by (auto simp: run_once_def E intro!: always_process [OF E] split: option.splits)
qed

text \<open>Workers that come one after the other, each dying anywhere; in between, anything the API does.\<close>

inductive one_at_a_time :: "(pg, 'x) deps \<Rightarrow> (pg, 'x) sys \<Rightarrow> (pg, 'x) sys \<Rightarrow> bool" for E s0 where
  start: "one_at_a_time E s0 s0"
| worker: "one_at_a_time E s0 s \<Longrightarrow> one_at_a_time E s0 (crash n (run_once E w st) s)"
| submit:
    "one_at_a_time E s0 s \<Longrightarrow>
     one_at_a_time E s0 (s\<lparr>sy_db := fst (pg_submit_run (sy_now s) r wn p k b (sy_db s))\<rparr>)"
| cancel:
    "one_at_a_time E s0 s \<Longrightarrow>
     one_at_a_time E s0 (s\<lparr>sy_db := fst (pg_request_cancel (sy_now s) r (sy_db s))\<rparr>)"
| heartbeat:
    "one_at_a_time E s0 s \<Longrightarrow>
     one_at_a_time E s0 (s\<lparr>sy_db := fst (pg_heartbeat (sy_now s) r w l (sy_db s))\<rparr>)"
| tick: "one_at_a_time E s0 s \<Longrightarrow> 0 \<le> dt \<Longrightarrow> one_at_a_time E s0 (s\<lparr>sy_now := sy_now s + dt\<rparr>)"
| world: "one_at_a_time E s0 s \<Longrightarrow> one_at_a_time E s0 (s\<lparr>sy_ext := x\<rparr>)"

lemma one_at_a_time_inv:
  assumes E: "d_store E = pg_store" and "no_orphans (sy_db s0)" and "one_at_a_time E s0 s"
  shows "no_orphans (sy_db s)"
  using assms(3)
proof (induction rule: one_at_a_time.induct)
  case (worker s n w st)
  then show ?case using always_crash [OF always_run_once [OF E]] by blast
next
  case (heartbeat s r w l)
  then show ?case using no_orphans_keep [OF _ keeps_heartbeat [of "{}"]] by simp
qed (use assms(2) in \<open>simp_all add: no_orphans_submit no_orphans_cancel\<close>)

text \<open>
  C7. No run is lost: with workers that come one after the other, each dying between any two of its
  statements, and any requests in between, every run that is not over has its row in the queue.
\<close>

theorem no_run_lost:
  assumes "d_store E = pg_store" and "no_orphans (sy_db s0)" and "one_at_a_time E s0 s"
    and "find_run r (sy_db s) = Some w" and "\<not> terminal (rw_status w)"
  shows "\<exists>q \<in> set (pg_run_queue (sy_db s)). q_run_id q = r"
  using no_orphansD [OF one_at_a_time_inv [OF assms(1-3)] assms(4,5)] by (auto simp: queue_ids_def)

section \<open>Every claimable run is claimed\<close>

text \<open>The runs that \<open>n\<close> claims in a row are given, as long as there is one to give.\<close>

primrec claims_in_a_row :: "nat \<Rightarrow> rat \<Rightarrow> string \<Rightarrow> rat \<Rightarrow> pg \<Rightarrow> uuid list" where
  "claims_in_a_row 0 t w l db = []"
| "claims_in_a_row (Suc n) t w l db =
     (case snd (pg_claim t w l db) of
        None \<Rightarrow> []
      | Some c \<Rightarrow> cl_run_id c # claims_in_a_row n t w l (fst (pg_claim t w l db)))"

lemma filter_update_less:
  assumes "x \<in> set xs" and "Q x" and "P x" and "\<And>y. Q y \<Longrightarrow> \<not> P (f y)"
  shows "length (filter P (row_update Q f xs)) < length (filter P xs)"
proof -
  have le: "length (filter P (row_update Q f ys)) \<le> length (filter P ys)" for ys
    using assms(4) by (induction ys) auto
  show ?thesis
    using assms(1)
  proof (induction xs)
    case (Cons y ys)
    show ?case
    proof (cases "x = y")
      case True
      then show ?thesis using le [of ys] assms(2-4) by (auto simp: le_imp_less_Suc)
    next
      case False
      then have "length (filter P (row_update Q f ys)) < length (filter P ys)" using Cons by simp
      then show ?thesis using assms(4) by auto
    qed
  qed simp
qed

lemma claim_given: "q \<in> set (pg_run_queue db) \<Longrightarrow> claimable t q \<Longrightarrow> \<exists>c. snd (pg_claim t w l db) = Some c"
proof -
  assume "q \<in> set (pg_run_queue db)" "claimable t q"
  then have "filter (claimable t) (pg_run_queue db) \<noteq> []" by (auto simp: filter_empty_conv)
  then have "sort_key q_visible_at (filter (claimable t) (pg_run_queue db)) \<noteq> []"
    by (metis length_0_conv length_sort)
  then show ?thesis by (auto simp: pg_claim_def neq_Nil_conv)
qed

lemma claims_reach:
  assumes "0 \<le> l" and "q \<in> set (pg_run_queue db)" and "claimable t q" and "pg_wf db"
    and "length (filter (claimable t) (pg_run_queue db)) \<le> n"
  shows "q_run_id q \<in> set (claims_in_a_row n t w l db)"
  using assms(2-5)
proof (induction n arbitrary: db)
  case 0
  then show ?case by (auto simp: filter_empty_conv)
next
  case (Suc n)
  obtain c where c: "snd (pg_claim t w l db) = Some c" using claim_given [OF Suc.prems(1,2)] by blast
  obtain x where x: "x \<in> set (pg_run_queue db)" "claimable t x" "q_run_id x = cl_run_id c"
    and db': "fst (pg_claim t w l db) = db\<lparr>pg_run_queue := row_update (\<lambda>x. q_run_id x = cl_run_id c)
       (\<lambda>x. x\<lparr>q_locked_until := Some (t + l), q_worker_id := Some w,
              q_attempts := q_attempts x + 1\<rparr>) (pg_run_queue db)\<rparr>"
    by (rule pg_claim_SomeD [OF c])
  show ?case
  proof (cases "q_run_id q = cl_run_id c")
    case True
    then show ?thesis by (simp add: c)
  next
    case False
    have "length (filter (claimable t) (pg_run_queue (fst (pg_claim t w l db)))) <
        length (filter (claimable t) (pg_run_queue db))"
      unfolding db' using x assms(1)
      by (simp, intro filter_update_less [of x]) (auto simp: claimable_def)
    moreover have "q \<in> set (pg_run_queue (fst (pg_claim t w l db)))"
      unfolding db' using False Suc.prems(1) by (force simp: row_update_def)
    ultimately show ?thesis
      using Suc.IH [of "fst (pg_claim t w l db)"] Suc.prems pg_wf_claim by (simp add: c)
  qed
qed

text \<open>
  C8. A crashed run is recovered: when the leases are over, claiming at most as often as there are
  rows in the queue hands out every run that is not over, whoever worked on it before.
\<close>

theorem crashed_run_recovered:
  assumes "d_store E = pg_store" and "no_orphans (sy_db s0)" and "one_at_a_time E s0 s"
    and "find_run r (sy_db s) = Some w" and "\<not> terminal (rw_status w)"
    and "\<forall>q \<in> set (pg_run_queue (sy_db s)). q_visible_at q \<le> t \<and> (\<forall>u. q_locked_until q = Some u \<longrightarrow> u < t)"
    and "0 \<le> l"
  shows "r \<in> set (claims_in_a_row (length (pg_run_queue (sy_db s))) t wk l (sy_db s))"
proof -
  have no: "no_orphans (sy_db s)" by (rule one_at_a_time_inv [OF assms(1-3)])
  obtain q where q: "q \<in> set (pg_run_queue (sy_db s))" "q_run_id q = r"
    using no_orphansD [OF no assms(4,5)] by (auto simp: queue_ids_def)
  have "claimable t q" using assms(6) q by (auto simp: claimable_def split: option.splits)
  then show ?thesis
    using claims_reach [OF assms(7) q(1) _ _ length_filter_le] no q(2) by (simp add: no_orphans_def)
qed


definition demo_dead :: "(pg, uuid list) sys" where
  "demo_dead = crash 1 (run_once demo ''w1'' new_stats) demo_sys"

lemma demo_dead_reach: "one_at_a_time demo demo_sys demo_dead"
  unfolding demo_dead_def by (rule one_at_a_time.worker [OF one_at_a_time.start])

lemma demo_no_orphans: "no_orphans demo_db"
  using pg_wf_demo by (simp add: no_orphans_def) (simp add: demo_db_rows new_run_row_def new_queue_row_def)

lemma demo_dead_db: "sy_db demo_dead = demo_db\<lparr>pg_run_queue := [\<lparr>q_run_id = 7, q_visible_at = 0,
    q_locked_until = Some 30, q_worker_id = Some ''w1'', q_attempts = 1\<rparr>]\<rparr>"
  by (simp add: demo_dead_def run_once_def db_op_def atom_def pg_claim_def lease_seconds_def demo_db_rows
      default_settings_def load_settings_def env_num_def new_queue_row_def claimable_def)

lemma demo_dead_run: "find_run 7 (sy_db demo_dead) =
    Some ((new_run_row 0 7 ''payout'' PNone ''order-1'' no_budget)\<lparr>rw_event_seq := 1\<rparr>)"
  using demo_find_run by (simp add: demo_dead_db)

lemma demo_sys_no_orphans: "no_orphans (sy_db demo_sys)"
  using demo_no_orphans by simp

lemma no_run_lost_witness: "\<exists>q \<in> set (pg_run_queue (sy_db demo_dead)). q_run_id q = 7"
  by (rule no_run_lost [OF demo_simps(1) demo_sys_no_orphans demo_dead_reach demo_dead_run])
    (simp add: new_run_row_def)

lemma crashed_run_recovered_witness:
  "7 \<in> set (claims_in_a_row (length (pg_run_queue (sy_db demo_dead))) 31 ''w2'' 30 (sy_db demo_dead))"
  by (rule crashed_run_recovered [OF demo_simps(1) demo_sys_no_orphans demo_dead_reach demo_dead_run])
    (simp_all add: new_run_row_def, simp add: demo_dead_db)

end
