(* ===== verification/Anomalies.thy ===== *)
theory Anomalies
  imports Outcomes
begin

text \<open>
  What the code does not exclude, on concrete executions of the whole cluster.
\<close>

section \<open>A run that nobody will ever finish\<close>

text \<open>What is left of a program after some of its atoms.\<close>

primrec rest :: "nat \<Rightarrow> ('s, 'r) prog \<Rightarrow> 's \<Rightarrow> ('s, 'r) prog" where
  "rest 0 p s = p"
| "rest (Suc n) p s = (case p of Ret r \<Rightarrow> Ret r | Atom f \<Rightarrow> rest n (snd (f s)) (fst (f s)))"

lemma cluster_runs:
  "cluster_reach E c0 c \<Longrightarrow> i < length (cs_threads c) \<Longrightarrow>
   cluster_reach E c0 (c\<lparr>cs_sys := crash n (cs_threads c ! i) (cs_sys c),
     cs_threads := (cs_threads c)[i := rest n (cs_threads c ! i) (cs_sys c)]\<rparr>)"
proof (induction n arbitrary: c)
  case (Suc n)
  show ?case
  proof (cases "cs_threads c ! i")
    case (Ret x)
    then have "(cs_threads c)[i := Ret x] = cs_threads c" by (metis list_update_id)
    with Ret Suc.prems show ?thesis by simp
  next
    case (Atom f)
    let ?c = "c\<lparr>cs_sys := fst (f (cs_sys c)), cs_threads := (cs_threads c)[i := snd (f (cs_sys c))]\<rparr>"
    have "cluster_reach E c0 ?c"
      using Suc.prems Atom by (intro cluster_reach.step [OF _ cluster_step.atom])
    then show ?thesis using Suc.IH [of ?c] Suc.prems Atom by simp
  qed
qed simp

definition idle_cluster :: "uuid list cluster" where
  "idle_cluster = \<lparr>cs_sys = idle_sys, cs_threads = []\<rparr>"


text \<open>The two workers, and the system at each stage.\<close>

definition early :: "(pg, uuid list) worker_prog" where
  "early = run_once idle ''w1'' new_stats"

definition late :: "(pg, uuid list) worker_prog" where
  "late = run_once idle ''w2'' new_stats"

definition stage1 :: "(pg, uuid list) sys" where
  "stage1 = (crash 1 early idle_sys)\<lparr>sy_now := 31\<rparr>"

definition stage2 :: "(pg, uuid list) sys" where
  "stage2 = crash 2 late stage1"

definition stage3 :: "(pg, uuid list) sys" where
  "stage3 = fst (run (rest 1 early idle_sys) stage2)"

definition stage4 :: "(pg, uuid list) sys" where
  "stage4 = crash 3 (rest 2 late stage1) stage3"

lemmas claim_defs = gets_def ebind_def run_once_def atom_def pg_claim_def lease_seconds_def claimable_def new_queue_row_def

lemma stage1: "stage1 = idle_sys\<lparr>sy_now := 31, sy_db := idle_db\<lparr>pg_run_queue := [\<lparr>q_run_id = 7, q_visible_at = 0,
    q_locked_until = Some 30, q_worker_id = Some ''w1'', q_attempts = 1\<rparr>]\<rparr>\<rparr>"
  by (simp add: stage1_def early_def claim_defs attempt_defs idle_db_rows)

lemma early_rest: "rest 1 early idle_sys = process idle ''w1'' 7 (new_stats\<lparr>ws_claimed := 1\<rparr>)"
  by (simp add: early_def claim_defs db_op_def idle_db_rows new_stats_def)

definition settle :: "outcome py_result \<Rightarrow> (pg, uuid list) worker_prog" where
  "settle x = (case x of
       Inl e \<Rightarrow>
         bind (db_op (\<lambda>t d. (st_release (d_store idle) t 7 ''w2''
                 (se_poll_interval_seconds (d_settings idle)) d, ()))) (\<lambda>_.
         Ret (new_stats\<lparr>ws_claimed := 1\<rparr>, None))
     | Inr oc \<Rightarrow>
         if should_dequeue oc
         then bind (db_op (\<lambda>t d. (st_dequeue (d_store idle) 7 d, ()))) (\<lambda>_.
              Ret (record_outcome oc (new_stats\<lparr>ws_claimed := 1\<rparr>), Some oc))
         else Ret (record_outcome oc (new_stats\<lparr>ws_claimed := 1\<rparr>), Some oc))"

lemma late_rest: "rest 2 late stage1 =
    bind (ebind (begin_attempt (guarded idle ''w2'' 7) 7 (to_run idle_run)) (\<lambda>_. run_attempt (guarded idle ''w2'' 7) 7)) settle"
proof -
  have p: "process idle ''w2'' 7 (new_stats\<lparr>ws_claimed := 1\<rparr>) = bind (execute (guarded idle ''w2'' 7) 7) settle"
    by (simp add: process_def settle_def [abs_def, unfolded One_nat_def])
  have n: "\<not> terminal (rr_status (to_run idle_run))" by (simp add: to_run_def idle_run_def new_run_row_def)
  have f: "pg_get_run 7 (idle_db\<lparr>pg_run_queue := q\<rparr>) = Some (to_run idle_run)" for q
    by (simp add: pg_get_run_def idle_db_rows find_run_def) (simp add: idle_run_def new_run_row_def)
  have one: "new_stats\<lparr>ws_claimed := Suc (ws_claimed new_stats)\<rparr> = new_stats\<lparr>ws_claimed := 1\<rparr>" by (simp add: new_stats_def)
  show ?thesis
    by (simp add: late_def stage1 run_once_def db_op_def atom_def pg_claim_def lease_seconds_def claimable_def new_queue_row_def numeral_eq_Suc execute_def gets_def n f one p [simplified])
qed

lemma stage2: "stage2 = stage1\<lparr>sy_db := idle_db\<lparr>pg_run_queue := [\<lparr>q_run_id = 7, q_visible_at = 0,
    q_locked_until = Some 61, q_worker_id = Some ''w2'', q_attempts = 2\<rparr>]\<rparr>\<rparr>"
  by (simp add: stage2_def stage1 late_def claim_defs attempt_defs idle_db_rows numeral_eq_Suc process_def idle_run_def)

lemma stage3_rows:
  "\<exists>es w. sy_db stage3 = \<lparr>pg_runs = [w], pg_events = es, pg_run_queue = []\<rparr> \<and> rw_run_id w = 7 \<and>
     rw_status w = COMPLETED \<and> rw_attempt w = 1"
  unfolding stage3_def early_rest stage2 stage1
  by (simp add: process_def attempt_defs prog_simps split_def Let_def
      idle_db_rows idle_run_def should_dequeue_def pg_dequeue_def row_delete_def)

text \<open>The steps of the cluster that lead there.\<close>

definition state_of :: "(pg, uuid list) sys \<Rightarrow> (pg, uuid list) worker_prog list \<Rightarrow> uuid list cluster" where
  "state_of s ps = \<lparr>cs_sys = s, cs_threads = ps\<rparr>"

lemma reach_spawn:
  "cluster_reach idle c0 (state_of s ps) \<Longrightarrow> cluster_reach idle c0 (state_of s (ps @ [run_once idle w new_stats]))"
  by (erule cluster_reach.step) (use cluster_step.spawn [of idle "state_of s ps"] in \<open>simp add: state_of_def\<close>)

lemma reach_kill:
  "cluster_reach idle c0 (state_of s ps) \<Longrightarrow> cluster_reach idle c0 (state_of s (take i ps @ drop (Suc i) ps))"
  by (erule cluster_reach.step) (use cluster_step.kill [of idle "state_of s ps"] in \<open>simp add: state_of_def\<close>)

lemma reach_tick:
  "cluster_reach idle c0 (state_of s ps) \<Longrightarrow> sy_now s \<le> t \<Longrightarrow> cluster_reach idle c0 (state_of (s\<lparr>sy_now := t\<rparr>) ps)"
  by (erule cluster_reach.step)
    (use cluster_step.tick [of "t - sy_now s" idle "state_of s ps"] in \<open>simp add: state_of_def\<close>)

lemma reach_run:
  "cluster_reach idle c0 (state_of s ps) \<Longrightarrow> i < length ps \<Longrightarrow>
   cluster_reach idle c0 (state_of (crash n (ps ! i) s) (ps[i := rest n (ps ! i) s]))"
  using cluster_runs [of idle c0 "state_of s ps" i n] by (simp add: state_of_def)

lemma reach_stage3: "cluster_reach idle (state_of idle_sys []) (state_of stage3 [rest 2 late stage1])"
proof -
  have 0: "cluster_reach idle (state_of idle_sys []) (state_of idle_sys [early])"
    using reach_spawn [OF cluster_reach.start, where s = idle_sys and ps = "[]" and w = "''w1''"]
    by (simp add: early_def)
  have 1: "cluster_reach idle (state_of idle_sys []) (state_of (crash 1 early idle_sys) [rest 1 early idle_sys])"
    using reach_run [OF 0, of 0 1] by (simp del: crash.simps rest.simps One_nat_def)
  have "sy_now (crash 1 early idle_sys) = 0"
    by (simp add: early_def claim_defs db_op_def idle_db_rows)
  then have 2: "cluster_reach idle (state_of idle_sys []) (state_of stage1 [rest 1 early idle_sys])"
    using reach_tick [OF 1, of 31] by (simp add: stage1_def del: crash.simps rest.simps One_nat_def)
  have 3: "cluster_reach idle (state_of idle_sys []) (state_of stage2 [rest 1 early idle_sys, rest 2 late stage1])"
    using reach_run [OF reach_spawn [OF 2, of "''w2''"], of 1 2]
    by (simp add: stage2_def late_def del: crash.simps rest.simps)
  obtain n where n: "crash n (rest 1 early idle_sys) stage2 = stage3"
    using crash_complete [of "rest 1 early idle_sys" stage2] by (auto simp: stage3_def)
  show ?thesis
    using reach_kill [OF reach_run [OF 3, of 0 n], of 0] by (simp add: n del: crash.simps rest.simps One_nat_def)
qed

lemma stage4:
  "map_option rw_status (find_run 7 (sy_db stage4)) = Some RUNNING \<and> pg_run_queue (sy_db stage4) = []"
proof -
  obtain es w where db: "sy_db stage3 = \<lparr>pg_runs = [w], pg_events = es, pg_run_queue = []\<rparr>"
    and w: "rw_run_id w = 7" "rw_attempt w = 1" using stage3_rows by blast
  have f: "find_run 7 (sy_db stage3) = Some w" by (simp add: db find_run_def w)
  have "pg_wf idle_db" using idle_has_run by (simp add: pg_has_run_def)
  then have "pg_wf (sy_db stage3)"
    using cluster_reach_ok [OF reach_stage3 pg_tables.guaranteed_store_axioms] by (simp add: state_of_def)
  then have has: "pg_has_run 7 (fst (pg_bump_attempt t 7 (sy_db stage3)))" for t
    using f pg_wf_bump_attempt by (simp add: pg_has_run_def pg_bump_attempt_def find_update_run)
  let ?t = "sy_now stage3"
  let ?d1 = "fst (pg_bump_attempt ?t 7 (sy_db stage3))"
  let ?p = "PDict [(KStr ''attempt'', PInt 2), (KStr ''events_before_resume'', PInt (int (rr_event_seq (to_run idle_run))))]"
  let ?d2 = "fst (append_event_conn ?t 7 RUN_RESUMED None ?p ?d1)"
  let ?d3 = "fst (pg_set_status ?t 7 RUNNING PNone PNone ?d2)"
  have bump: "snd (pg_bump_attempt ?t 7 (sy_db stage3)) = Inr (Some 2)"
    by (simp add: pg_bump_attempt_def f w)
  obtain n where app: "snd (append_event_conn ?t 7 RUN_RESUMED None ?p ?d1) = Inr (Some n)"
    using pg_log.append_Inr [OF has, of ?p ?t RUN_RESUMED None ?t] by auto
  have st: "stage4 = stage3\<lparr>sy_db := ?d3\<rparr>"
    unfolding stage4_def late_rest using bump app
    by (simp add: numeral_eq_Suc begin_attempt_def ebind_def db_op_def atom_def split_def Let_def)
  have "pg_has_run 7 ?d2" using has by (rule pg_has_append)
  then have "map_option rw_status (find_run 7 ?d3) = Some RUNNING"
    using pg_status.status_set [of 7 ?d2 PNone PNone ?t RUNNING] by (simp add: pg_status_of)
  moreover have "pg_run_queue ?d3 = []"
    by (simp add: pg_set_status_def pg_bump_attempt_def append_event_conn_def Let_def db split: option.splits)
  ultimately show ?thesis by (simp add: st)
qed

text \<open>
  C12. A run can be lost to a stale worker. Worker 1 claims a run and stalls past its lease; worker 2
  claims it and reads that it is not over; worker 1 wakes up, completes the run and removes the queue
  row, which is worker 2's by now; worker 2 sets the status back to \<open>RUNNING\<close> and dies. The run is
  \<open>RUNNING\<close>, no worker is on it, and no claim will hand it out again.
\<close>

theorem run_lost_to_stale_worker:
  "\<exists>c. cluster_reach idle (state_of idle_sys []) c \<and> cs_threads c = [] \<and>
     map_option rw_status (find_run 7 (sy_db (cs_sys c))) = Some RUNNING \<and>
     (\<forall>t w l. snd (pg_claim t w l (sy_db (cs_sys c))) = None)"
proof -
  have 1: "cluster_reach idle (state_of idle_sys []) (state_of stage4 [rest 3 (rest 2 late stage1) stage3])"
    using reach_run [OF reach_stage3, of 0 3] by (simp add: stage4_def del: crash.simps rest.simps)
  have "cluster_reach idle (state_of idle_sys []) (state_of stage4 [])"
    using reach_kill [OF 1, of 0] by (simp del: crash.simps rest.simps)
  moreover have "snd (pg_claim t w l (sy_db stage4)) = None" for t w l
    using stage4 by (simp add: pg_claim_def)
  ultimately show ?thesis
    using stage4 by (intro exI [of _ "state_of stage4 []"]) (simp add: state_of_def)
qed
end
