(* ===== verification/Store_Facts.thy ===== *)
theory Store_Facts
  imports Demo
begin

text \<open>
  What the operations of the Postgres store promise their clients, one by one: submission, the queue
  and its leases, cancellation, reading back, side effects.
\<close>

section \<open>Submission\<close>

lemma row_find_append_new: "row_find P xs = None \<Longrightarrow> row_find P (xs @ [x]) = (if P x then Some x else None)"
  by (simp add: row_find_append)

lemma submit_created:
  assumes wf: "pg_wf db" and sub: "pg_submit_run t r wn p k b db = (d, Inr (rr, True))"
  shows "json_ok p \<and> row_find (\<lambda>w. rw_idempotency_key w = k) (pg_runs db) = None \<and> find_run r db = None"
proof -
  have p: "json_ok p" using sub by (cases "json_ok p") (simp_all add: pg_submit_run_def)
  have k: "row_find (\<lambda>w. rw_idempotency_key w = k) (pg_runs db) = None"
    using sub p by (auto simp: pg_submit_run_def split: option.splits)
  moreover have "find_run r db = None"
  proof (rule ccontr)
    assume "find_run r db \<noteq> None"
    then show False using sub p k by (simp add: pg_submit_run_def)
  qed
  ultimately show ?thesis using p by simp
qed

lemma runs_append: "find_run r db = Some w \<Longrightarrow> pg_wf db \<Longrightarrow> json_ok p \<Longrightarrow>
   pg_runs (fst (append_event_conn t r ty sk p db)) =
     row_update (\<lambda>x. rw_run_id x = r) (\<lambda>x. x\<lparr>rw_event_seq := Suc (rw_event_seq w), rw_updated_at := t\<rparr>) (pg_runs db)"
  by (simp add: append_event_conn_wf update_run_def)

text \<open>
  Submission is idempotent: a second submission under the key of the first, whatever else it says,
  returns the first run and leaves the database alone.
\<close>

theorem submit_idempotent:
  assumes "pg_wf db" and "pg_submit_run t r wn p k b db = (d, Inr (rr, True))" and "json_ok p'"
  shows "\<exists>rr'. pg_submit_run t' r' wn' p' k b' d = (d, Inr (rr', False)) \<and> rr_run_id rr' = rr_run_id rr \<and>
    rr_input rr' = rr_input rr \<and> rr_workflow rr' = rr_workflow rr"
proof -
  have new: "json_ok p" "row_find (\<lambda>w. rw_idempotency_key w = k) (pg_runs db) = None" "find_run r db = None"
    using submit_created [OF assms(1,2)] by blast+
  let ?w = "new_run_row t r wn p k b"
  let ?db1 = "db\<lparr>pg_runs := pg_runs db @ [?w], pg_run_queue := pg_run_queue db @ [new_queue_row t r]\<rparr>"
  note sub = pg_submit_run_new [OF assms(1) new, where t = t and wn = wn and b = b]
  have d: "d = fst (append_event_conn t r RUN_STARTED None (run_started_payload wn p b) ?db1)"
    and rr: "rr = to_run (?w\<lparr>rw_event_seq := 1\<rparr>)"
    using sub(2,5) assms(2) by simp_all
  have wf1: "pg_wf ?db1"
    using new assms(1) by (intro pg_wf_insert_run) (auto simp: new_run_row_def new_queue_row_def row_find_None)
  have f1: "find_run r ?db1 = Some ?w"
    using new(3) by (simp add: find_run_def row_find_append new_run_row_def)
  have "pg_runs d = row_update (\<lambda>x. rw_run_id x = r) (\<lambda>x. x\<lparr>rw_event_seq := Suc (rw_event_seq ?w), rw_updated_at := t\<rparr>)
      (pg_runs db @ [?w])"
    unfolding d using runs_append [OF f1 wf1, of "run_started_payload wn p b" t RUN_STARTED None] new(1) by simp
  then have "row_find (\<lambda>w. rw_idempotency_key w = k) (pg_runs d) =
      Some (?w\<lparr>rw_event_seq := Suc (rw_event_seq ?w), rw_updated_at := t\<rparr>)"
    using new(2) by (simp add: row_find_update row_find_append) (simp add: new_run_row_def)
  then show ?thesis
    using assms(3) rr by (simp add: pg_submit_run_def) (simp add: new_run_row_def to_run_def)
qed

lemma submit_idempotent_witness:
  "\<exists>rr'. pg_submit_run 5 9 ''other'' (PInt 1) ''order-1'' no_budget demo_db = (demo_db, Inr (rr', False)) \<and>
    rr_run_id rr' = 7 \<and> rr_input rr' = PNone \<and> rr_workflow rr' = ''payout''"
proof -
  have "pg_submit_run 0 7 ''payout'' PNone ''order-1'' no_budget pg_empty = (demo_db, Inr (demo_run, True))"
    using pg_submit_run_new(2) [OF pg_wf_empty, of PNone "''order-1''" 7 0 "''payout''" no_budget]
    by (simp add: demo_db_def demo_run_def pg_empty_def find_run_def prod_eq_iff)
  from submit_idempotent [OF pg_wf_empty this, of "PInt 1" 5 9 "''other''" no_budget]
  show ?thesis by (simp add: demo_run_def to_run_def new_run_row_def)
qed

text \<open>
  C29. A first submission under a key creates a pending run with its budget and no usage, the event
  \<open>RunStarted\<close> as its whole log, and a row in the queue that can be claimed at once.
\<close>

theorem submit_enqueues:
  assumes "pg_wf db" and "json_ok p" and "row_find (\<lambda>w. rw_idempotency_key w = k) (pg_runs db) = None"
    and "find_run r db = None"
  shows "\<exists>d rr. pg_submit_run t r wn p k b db = (d, Inr (rr, True)) \<and> rr_run_id rr = r \<and>
    rr_status rr = PENDING \<and> rr_budget rr = b \<and> rr_usage rr = no_usage \<and> rr_input rr = json_norm p \<and>
    map ev_type (pg_load_events r d) = [RUN_STARTED] \<and>
    (\<exists>q \<in> set (pg_run_queue d). q_run_id q = r \<and> claimable t q)"
proof -
  note sub = pg_submit_run_new [OF assms, where t = t and wn = wn and b = b]
  let ?rr = "to_run ((new_run_row t r wn p k b)\<lparr>rw_event_seq := 1\<rparr>)"
  have "pg_submit_run t r wn p k b db = (fst (pg_submit_run t r wn p k b db), Inr (?rr, True))"
    using sub(2) by (simp add: prod_eq_iff)
  moreover have "rr_run_id ?rr = r \<and> rr_status ?rr = PENDING \<and> rr_budget ?rr = b \<and> rr_usage ?rr = no_usage \<and>
      rr_input ?rr = json_norm p"
    by (simp add: to_run_def new_run_row_def pydict_of_def budget_dict_roundtrip usage_from_dict_def no_usage_def dict_int_def dict_rat_def)
  moreover have "claimable t (new_queue_row t r)" "q_run_id (new_queue_row t r) = r"
    by (simp_all add: claimable_def new_queue_row_def)
  ultimately show ?thesis
    using sub(3,4) by (intro exI [of _ "fst (pg_submit_run t r wn p k b db)"] exI [of _ ?rr]) (simp add: new_event_def)
qed

lemma submit_enqueues_witness:
  "\<exists>d rr. pg_submit_run 0 7 ''payout'' PNone ''order-1'' no_budget pg_empty = (d, Inr (rr, True)) \<and> rr_run_id rr = 7 \<and>
    rr_status rr = PENDING \<and> rr_budget rr = no_budget \<and> rr_usage rr = no_usage \<and> rr_input rr = PNone \<and>
    map ev_type (pg_load_events 7 d) = [RUN_STARTED] \<and> (\<exists>q \<in> set (pg_run_queue d). q_run_id q = 7 \<and> claimable 0 q)"
  using submit_enqueues [OF pg_wf_empty, of PNone "''order-1''" 7 0 "''payout''" no_budget]
  by (simp add: pg_empty_def find_run_def)

section \<open>The queue\<close>

text \<open>
  C25. A claim is given a claimable run that has been visible for longest, and its worker then holds the
  lease until it ends and no longer; without a claimable run the claim is refused and changes nothing.
\<close>

theorem claim_oldest:
  assumes "pg_wf db"
  shows "case snd (pg_claim t w l db) of
      None \<Rightarrow> \<not> (\<exists>q \<in> set (pg_run_queue db). claimable t q) \<and> fst (pg_claim t w l db) = db
    | Some c \<Rightarrow> (\<exists>q \<in> set (pg_run_queue db). claimable t q \<and> q_run_id q = cl_run_id c \<and>
          (\<forall>x \<in> set (pg_run_queue db). claimable t x \<longrightarrow> q_visible_at q \<le> q_visible_at x)) \<and>
        (\<forall>t'. pg_holds t' (cl_run_id c) w (fst (pg_claim t w l db)) \<longleftrightarrow> t' < t + l)"
proof (cases "sort_key q_visible_at (filter (claimable t) (pg_run_queue db))")
  case Nil
  then have "filter (claimable t) (pg_run_queue db) = []" by (metis length_0_conv length_sort)
  then show ?thesis using Nil by (auto simp: pg_claim_def filter_empty_conv)
next
  case (Cons q qs)
  have s: "set (q # qs) = {x \<in> set (pg_run_queue db). claimable t x}"
    using Cons by (metis set_filter set_sort)
  have srt: "\<forall>x \<in> set qs. q_visible_at q \<le> q_visible_at x"
    using sorted_sort_key [of q_visible_at "filter (claimable t) (pg_run_queue db)"] Cons by simp
  have c: "snd (pg_claim t w l db) = Some \<lparr>cl_run_id = q_run_id q, cl_attempts = q_attempts q + 1\<rparr>"
    using Cons by (simp add: pg_claim_def)
  have "q \<in> set (pg_run_queue db)" "claimable t q" using s by auto
  moreover have "q_visible_at q \<le> q_visible_at x" if "x \<in> set (pg_run_queue db)" "claimable t x" for x
    using that s srt by auto
  moreover have "pg_holds t' (q_run_id q) w (fst (pg_claim t w l db)) \<longleftrightarrow> t' < t + l" for t'
    using pg_lease.claim_holds [OF assms, of t w l, unfolded pg_store_simps, OF c] by simp
  ultimately show ?thesis by (auto simp: c)
qed

lemma claim_oldest_witness:
  "pg_holds 29 7 ''w1'' (fst (pg_claim 0 ''w1'' 30 demo_db)) \<and> \<not> pg_holds 30 7 ''w1'' (fst (pg_claim 0 ''w1'' 30 demo_db))"
  using claim_oldest [OF pg_wf_demo, of 0 "''w1''" 30]
  by (simp add: pg_claim_def demo_db_rows claimable_def new_queue_row_def)

text \<open>
  C24. While a lease lives, it is exclusive: another worker's heartbeat on the run is rejected and no
  claim is given the run, and the holder's own heartbeat succeeds.
\<close>

theorem lease_exclusive:
  assumes "pg_wf db" and "snd (pg_claim t w l db) = Some c" and "0 < l" and "w' \<noteq> w" and "t \<le> t'" and "t' < t + l"
  shows "snd (pg_heartbeat t' (cl_run_id c) w' l' (fst (pg_claim t w l db))) = False \<and>
    map_option cl_run_id (snd (pg_claim t' w' l' (fst (pg_claim t w l db)))) \<noteq> Some (cl_run_id c) \<and>
    snd (pg_heartbeat t' (cl_run_id c) w l' (fst (pg_claim t w l db)))"
proof -
  have wf: "pg_wf (fst (pg_claim t w l db))" using assms(1) by (rule pg_wf_claim)
  have h: "pg_holds t' (cl_run_id c) w (fst (pg_claim t w l db))"
    using pg_lease.claim_holds [OF assms(1), of t w l] assms(2,6) by simp
  show ?thesis
    using pg_lease.claim_excludes [OF assms(1) _ assms(3) _ assms(4,5,6), of c l'] assms(2) wf
      pg_lease.claim_not_held [OF wf h, of w' l'] pg_lease.heartbeat_iff [OF wf, of t' "cl_run_id c" w l'] h
    by simp
qed

lemma lease_exclusive_witness:
  "snd (pg_heartbeat 29 7 ''w2'' 30 (fst (pg_claim 0 ''w1'' 30 demo_db))) = False \<and>
    map_option cl_run_id (snd (pg_claim 29 ''w2'' 30 (fst (pg_claim 0 ''w1'' 30 demo_db)))) \<noteq> Some 7 \<and>
    snd (pg_heartbeat 29 7 ''w1'' 30 (fst (pg_claim 0 ''w1'' 30 demo_db)))"
  using lease_exclusive [OF pg_wf_demo, of 0 "''w1''" 30 "\<lparr>cl_run_id = 7, cl_attempts = 1\<rparr>" "''w2''" 29 30]
  by (simp add: pg_claim_def demo_db_rows claimable_def new_queue_row_def)


section \<open>Cancellation\<close>

text \<open>
  Cancellation is accepted exactly for a run that is not over, changes nothing otherwise, is logged,
  and makes the next checkpoint of the run raise \<open>CancellationRequested\<close>.
\<close>

theorem cancel_takes_effect:
  assumes "pg_wf (sy_db s)" and w: "find_run r (sy_db s) = Some w" and "cx_run_id c = r"
    and "d_store E = pg_store" and "d_lease_guard E = None"
    and "pg_request_cancel (sy_now s) r (sy_db s) = (d, yes)"
  shows "(yes \<longleftrightarrow> \<not> terminal (rw_status w)) \<and> (\<not> yes \<longrightarrow> d = sy_db s) \<and>
    (yes \<longrightarrow> map ev_type (pg_load_events r d) = map ev_type (pg_load_events r (sy_db s)) @ [CANCEL_REQUESTED] \<and>
      run (checkpoint_guards E) (s\<lparr>sy_db := d\<rparr>, c) =
        ((s\<lparr>sy_db := d\<rparr>, c), Inl (CancellationRequested (''run '' @ uuid_str r @ '' was cancelled''))))"
proof -
  have h0: "pg_has_run r (sy_db s)" using assms(1) w by (simp add: pg_has_run_def)
  let ?u = "update_run r (\<lambda>w. w\<lparr>rw_cancel_requested := True, rw_updated_at := sy_now s\<rparr>) (sy_db s)"
  have h: "pg_has_run r ?u" using h0 by (rule pg_has_update_run) simp_all
  show ?thesis
  proof (cases "terminal (rw_status w)")
    case True
    then show ?thesis using assms(6) w by (auto simp: pg_request_cancel_def)
  next
    case False
    then have d: "d = fst (append_event_conn (sy_now s) r CANCEL_REQUESTED None (PDict []) ?u)" and yes
      using assms(6) w by (simp_all add: pg_request_cancel_def)
    have "map ev_type (pg_load_events r d) = map ev_type (pg_load_events r (sy_db s)) @ [CANCEL_REQUESTED]"
      using pg_load_append [OF h, of "PDict []" "sy_now s" CANCEL_REQUESTED None] by (auto simp: d new_event_def)
    moreover have "pg_is_cancel_requested r d"
      using h w by (simp add: d pg_is_cancel_requested_def find_run_append pg_has_run_def find_update_run)
    ultimately show ?thesis
      using False \<open>yes\<close> assms(3-5) by (simp add: checkpoint_guards_def prog_simps)
  qed
qed

lemma cancel_takes_effect_witness:
  "run (checkpoint_guards demo) (demo_sys\<lparr>sy_db := fst (pg_request_cancel 0 7 demo_db)\<rparr>, demo_ctx) =
    ((demo_sys\<lparr>sy_db := fst (pg_request_cancel 0 7 demo_db)\<rparr>, demo_ctx),
     Inl (CancellationRequested (''run '' @ uuid_str 7 @ '' was cancelled'')))"
proof -
  have "pg_request_cancel (sy_now demo_sys) 7 (sy_db demo_sys) = (fst (pg_request_cancel 0 7 demo_db), True)"
    by (simp add: pg_request_cancel_def demo_find_run new_run_row_def)
  from cancel_takes_effect [OF _ _ _ _ _ this, of _ demo_ctx demo] show ?thesis
    using pg_wf_demo demo_find_run by simp
qed

section \<open>What is read back\<close>

text \<open>
  A status that is set reads back, with the result and the error as JSON gives them back; a result
  or an error of \<open>None\<close> keeps the one that is there.
\<close>

theorem status_read_back:
  assumes "pg_get_run r db = Some rr" and "json_ok result" and "json_ok error"
  shows "\<exists>d. pg_set_status t r st result error db = (d, Inr ()) \<and> pg_get_run r d = Some (rr
    \<lparr>rr_status := st, rr_result := (if result = PNone then rr_result rr else json_norm result),
     rr_error := (if error = PNone then rr_error rr else json_norm error), rr_updated_at := t,
     rr_finished_at := (if terminal st then Some t else rr_finished_at rr)\<rparr>)"
proof -
  obtain w where w: "find_run r db = Some w" "rr = to_run w" using assms(1) by (auto simp: pg_get_run_def)
  then show ?thesis
    using assms(2,3) by (simp add: pg_set_status_def pg_get_run_def find_update_run)
      (simp add: to_run_def py_get_def dict_get_def)
qed

lemma status_read_back_witness:
  "\<exists>d. pg_set_status 5 7 COMPLETED (PTuple [PInt 1]) PNone demo_db = (d, Inr ()) \<and> pg_get_run 7 d = Some (demo_run
    \<lparr>rr_status := COMPLETED, rr_result := PList [PInt 1], rr_updated_at := 5, rr_finished_at := Some 5\<rparr>)"
  using status_read_back [of 7 demo_db demo_run "PTuple [PInt 1]" PNone 5 COMPLETED]
  by (simp add: pg_get_run_def demo_find_run demo_run_def)

text \<open>
  A usage that is saved is the usage that is loaded, whatever was there before, and nothing else of
  the run changes but the time of its last update.
\<close>

theorem usage_read_back:
  assumes "pg_get_run r db = Some rr"
  shows "pg_get_run r (pg_save_usage t r u db) = Some (rr\<lparr>rr_usage := u, rr_updated_at := t\<rparr>)"
  using assms by (auto simp: pg_get_run_def pg_save_usage_def find_update_run)
    (simp add: to_run_def pydict_of_def usage_dict_roundtrip)

lemma usage_read_back_witness:
  "pg_get_run 7 (pg_save_usage 5 7 (add_tool_call no_usage) demo_db) =
    Some (demo_run\<lparr>rr_usage := add_tool_call no_usage, rr_updated_at := 5\<rparr>)"
  by (rule usage_read_back) (simp add: pg_get_run_def demo_find_run demo_run_def)

section \<open>Side effects\<close>

text \<open>A sequence of calls to the downstream system, and what each of them answered.\<close>

primrec record_all ::
  "(rat \<times> uuid \<times> uuid \<times> string \<times> pyval) list \<Rightarrow> effect list \<Rightarrow> effect list \<times> bool py_result list" where
  "record_all [] es = (es, [])"
| "record_all (x # xs) es =
     (case x of (t, token, r, kind, p) \<Rightarrow>
        let (es1, y) = record_side_effect t token r kind p es; (es2, ys) = record_all xs es1 in (es2, y # ys))"

lemma record_all_distinct:
  "distinct (map ef_token es) \<Longrightarrow> distinct (map ef_token (fst (record_all xs es)))"
proof (induction xs arbitrary: es)
  case (Cons x xs)
  obtain t token r kind p where x: "x = (t, token, r, kind, p)" by (metis prod.exhaust)
  have "distinct (map ef_token (fst (record_side_effect t token r kind p es)))"
    using Cons.prems by (auto simp: record_side_effect_def)
  then show ?case using Cons.IH by (simp add: x split_def Let_def)
qed simp

lemma record_all_grows: "set es \<subseteq> set (fst (record_all xs es))"
proof (induction xs arbitrary: es)
  case (Cons x xs)
  obtain t token r kind p where x: "x = (t, token, r, kind, p)" by (metis prod.exhaust)
  have "set es \<subseteq> set (fst (record_side_effect t token r kind p es))"
    by (auto simp: record_side_effect_def)
  then show ?case using Cons.IH by (fastforce simp: x split_def Let_def)
qed simp

text \<open>The answers \<open>True\<close> are exactly the new rows: one per token, whatever is retried.\<close>

lemma record_all_answers:
  "length (fst (record_all xs es)) = length es + length (filter (\<lambda>y. y = Inr True) (snd (record_all xs es)))"
proof (induction xs arbitrary: es)
  case (Cons x xs)
  obtain t token r kind p where x: "x = (t, token, r, kind, p)" by (metis prod.exhaust)
  have "length (fst (record_side_effect t token r kind p es)) =
      length es + (if snd (record_side_effect t token r kind p es) = Inr True then 1 else 0)"
    by (simp add: record_side_effect_def)
  then show ?case using Cons.IH [of "fst (record_side_effect t token r kind p es)"]
    by (simp add: x split_def Let_def)
qed simp

text \<open>
  A downstream system that deduplicates on the token has at most one effect for a token after any
  sequence of calls, and has answered \<open>True\<close> exactly as often as it has effects.
\<close>

theorem effect_once:
  "length (filter (\<lambda>e. ef_token e = token) (fst (record_all xs []))) \<le> 1 \<and>
   length (fst (record_all xs [])) = length (filter (\<lambda>y. y = Inr True) (snd (record_all xs [])))"
proof -
  have "distinct (map ef_token (filter (\<lambda>e. ef_token e = token) (fst (record_all xs []))))"
    using record_all_distinct [of "[]" xs] by (simp add: distinct_map_filter)
  moreover have "set (map ef_token (filter (\<lambda>e. ef_token e = token) (fst (record_all xs [])))) \<subseteq> {token}" by auto
  ultimately have "length (map ef_token (filter (\<lambda>e. ef_token e = token) (fst (record_all xs [])))) \<le> card {token}"
    by (metis card_mono distinct_card finite.emptyI finite.insertI)
  then show ?thesis using record_all_answers [of xs "[]"] by simp
qed

end
