(* ===== verification/Json.thy ===== *)
theory Json
  imports Providers
begin

text \<open>
  The text of a JSON value. \<open>json.dumps\<close> and \<open>json.loads\<close> are the encoder and the decoder of every
  \<open>jsonb\<close> column (\<open>_init_connection\<close> of \<open>src/anchor/store/postgres.py\<close>), the check of a step's result
  (\<open>_ensure_json\<close>) and the way the refund agent passes its input to the model. Characters are those
  up to 255. The \<open>repr\<close> of a float and \<open>float\<close> of its text are parameters: \<open>fs\<close> and \<open>pf\<close>.
\<close>

section \<open>Printing\<close>

definition json_escape :: "char \<Rightarrow> string" where
  "json_escape c =
     (let n = (of_char c :: nat) in
      if c = CHR 0x22 \<or> c = CHR 0x5C then [CHR 0x5C, c]
      else if n = 10 then [CHR 0x5C, CHR ''n'']
      else if n = 13 then [CHR 0x5C, CHR ''r'']
      else if n = 9 then [CHR 0x5C, CHR ''t'']
      else if n = 12 then [CHR 0x5C, CHR ''f'']
      else if n = 8 then [CHR 0x5C, CHR ''b'']
      else if 32 \<le> n \<and> n \<le> 126 then [c]
      else [CHR 0x5C, CHR ''u'', CHR ''0'', CHR ''0'', hex_digit (n div 16), hex_digit (n mod 16)])"

definition json_str :: "string \<Rightarrow> string" where
  "json_str s = CHR 0x22 # concat (map json_escape s) @ [CHR 0x22]"

fun sep_by :: "string list \<Rightarrow> string" where
  "sep_by [] = []"
| "sep_by [x] = x"
| "sep_by (x # y # xs) = x @ '', '' @ sep_by (y # xs)"

fun json_text :: "(rat \<Rightarrow> string) \<Rightarrow> pyval \<Rightarrow> string" where
  "json_text fs PNone = ''null''"
| "json_text fs (PBool b) = (if b then ''true'' else ''false'')"
| "json_text fs (PInt i) = str_int i"
| "json_text fs (PFloat r) = fs r"
| "json_text fs (PStr s) = json_str s"
| "json_text fs (PList xs) = CHR ''['' # sep_by (map (json_text fs) xs) @ '']''"
| "json_text fs (PTuple xs) = CHR ''['' # sep_by (map (json_text fs) xs) @ '']''"
| "json_text fs (PDict d) =
     CHR ''{'' # sep_by (map (\<lambda>(k, v). json_str (json_key k) @ '': '' @ json_text fs v) d) @ ''}''"
| "json_text fs (PObj c) = []"

definition json_dumps :: "(rat \<Rightarrow> string) \<Rightarrow> pyval \<Rightarrow> string py_result" where
  "json_dumps fs v =
     (if json_ok v then Inr (json_text fs v) else Inl (type_error ''not JSON serializable''))"

section \<open>Reading\<close>

definition is_ws :: "char \<Rightarrow> bool" where
  "is_ws c \<longleftrightarrow> c = CHR '' '' \<or> c = CHR 0x09 \<or> c = CHR 0x0A \<or> c = CHR 0x0D"

definition skip_ws :: "string \<Rightarrow> string" where
  "skip_ws s = dropWhile is_ws s"

definition unhex :: "char \<Rightarrow> nat option" where
  "unhex c =
     (let n = (of_char c :: nat) in
      if 48 \<le> n \<and> n \<le> 57 then Some (n - 48)
      else if 97 \<le> n \<and> n \<le> 102 then Some (n - 87)
      else if 65 \<le> n \<and> n \<le> 70 then Some (n - 55)
      else None)"

fun hex4 :: "string \<Rightarrow> nat option" where
  "hex4 [a, b, c, d] =
     (case (unhex a, unhex b, unhex c, unhex d) of
        (Some x, Some y, Some z, Some w) \<Rightarrow> Some (4096 * x + 256 * y + 16 * z + w)
      | _ \<Rightarrow> None)"
| "hex4 _ = None"

text \<open>What stands behind a backslash.\<close>

definition unescape :: "char \<Rightarrow> char option" where
  "unescape c =
     (if c = CHR 0x22 \<or> c = CHR 0x5C \<or> c = CHR ''/'' then Some c
      else if c = CHR ''n'' then Some (CHR 0x0A)
      else if c = CHR ''r'' then Some (CHR 0x0D)
      else if c = CHR ''t'' then Some (CHR 0x09)
      else if c = CHR ''f'' then Some (CHR 0x0C)
      else if c = CHR ''b'' then Some (CHR 0x08)
      else None)"

text \<open>One character of a string, behind the opening quote: itself or what its escape stands for.\<close>

fun scan_char :: "string \<Rightarrow> (char \<times> string) option" where
  "scan_char [] = None"
| "scan_char (c # s) =
     (if c = CHR 0x5C then
        (case s of
           [] \<Rightarrow> None
         | e # t \<Rightarrow>
             if e = CHR ''u'' then
               (case hex4 (take 4 t) of
                  None \<Rightarrow> None
                | Some n \<Rightarrow> if n < 256 then Some (char_of n, drop 4 t) else None)
             else map_option (\<lambda>x. (x, t)) (unescape e))
      else if (of_char c :: nat) < 32 then None
      else Some (c, s))"

lemma scan_char_shorter: "scan_char s = Some (c, t) \<Longrightarrow> length t < length s"
  by (cases s) (auto split: if_splits list.splits option.splits)

function scan_str :: "string \<Rightarrow> (string \<times> string) option" where
  "scan_str s =
     (case s of
        [] \<Rightarrow> None
      | c # r \<Rightarrow>
          if c = CHR 0x22 then Some ([], r)
          else (case scan_char s of
                  None \<Rightarrow> None
                | Some (x, t) \<Rightarrow> map_option (apfst (Cons x)) (scan_str t)))"
  by pat_completeness auto
termination
  by (relation "measure length") (auto dest: scan_char_shorter simp del: scan_char.simps)

declare scan_str.simps [simp del]

text \<open>A number: its text, whether it has a fraction or an exponent, and what follows.\<close>

definition scan_frac :: "string \<Rightarrow> string \<times> string" where
  "scan_frac s =
     (case s of
        [] \<Rightarrow> ([], s)
      | c # r \<Rightarrow>
          if c = CHR ''.'' \<and> takeWhile is_digit r \<noteq> []
          then (c # takeWhile is_digit r, dropWhile is_digit r) else ([], s))"

definition scan_exp :: "string \<Rightarrow> string \<times> string" where
  "scan_exp s =
     (case s of
        [] \<Rightarrow> ([], s)
      | c # r \<Rightarrow>
          let sign = (case r of x # _ \<Rightarrow> if x = CHR ''+'' \<or> x = CHR ''-'' then [x] else [] | [] \<Rightarrow> []);
              t = drop (length sign) r
          in if (c = CHR ''e'' \<or> c = CHR ''E'') \<and> takeWhile is_digit t \<noteq> []
             then (c # sign @ takeWhile is_digit t, dropWhile is_digit t) else ([], s))"

definition scan_num :: "string \<Rightarrow> (string \<times> bool \<times> string) option" where
  "scan_num s =
     (let sign = (case s of x # _ \<Rightarrow> if x = CHR ''-'' then [x] else [] | [] \<Rightarrow> []);
          t = drop (length sign) s; ds = takeWhile is_digit t
      in if ds = [] then None
         else
           (let n = (if hd ds = CHR ''0'' then [CHR ''0''] else ds);
                (f, t1) = scan_frac (drop (length n) t);
                (e, t2) = scan_exp t1
            in Some (sign @ n @ f @ e, f \<noteq> [] \<or> e \<noteq> [], t2)))"

definition int_of_text :: "string \<Rightarrow> int" where
  "int_of_text s =
     (case s of [] \<Rightarrow> 0
      | c # r \<Rightarrow> if c = CHR ''-'' then - int (nat_str r) else int (nat_str s))"

definition read_num :: "(string \<Rightarrow> rat) \<Rightarrow> string \<Rightarrow> (pyval \<times> string) option" where
  "read_num pf s =
     map_option (\<lambda>(n, fl, r). (if fl then PFloat (pf n) else PInt (int_of_text n), r)) (scan_num s)"

text \<open>
  A value, the items of a list and the members of an object, behind the opening bracket. The fuel is
  the nesting plus the number of siblings; \<open>json_loads\<close> gives the length of the text, and a value
  is at least one character long.
\<close>

fun read_value :: "(string \<Rightarrow> rat) \<Rightarrow> nat \<Rightarrow> string \<Rightarrow> (pyval \<times> string) option"
  and read_items :: "(string \<Rightarrow> rat) \<Rightarrow> nat \<Rightarrow> string \<Rightarrow> (pyval list \<times> string) option"
  and read_members :: "(string \<Rightarrow> rat) \<Rightarrow> nat \<Rightarrow> string \<Rightarrow> (pydict \<times> string) option" where
  "read_value pf 0 s = None"
| "read_value pf (Suc n) s =
     (case s of
        [] \<Rightarrow> None
      | c # r \<Rightarrow>
          if c = CHR 0x22 then map_option (apfst PStr) (scan_str r)
          else if c = CHR ''['' then
            (if take 1 (skip_ws r) = '']'' then Some (PList [], drop 1 (skip_ws r))
             else map_option (apfst PList) (read_items pf n (skip_ws r)))
          else if c = CHR ''{'' then
            (if take 1 (skip_ws r) = ''}'' then Some (PDict [], drop 1 (skip_ws r))
             else map_option (apfst (\<lambda>ps. PDict (dict_update [] ps))) (read_members pf n (skip_ws r)))
          else if take 4 s = ''null'' then Some (PNone, drop 4 s)
          else if take 4 s = ''true'' then Some (PBool True, drop 4 s)
          else if take 5 s = ''false'' then Some (PBool False, drop 5 s)
          else read_num pf s)"
| "read_items pf 0 s = None"
| "read_items pf (Suc n) s =
     Option.bind (read_value pf n s) (\<lambda>(v, t).
       if take 1 (skip_ws t) = '']'' then Some ([v], drop 1 (skip_ws t))
       else if take 1 (skip_ws t) = '','' then
         map_option (apfst (Cons v)) (read_items pf n (skip_ws (drop 1 (skip_ws t))))
       else None)"
| "read_members pf 0 s = None"
| "read_members pf (Suc n) s =
     (if take 1 s \<noteq> [CHR 0x22] then None
      else Option.bind (scan_str (drop 1 s)) (\<lambda>(k, t).
        if take 1 (skip_ws t) \<noteq> '':'' then None
        else Option.bind (read_value pf n (skip_ws (drop 1 (skip_ws t)))) (\<lambda>(v, u).
          if take 1 (skip_ws u) = ''}'' then Some ([(KStr k, v)], drop 1 (skip_ws u))
          else if take 1 (skip_ws u) = '','' then
            map_option (apfst (Cons (KStr k, v))) (read_members pf n (skip_ws (drop 1 (skip_ws u))))
          else None)))"

definition json_error :: exn where
  "json_error = PyError ''JSONDecodeError'' None"

definition json_loads :: "(string \<Rightarrow> rat) \<Rightarrow> string \<Rightarrow> pyval py_result" where
  "json_loads pf s =
     (case read_value pf (length s) (skip_ws s) of
        None \<Rightarrow> Inl json_error
      | Some (v, r) \<Rightarrow> if skip_ws r = [] then Inr v else Inl json_error)"

section \<open>What is printed is read back\<close>

lemma unhex_hex_digit: "n < 16 \<Longrightarrow> unhex (hex_digit n) = Some n"
  by (auto simp: unhex_def hex_digit_def of_char_of)

lemma scan_char_escape: "scan_char (json_escape c @ r) = Some (c, r)"
proof -
  let ?n = "of_char c :: nat"
  have h: "?n div 16 < 16" by (rule less_mult_imp_div_less) simp
  have "unhex (CHR ''0'') = Some 0" by (simp add: unhex_def)
  moreover have "unhex (hex_digit (?n div 16)) = Some (?n div 16)" "unhex (hex_digit (?n mod 16)) = Some (?n mod 16)"
    using h by (simp_all add: unhex_hex_digit)
  moreover have "16 * (?n div 16) + ?n mod 16 = ?n" by simp
  ultimately have hex: "hex4 [CHR ''0'', CHR ''0'', hex_digit (?n div 16), hex_digit (?n mod 16)] = Some ?n" by simp
  have c: "c = char_of ?n" by simp
  consider "c = CHR 0x22 \<or> c = CHR 0x5C" | "?n \<in> {10, 13, 9, 12, 8}" | "32 \<le> ?n" "?n \<le> 126" "c \<noteq> CHR 0x22" "c \<noteq> CHR 0x5C"
    | "\<not> (32 \<le> ?n \<and> ?n \<le> 126)" "?n \<notin> {10, 13, 9, 12, 8}" "c \<noteq> CHR 0x22" "c \<noteq> CHR 0x5C"
    by blast
  then show ?thesis
  proof cases
    case 1
    then show ?thesis by (auto simp: json_escape_def unescape_def)
  next
    case 2
    have of: "c = d" if "?n = of_char d" for d using that by (simp only: of_char_eq_iff)
    from 2 have "c \<in> {CHR 0x0A, CHR 0x0D, CHR 0x09, CHR 0x0C, CHR 0x08}"
      using of [of "CHR 0x0A"] of [of "CHR 0x0D"] of [of "CHR 0x09"] of [of "CHR 0x0C"] of [of "CHR 0x08"] by auto
    then show ?thesis by (auto simp: json_escape_def unescape_def)
  next
    case 3
    then show ?thesis by (simp add: json_escape_def Let_def)
  next
    case 4
    then show ?thesis using hex by (simp add: json_escape_def Let_def)
  qed
qed

lemma json_escape_quote: "json_escape c = d # r \<Longrightarrow> d \<noteq> CHR 0x22"
  by (auto simp: json_escape_def Let_def split: if_splits)

lemma json_escape_nonempty: "json_escape c \<noteq> []"
  by (simp add: json_escape_def Let_def)

lemma scan_str_text: "scan_str (concat (map json_escape s) @ CHR 0x22 # r) = Some (s, r)"
proof (induction s)
  case Nil
  then show ?case by (simp add: scan_str.simps)
next
  case (Cons c s)
  let ?t = "concat (map json_escape s) @ CHR 0x22 # r"
  obtain d u where e: "json_escape c = d # u" using json_escape_nonempty by (cases "json_escape c") auto
  then have "d \<noteq> CHR 0x22" by (rule json_escape_quote)
  moreover have "scan_char (d # u @ ?t) = Some (c, ?t)" using scan_char_escape [of c ?t] e by simp
  ultimately show ?case using Cons by (simp add: e scan_str.simps [of "d # _"] del: scan_char.simps)
qed

definition num_end :: "string \<Rightarrow> bool" where
  "num_end r \<longleftrightarrow> (case r of [] \<Rightarrow> True
     | c # _ \<Rightarrow> \<not> is_digit c \<and> c \<noteq> CHR ''.'' \<and> c \<noteq> CHR ''e'' \<and> c \<noteq> CHR ''E'')"

lemma takeWhile_digits:
  assumes "\<forall>c \<in> set ds. is_digit c" and "num_end r"
  shows "takeWhile is_digit (ds @ r) = ds" "dropWhile is_digit (ds @ r) = r"
  using assms by (cases r; simp add: num_end_def takeWhile_append dropWhile_append)+

lemma scan_end: "num_end r \<Longrightarrow> scan_frac r = ([], r) \<and> scan_exp r = ([], r)"
  by (auto simp: num_end_def scan_frac_def scan_exp_def split: list.splits)

lemma str_nat_head: "hd (str_nat n) = CHR ''0'' \<Longrightarrow> str_nat n = ''0''"
proof (induction n rule: str_nat.induct)
  case (1 n)
  show ?case
  proof (cases "n < 10")
    case True
    then show ?thesis using 1(2) by (simp add: str_nat.simps [of n])
  next
    case False
    then have "hd (str_nat (n div 10)) = CHR ''0''" using 1(2) by (simp add: str_nat.simps [of n])
    then have "str_nat (n div 10) = ''0''" using 1(1) False by simp
    then have "nat_str (str_nat (n div 10)) = nat_str ''0''" by (rule arg_cong)
    then have "n div 10 = nat_str ''0''" by (simp only: nat_str_str_nat)
    then have "n div 10 = 0" by (simp add: nat_str_def undigit_def)
    then show ?thesis using False by simp
  qed
qed

lemma is_digit_minus: "\<not> is_digit (CHR ''-'')"
  by (simp add: is_digit_def)

lemma str_nat_minus: "str_nat n \<noteq> CHR ''-'' # r"
  using str_nat_digits [of "CHR ''-''" n] is_digit_minus by auto

lemma scan_num_nat:
  assumes "num_end r"
  shows "scan_num (str_nat n @ r) = Some (str_nat n, False, r)"
proof -
  have d: "\<forall>c \<in> set (str_nat n). is_digit c" by (blast intro: str_nat_digits)
  obtain x xs where s: "str_nat n = x # xs" by (cases "str_nat n") auto
  have "x \<noteq> CHR ''-''" using str_nat_minus s by metis
  moreover have "xs = []" if z: "x = CHR ''0''" using str_nat_head [of n] s z by simp
  ultimately show ?thesis
    using takeWhile_digits [OF d assms] scan_end [OF assms] by (auto simp: scan_num_def s)
qed

lemma scan_num_neg: "scan_num s = Some (t, fl, r) \<Longrightarrow> (\<And>u. s \<noteq> CHR ''-'' # u) \<Longrightarrow> scan_num (CHR ''-'' # s) = Some (CHR ''-'' # t, fl, r)"
  by (cases s) (auto simp: scan_num_def Let_def split: if_splits prod.splits)

lemma scan_num_int:
  assumes "num_end r"
  shows "scan_num (str_int i @ r) = Some (str_int i, False, r)"
proof -
  have "str_nat n @ r \<noteq> CHR ''-'' # u" for n u
    using str_nat_minus [of n] by (cases "str_nat n") auto
  then show ?thesis
    using scan_num_nat [OF assms] scan_num_neg [OF scan_num_nat [OF assms]] by (simp add: str_int_def)
qed

lemma int_of_text_nat: "int_of_text (str_nat n) = int n"
proof -
  obtain x xs where s: "str_nat n = x # xs" by (cases "str_nat n") auto
  then have "x \<noteq> CHR ''-''" using str_nat_minus by metis
  then have "int_of_text (str_nat n) = int (nat_str (str_nat n))" by (simp add: int_of_text_def s)
  then show ?thesis by simp
qed

lemma int_of_text_int: "int_of_text (str_int i) = i"
proof (cases "i < 0")
  case True
  then have "str_int i = CHR ''-'' # str_nat (nat (- i))" by (simp add: str_int_def)
  then have "int_of_text (str_int i) = - int (nat_str (str_nat (nat (- i))))" by (simp only: int_of_text_def list.case if_True simp_thms)
  then show ?thesis using True by simp
next
  case False
  then show ?thesis by (simp add: str_int_def int_of_text_nat)
qed

text \<open>What is needed of the printing of a float: the text is read as one number, and as that float.\<close>

definition float_text :: "(rat \<Rightarrow> string) \<Rightarrow> (string \<Rightarrow> rat) \<Rightarrow> rat \<Rightarrow> bool" where
  "float_text fs pf r \<longleftrightarrow> pf (fs r) = r \<and> (\<forall>u. num_end u \<longrightarrow> scan_num (fs r @ u) = Some (fs r, True, u))"

fun floats_ok :: "(rat \<Rightarrow> bool) \<Rightarrow> pyval \<Rightarrow> bool" where
  "floats_ok P (PFloat r) = P r"
| "floats_ok P (PList xs) = list_all (floats_ok P) xs"
| "floats_ok P (PTuple xs) = list_all (floats_ok P) xs"
| "floats_ok P (PDict d) = list_all (\<lambda>(k, v). floats_ok P v) d"
| "floats_ok P _ = True"

lemma read_num_value:
  assumes "read_num pf s = Some x"
  shows "read_value pf (Suc n) s = Some x"
proof -
  obtain c r where s: "s = c # r" and c: "c = CHR ''-'' \<or> is_digit c"
    using assms by (cases s) (auto simp: read_num_def scan_num_def Let_def split: if_splits)
  then have "c \<noteq> CHR 0x22" "c \<noteq> CHR ''[''" "c \<noteq> CHR ''{''" "c \<noteq> CHR ''n''" "c \<noteq> CHR ''t''" "c \<noteq> CHR ''f''"
    by (auto simp: is_digit_def)
  then show ?thesis using assms by (simp add: s)
qed

text \<open>The first character of a value is no space and no punctuation between values.\<close>

definition starts_value :: "string \<Rightarrow> bool" where
  "starts_value s \<longleftrightarrow> (case s of [] \<Rightarrow> False | c # _ \<Rightarrow> \<not> is_ws c \<and> c \<noteq> CHR '']'' \<and> c \<noteq> CHR ''}'')"

lemma starts_append: "starts_value s \<Longrightarrow> starts_value (s @ t)"
  by (cases s) (simp_all add: starts_value_def)

lemma starts_skip: "starts_value s \<Longrightarrow> skip_ws (s @ t) = s @ t"
  by (cases s) (simp_all add: starts_value_def skip_ws_def)

lemma startsD: "starts_value s \<Longrightarrow> skip_ws s = s \<and> take 1 s \<noteq> '']'' \<and> take 1 s \<noteq> ''}'' \<and> s \<noteq> []"
  by (cases s) (simp_all add: starts_value_def skip_ws_def)

lemma scan_num_starts:
  assumes "scan_num s = Some x"
  shows "starts_value s"
proof -
  obtain c r where s: "s = c # r" and c: "c = CHR ''-'' \<or> is_digit c"
    using assms by (cases s) (auto simp: scan_num_def Let_def split: if_splits)
  then show ?thesis by (auto simp: starts_value_def is_ws_def is_digit_def)
qed

lemma text_starts:
  assumes "json_ok v" and "floats_ok (float_text fs pf) v"
  shows "starts_value (json_text fs v)"
proof (cases v)
  case (PInt i)
  then show ?thesis using scan_num_starts [OF scan_num_int [of "[]" i]] by (simp add: num_end_def)
next
  case (PFloat r)
  then have "float_text fs pf r" using assms(2) by simp
  then have "num_end [] \<longrightarrow> scan_num (fs r @ []) = Some (fs r, True, [])" unfolding float_text_def by blast
  then have "scan_num (fs r) = Some (fs r, True, [])" by (simp add: num_end_def)
  then show ?thesis using PFloat scan_num_starts by simp
next
  case (PBool b)
  then show ?thesis by (cases b) (simp_all add: starts_value_def is_ws_def)
qed (use assms(1) in \<open>simp_all add: starts_value_def is_ws_def json_str_def\<close>)

definition reads_back :: "(rat \<Rightarrow> string) \<Rightarrow> (string \<Rightarrow> rat) \<Rightarrow> pyval \<Rightarrow> bool" where
  "reads_back fs pf v \<longleftrightarrow> starts_value (json_text fs v) \<and>
     (\<forall>n r. num_end r \<longrightarrow> length (json_text fs v) \<le> n \<longrightarrow>
        read_value pf n (json_text fs v @ r) = Some (json_norm v, r))"

lemma reads_backD:
  "reads_back fs pf v \<Longrightarrow> num_end r \<Longrightarrow> length (json_text fs v) \<le> n \<Longrightarrow>
     read_value pf n (json_text fs v @ r) = Some (json_norm v, r)"
  by (simp add: reads_back_def)

lemma num_end_simps [simp]: "num_end (CHR '','' # r)" "num_end (CHR '']'' # r)" "num_end (CHR ''}'' # r)" "num_end []"
  by (simp_all add: num_end_def is_digit_def)

lemma skip_ws_simps [simp]:
  "skip_ws (CHR '' '' # r) = skip_ws r" "skip_ws (CHR '','' # r) = CHR '','' # r" "skip_ws (CHR '']'' # r) = CHR '']'' # r"
  "skip_ws (CHR ''}'' # r) = CHR ''}'' # r" "skip_ws (CHR '':'' # r) = CHR '':'' # r" "skip_ws (CHR 0x22 # r) = CHR 0x22 # r"
  by (simp_all add: skip_ws_def is_ws_def)

lemma sep_by_Cons: "xs \<noteq> [] \<Longrightarrow> sep_by (x # xs) = x @ '', '' @ sep_by xs"
  by (cases xs) simp_all

lemma starts_sep: "reads_back fs pf x \<Longrightarrow> starts_value (sep_by (map (json_text fs) (x # xs)) @ r)"
  by (cases xs) (auto simp: reads_back_def sep_by_Cons intro: starts_append)

lemma read_items_text:
  assumes "\<forall>v \<in> set xs. reads_back fs pf v" and "xs \<noteq> []" and "length (sep_by (map (json_text fs) xs)) < n"
  shows "read_items pf n (sep_by (map (json_text fs) xs) @ CHR '']'' # r) = Some (map json_norm xs, r)"
  using assms
proof (induction xs arbitrary: n)
  case (Cons x xs)
  then obtain m where n: "n = Suc m" by (cases n) auto
  have x: "reads_back fs pf x" using Cons.prems by simp
  show ?case
  proof (cases "xs = []")
    case True
    then show ?thesis using Cons.prems n reads_backD [OF x, of "CHR '']'' # r" m] by simp
  next
    case False
    let ?t = "sep_by (map (json_text fs) xs) @ CHR '']'' # r"
    have "read_items pf m ?t = Some (map json_norm xs, r)"
      using Cons False n by (simp add: sep_by_Cons)
    moreover have "skip_ws ?t = ?t"
      using starts_sep [of fs pf "hd xs" "tl xs" "CHR '']'' # r"] Cons.prems False startsD by simp
    ultimately show ?thesis
      using Cons.prems n False reads_backD [OF x, of "'', '' @ ?t" m] by (simp add: sep_by_Cons)
  qed
qed simp

lemma read_members_text:
  assumes "\<forall>(k, v) \<in> set d. reads_back fs pf v" and "d \<noteq> []"
    and "length (sep_by (map (\<lambda>(k, v). json_str (json_key k) @ '': '' @ json_text fs v) d)) < n"
  shows "read_members pf n (sep_by (map (\<lambda>(k, v). json_str (json_key k) @ '': '' @ json_text fs v) d) @ CHR ''}'' # r) =
    Some (map (\<lambda>(k, v). (KStr (json_key k), json_norm v)) d, r)"
  using assms
proof (induction d arbitrary: n)
  case (Cons p d)
  obtain k v where p: "p = (k, v)" by (cases p)
  obtain m where n: "n = Suc m" using Cons.prems by (cases n) auto
  have v: "reads_back fs pf v" using Cons.prems p by simp
  then have sv: "skip_ws (json_text fs v @ u) = json_text fs v @ u" for u
    by (simp add: reads_back_def starts_skip)
  let ?d = "sep_by (map (\<lambda>(k, v). json_str (json_key k) @ '': '' @ json_text fs v) d)"
  show ?case
  proof (cases "d = []")
    case True
    then show ?thesis
      using Cons.prems n p sv reads_backD [OF v, of "CHR ''}'' # r" m] by (simp add: json_str_def scan_str_text)
  next
    case False
    have IH: "read_members pf m (?d @ CHR ''}'' # r) = Some (map (\<lambda>(k, v). (KStr (json_key k), json_norm v)) d, r)"
      using Cons False n by (simp add: sep_by_Cons)
    have "\<exists>u. ?d @ CHR ''}'' # r = CHR 0x22 # u" using False
      by (cases d; cases "tl d") (auto simp: json_str_def split_def)
    then have "skip_ws (?d @ CHR ''}'' # r) = ?d @ CHR ''}'' # r" by auto
    then show ?thesis
      using Cons.prems n p False IH sv reads_backD [OF v, of "'', '' @ ?d @ CHR ''}'' # r" m]
      by (simp add: sep_by_Cons json_str_def scan_str_text)
  qed
qed simp

lemma reads_back_list:
  assumes "\<forall>v \<in> set xs. reads_back fs pf v"
  shows "reads_back fs pf (PList xs) \<and> reads_back fs pf (PTuple xs)"
proof -
  have "read_value pf n (json_text fs (PList xs) @ r) = Some (json_norm (PList xs), r)"
    if n: "length (json_text fs (PList xs)) \<le> n" for n r
  proof -
    obtain m where m: "n = Suc m" using n by (cases n) auto
    show ?thesis
    proof (cases xs)
      case (Cons y ys)
      then have st: "starts_value (sep_by (map (json_text fs) xs) @ CHR '']'' # r)" using assms starts_sep by auto
      show ?thesis using startsD [OF st] read_items_text [OF assms, of m r] Cons n m by simp
    qed (simp add: m)
  qed
  then show ?thesis by (simp add: reads_back_def starts_value_def is_ws_def)
qed

lemma reads_back_dict:
  assumes "\<forall>(k, v) \<in> set d. reads_back fs pf v"
  shows "reads_back fs pf (PDict d)"
proof -
  have "read_value pf n (json_text fs (PDict d) @ r) = Some (json_norm (PDict d), r)"
    if n: "length (json_text fs (PDict d)) \<le> n" for n r
  proof -
    obtain m where m: "n = Suc m" using n by (cases n) auto
    show ?thesis
    proof (cases "d = []")
      case False
      let ?t = "sep_by (map (\<lambda>(k, v). json_str (json_key k) @ '': '' @ json_text fs v) d) @ CHR ''}'' # r"
      obtain u where "?t = CHR 0x22 # u" using False
        by (cases d; cases "tl d") (auto simp: json_str_def split_def)
      then have "skip_ws ?t = ?t" "take 1 ?t = [CHR 0x22]" by simp_all
      then show ?thesis using read_members_text [OF assms False, of m r] n m by simp
    qed (simp add: m dict_update_def)
  qed
  then show ?thesis by (simp add: reads_back_def starts_value_def is_ws_def)
qed

lemma reads_back_const:
  assumes "starts_value (json_text fs v)"
    and "\<And>n r. num_end r \<Longrightarrow> read_value pf (Suc n) (json_text fs v @ r) = Some (json_norm v, r)"
  shows "reads_back fs pf v"
proof -
  have "read_value pf n (json_text fs v @ r) = Some (json_norm v, r)"
    if "num_end r" and len: "length (json_text fs v) \<le> n" for n r
  proof -
    have "n \<noteq> 0" using startsD [OF assms(1)] len by (metis le_zero_eq length_0_conv)
    then show ?thesis using assms(2) \<open>num_end r\<close> by (cases n) auto
  qed
  then show ?thesis using assms(1) by (simp add: reads_back_def)
qed

lemma reads_back_num:
  assumes "starts_value (json_text fs v)"
    and "\<And>r. num_end r \<Longrightarrow> read_num pf (json_text fs v @ r) = Some (json_norm v, r)"
  shows "reads_back fs pf v"
  using assms read_num_value by (intro reads_back_const) blast+

lemma text_reads_back:
  "json_ok v \<Longrightarrow> floats_ok (float_text fs pf) v \<Longrightarrow> reads_back fs pf v"
proof (induction v rule: json_norm.induct
    [case_names items tuple members none bool int float str obj])
  case (items xs)
  then show ?case using reads_back_list by (auto simp: list_all_iff)
next
  case (tuple xs)
  then show ?case using reads_back_list by (auto simp: list_all_iff)
next
  case (members d)
  show ?case
  proof (rule reads_back_dict, clarify)
    fix k v assume "(k, v) \<in> set d"
    then show "reads_back fs pf v" using members by (force simp: list_all_iff)
  qed
next
  case none
  show ?case by (rule reads_back_const) (simp_all add: starts_value_def is_ws_def)
next
  case (bool b)
  show ?case by (cases b; rule reads_back_const) (simp_all add: starts_value_def is_ws_def)
next
  case (int i)
  show ?case
    using text_starts [OF int] by (intro reads_back_num) (simp_all add: read_num_def scan_num_int int_of_text_int)
next
  case (float q)
  show ?case
    using text_starts [OF float] float(2) by (intro reads_back_num) (simp_all add: read_num_def float_text_def)
next
  case (str s)
  show ?case by (rule reads_back_const) (simp_all add: starts_value_def is_ws_def json_str_def scan_str_text)
qed simp

lemma loads_text:
  assumes "json_ok v" and "floats_ok (float_text fs pf) v"
  shows "json_loads pf (json_text fs v) = Inr (json_norm v)"
proof -
  have r: "reads_back fs pf v" by (rule text_reads_back [OF assms])
  then have "skip_ws (json_text fs v) = json_text fs v" using startsD by (simp add: reads_back_def)
  then show ?thesis using reads_backD [OF r, of "[]"] by (simp add: json_loads_def skip_ws_def)
qed


lemma float_text_half: "float_text (\<lambda>_. ''0.5'') (\<lambda>_. 1 / 2) (1 / 2)"
proof -
  have "scan_num (''0.5'' @ u) = Some (''0.5'', True, u)" if "num_end u" for u
    using takeWhile_digits [of "''5''" u] takeWhile_digits [of "''0''" "''.5'' @ u"] that scan_end [OF that]
    by (simp add: scan_num_def scan_frac_def is_digit_def)
  then show ?thesis by (simp add: float_text_def)
qed


section \<open>Reading a UUID\<close>

text \<open>\<open>uuid.UUID (text)\<close>: 32 hexadecimal digits, dashes ignored.\<close>

definition uuid_value :: "nat list \<Rightarrow> nat" where
  "uuid_value ns = foldl (\<lambda>a n. 16 * a + n) 0 ns"

definition parse_uuid :: "string \<Rightarrow> uuid option" where
  "parse_uuid s =
     (let ns = map unhex (filter (\<lambda>c. c \<noteq> CHR 0x2D) s) in
      if length ns = 32 \<and> None \<notin> set ns then Some (word_of_nat (uuid_value (map the ns))) else None)"

lemma uuid_digits:
  "foldl (\<lambda>a n. 16 * a + n) a (map (\<lambda>i. m div 16 ^ i mod 16) (rev [0..<k])) = a * 16 ^ k + m mod (16 ^ k :: nat)"
proof (induction k arbitrary: a)
  case (Suc k)
  have "m mod 16 ^ Suc k = 16 ^ k * (m div 16 ^ k mod 16) + m mod 16 ^ k"
    using mod_mult2_eq [of m "16 ^ k" 16] by (simp add: mult.commute)
  then show ?case using Suc [of "16 * a + m div 16 ^ k mod 16"] by (simp add: algebra_simps)
qed simp

lemma uuid_nibbles_digits: "uuid_nibbles u = map (\<lambda>i. unat u div 16 ^ i mod 16) (rev [0..<32])"
proof -
  have "unat (drop_bit (4 * i) u) = unat u div 16 ^ i" for i
    by (subst unat_drop_bit_eq) (simp add: drop_bit_eq_div power_mult)
  then show ?thesis by (simp add: uuid_nibbles_def del: upt_Suc)
qed

lemma uuid_value_nibbles: "uuid_value (uuid_nibbles u) = unat u"
proof -
  have "unat u < 2 ^ LENGTH(128)" by (rule unsigned_less)
  then have "unat u < 16 ^ 32" by simp
  then show ?thesis using uuid_digits [of 0 "unat u" 32]
    by (simp add: uuid_value_def uuid_nibbles_digits del: upt_Suc)
qed

lemma uuid_nibbles_less: "n \<in> set (uuid_nibbles u) \<Longrightarrow> n < 16"
  by (auto simp: uuid_nibbles_def)

lemma hex_digit_no_dash: "n < 16 \<Longrightarrow> hex_digit n \<noteq> CHR 0x2D"
proof
  assume "n < 16" and d: "hex_digit n = CHR 0x2D"
  from d have "(of_char (hex_digit n) :: nat) = 45" by simp
  then show False using \<open>n < 16\<close> by (simp add: hex_digit_def of_char_of split: if_splits)
qed

lemma filter_sublist: "\<forall>c \<in> set h. P c \<Longrightarrow> set xs \<subseteq> set h \<Longrightarrow> filter P xs = xs"
  by (auto intro: filter_True)

lemma parse_uuid_str: "parse_uuid (uuid_str u) = Some u"
proof -
  let ?h = "map hex_digit (uuid_nibbles u)"
  have len: "length ?h = 32" by (simp add: uuid_nibbles_def)
  have nd: "\<forall>c \<in> set ?h. c \<noteq> CHR 0x2D" using hex_digit_no_dash uuid_nibbles_less by auto
  have f: "filter (\<lambda>c. c \<noteq> CHR 0x2D) (take a (drop b ?h)) = take a (drop b ?h)"
    "filter (\<lambda>c. c \<noteq> CHR 0x2D) (drop b ?h) = drop b ?h" "filter (\<lambda>c. c \<noteq> CHR 0x2D) (take a ?h) = take a ?h" for a b
    using nd by (rule filter_sublist; meson set_take_subset set_drop_subset subset_trans)+
  have "filter (\<lambda>c. c \<noteq> CHR 0x2D) (uuid_str u) =
      take 8 ?h @ take 4 (drop 8 ?h) @ take 4 (drop 12 ?h) @ take 4 (drop 16 ?h) @ drop 20 ?h"
    by (simp add: uuid_str_def Let_def f del: map_map)
  also have "\<dots> = ?h"
  proof -
    have "take 4 (drop 16 ?h) @ drop 20 ?h = drop 16 ?h" using append_take_drop_id [of 4 "drop 16 ?h"] by simp
    moreover have "take 4 (drop 12 ?h) @ drop 16 ?h = drop 12 ?h" using append_take_drop_id [of 4 "drop 12 ?h"] by simp
    moreover have "take 4 (drop 8 ?h) @ drop 12 ?h = drop 8 ?h" using append_take_drop_id [of 4 "drop 8 ?h"] by simp
    ultimately show ?thesis using append_take_drop_id [of 8 ?h] by simp
  qed
  finally have h: "filter (\<lambda>c. c \<noteq> CHR 0x2D) (uuid_str u) = ?h" .
  have m: "map unhex ?h = map Some (uuid_nibbles u)"
    using uuid_nibbles_less unhex_hex_digit by simp
  have "length (uuid_nibbles u) = 32" using len by simp
  then show ?thesis
    unfolding parse_uuid_def h Let_def m by (auto simp: uuid_value_nibbles comp_def)
qed

lemma uuid_str_inj [simp]: "uuid_str u = uuid_str v \<longleftrightarrow> u = v"
  by (metis parse_uuid_str option.inject)

end
