(* ===== verification/Py_Text.thy ===== *)
theory Py_Text
  imports Registry
begin

text \<open>
  \<open>str\<close> and \<open>repr\<close> of Python values and the string methods the providers and the API use. \<open>fs\<close> is
  the \<open>repr\<close> of a float. An object of another class prints as its class name.
\<close>

fun repr_key :: "pykey \<Rightarrow> string" where
  "repr_key (KStr s) = repr_str s"
| "repr_key (KInt i) = str_int i"
| "repr_key (KBool b) = (if b then ''True'' else ''False'')"
| "repr_key KNone = ''None''"
| "repr_key (KObj c) = c"

fun py_repr :: "(rat \<Rightarrow> string) \<Rightarrow> pyval \<Rightarrow> string" where
  "py_repr fs PNone = ''None''"
| "py_repr fs (PBool b) = (if b then ''True'' else ''False'')"
| "py_repr fs (PInt i) = str_int i"
| "py_repr fs (PFloat r) = fs r"
| "py_repr fs (PStr s) = repr_str s"
| "py_repr fs (PList xs) = ''['' @ join '', '' (map (py_repr fs) xs) @ '']''"
| "py_repr fs (PTuple xs) =
     ''('' @ join '', '' (map (py_repr fs) xs) @ (if length xs = 1 then '',)'' else '')'')"
| "py_repr fs (PDict d) =
     ''{'' @ join '', '' (map (\<lambda>(k, v). repr_key k @ '': '' @ py_repr fs v) d) @ ''}''"
| "py_repr fs (PObj c) = c"

definition py_str :: "(rat \<Rightarrow> string) \<Rightarrow> pyval \<Rightarrow> string" where
  "py_str fs v = (case v of PStr s \<Rightarrow> s | _ \<Rightarrow> py_repr fs v)"

definition repr_strs :: "string list \<Rightarrow> string" where
  "repr_strs xs = ''['' @ join '', '' (map repr_str xs) @ '']''"

text \<open>\<open>str.split (sep)\<close> for one character, \<open>str.strip\<close> and \<open>str.lower\<close>.\<close>

fun split_on :: "char \<Rightarrow> string \<Rightarrow> string list" where
  "split_on x [] = [[]]"
| "split_on x (c # s) =
     (if c = x then [] # split_on x s
      else case split_on x s of [] \<Rightarrow> [[c]] | w # ws \<Rightarrow> (c # w) # ws)"

definition is_space :: "char \<Rightarrow> bool" where
  "is_space c \<longleftrightarrow> (let n = (of_char c :: nat) in (9 \<le> n \<and> n \<le> 13) \<or> (28 \<le> n \<and> n \<le> 32) \<or> n = 133 \<or> n = 160)"

definition strip :: "string \<Rightarrow> string" where
  "strip s = rev (dropWhile is_space (rev (dropWhile is_space s)))"

definition lower_char :: "char \<Rightarrow> char" where
  "lower_char c =
     (let n = (of_char c :: nat) in
      if (65 \<le> n \<and> n \<le> 90) \<or> (192 \<le> n \<and> n \<le> 222 \<and> n \<noteq> 215) then char_of (n + 32) else c)"

definition lower :: "string \<Rightarrow> string" where
  "lower s = map lower_char s"

text \<open>Splitting and joining.\<close>

lemma split_on_nonempty: "split_on x s \<noteq> []"
  by (induction s) (auto split: list.splits)

lemma split_on_word: "x \<notin> set w \<Longrightarrow> split_on x w = [w]"
  by (induction w) auto

lemma split_on_append: "x \<notin> set w \<Longrightarrow> split_on x (w @ x # s) = w # split_on x s"
  by (induction w) auto

lemma split_on_join:
  "ws \<noteq> [] \<Longrightarrow> \<forall>w \<in> set ws. x \<notin> set w \<Longrightarrow> split_on x (join [x] ws) = ws"
proof (induction ws)
  case (Cons w ws)
  then show ?case by (cases ws) (simp_all add: split_on_word split_on_append)
qed simp

end
