(* ===== verification/Echo.thy ===== *)
theory Echo
  imports Json Py_Text
begin

text \<open>
  \<open>src/anchor/providers/echo.py\<close>: the deterministic stand-in for a model, and the choice of a provider
  from the settings (\<open>providers/__init__.py\<close>). The provider's counter of simulated failures is part of
  the outside world: \<open>gt\<close> reads it there and \<open>pt\<close> writes it. \<open>fs\<close> is the \<open>repr\<close> of a float, \<open>pf\<close> is
  \<open>float\<close> of a text.
\<close>

record echo =
  ec_plan :: "string list"
  ec_arguments :: "(string \<times> pydict) list"
  ec_final_text :: string
  ec_arguments_from_input :: bool
  ec_latency_seconds :: rat
  ec_fail_first_n :: int

definition default_echo :: echo where
  "default_echo =
     \<lparr>ec_plan = [], ec_arguments = [], ec_final_text = ''done'', ec_arguments_from_input = False,
      ec_latency_seconds = 0, ec_fail_first_n = 0\<rparr>"

text \<open>The first user message with a text is read as a JSON object, if it is one.\<close>

fun input_arguments :: "(string \<Rightarrow> rat) \<Rightarrow> pyval list \<Rightarrow> pydict" where
  "input_arguments pf [] = []"
| "input_arguments pf (m # ms) =
     (case (py_get m ''role'' PNone, py_get m ''content'' PNone) of
        (PStr role, PStr content) \<Rightarrow>
          if role = ''user''
          then (case json_loads pf content of Inr (PDict d) \<Rightarrow> d | _ \<Rightarrow> [])
          else input_arguments pf ms
      | _ \<Rightarrow> input_arguments pf ms)"

definition turn_of :: "pyval list \<Rightarrow> nat" where
  "turn_of messages = length (filter (\<lambda>m. py_get m ''role'' PNone = PStr ''assistant'') messages)"

definition prompt_chars :: "(rat \<Rightarrow> string) \<Rightarrow> pyval list \<Rightarrow> nat" where
  "prompt_chars fs messages =
     sum_list (map (\<lambda>m. length (py_str fs (py_get m ''content'' (PStr [])))) messages)"

definition echo_response :: "(rat \<Rightarrow> string) \<Rightarrow> (string \<Rightarrow> rat) \<Rightarrow> echo \<Rightarrow> pyval list \<Rightarrow> model_response" where
  "echo_response fs pf ec messages =
     (let turn = turn_of messages; chars = int (prompt_chars fs messages) in
      if turn < length (ec_plan ec) then
        (let name = ec_plan ec ! turn;
             own = (case map_of (ec_arguments ec) name of None \<Rightarrow> [] | Some d \<Rightarrow> d);
             arguments = dict_update (if ec_arguments_from_input ec then input_arguments pf messages else []) own
         in \<lparr>mr_text = ''calling '' @ name,
             mr_tool_calls = [\<lparr>tc_id = ''call_'' @ str_nat turn, tc_name = name, tc_arguments = arguments\<rparr>],
             mr_stop_reason = ''tool_use'', mr_input_tokens = chars div 4, mr_output_tokens = 12,
             mr_cost_usd = 0, mr_model = ''echo''\<rparr>)
      else
        \<lparr>mr_text = ec_final_text ec, mr_tool_calls = [], mr_stop_reason = ''end_turn'',
         mr_input_tokens = chars div 4,
         mr_output_tokens = int (length (ec_final_text ec)) div 4 + 1,
         mr_cost_usd = 0, mr_model = ''echo''\<rparr>)"

definition echo_complete ::
  "(rat \<Rightarrow> string) \<Rightarrow> (string \<Rightarrow> rat) \<Rightarrow> ('x \<Rightarrow> int) \<Rightarrow> (int \<Rightarrow> 'x \<Rightarrow> 'x) \<Rightarrow> echo \<Rightarrow> model_request
    \<Rightarrow> ('x, model_response) outside" where
  "echo_complete fs pf gt pt ec rq =
     bind (atom (\<lambda>(t, x). if gt x < ec_fail_first_n ec
                          then ((t, pt (gt x + 1) x), Some (gt x + 1)) else ((t, x), None))) (\<lambda>failure.
     case failure of
       Some n \<Rightarrow> Ret (Inl (PyError ''ConnectionError''
                   (Some (''simulated provider failure #'' @ str_int n))))
     | None \<Rightarrow>
         bind (if ec_latency_seconds ec \<noteq> 0
               then modify (\<lambda>(t, x). (t + max 0 (ec_latency_seconds ec), x)) else Ret ()) (\<lambda>_.
         Ret (Inr (echo_response fs pf ec (rq_messages rq)))))"

definition echo_provider ::
  "(rat \<Rightarrow> string) \<Rightarrow> (string \<Rightarrow> rat) \<Rightarrow> ('x \<Rightarrow> int) \<Rightarrow> (int \<Rightarrow> 'x \<Rightarrow> 'x) \<Rightarrow> echo \<Rightarrow> 'x provider" where
  "echo_provider fs pf gt pt ec = \<lparr>pv_name = ''echo'', pv_complete = echo_complete fs pf gt pt ec\<rparr>"

section \<open>Choosing a provider\<close>

text \<open>The Anthropic provider is a client of a service outside the repository: its settings.\<close>

datatype provider_choice = Echo echo | Anthropic string "string option"

definition build_provider :: "settings \<Rightarrow> provider_choice py_result" where
  "build_provider se =
     (let kind = lower (se_model_provider se) in
      if kind = ''echo'' then
        Inr (Echo (default_echo
          \<lparr>ec_plan := filter (\<lambda>n. n \<noteq> []) (map strip (split_on (CHR '','') (se_echo_plan se))),
           ec_arguments_from_input := True\<rparr>))
      else if kind = ''anthropic'' then
        Inr (Anthropic (se_anthropic_model se) (se_anthropic_api_key se))
      else Inl (value_error (''unknown ANCHOR_MODEL_PROVIDER: '' @ repr_str (se_model_provider se))))"

section \<open>The plan is followed\<close>

lemma turn_of_append [simp]: "turn_of (xs @ ys) = turn_of xs + turn_of ys"
  by (simp add: turn_of_def)

lemma turn_of_simps [simp]:
  "turn_of [] = 0"
  "turn_of (m # ms) = (if py_get m ''role'' PNone = PStr ''assistant'' then Suc (turn_of ms) else turn_of ms)"
  by (simp_all add: turn_of_def)

text \<open>
  The provider's answer is decided by the messages alone, and follows the plan: after as many
  assistant turns as there are, the tool that is next in the plan, with the arguments configured for it
  on top of the input's; after the plan, the final text and no tool.
\<close>

theorem echo_follows_plan:
  assumes "ec_fail_first_n ec \<le> gt x"
  shows "\<exists>t' resp. run (echo_complete fs pf gt pt ec rq) (t, x) = ((t', x), Inr resp) \<and> t \<le> t' \<and>
    (let n = turn_of (rq_messages rq) in
       if n < length (ec_plan ec)
       then map tc_name (mr_tool_calls resp) = [ec_plan ec ! n] \<and>
         (\<forall>d k v. map_of (ec_arguments ec) (ec_plan ec ! n) = Some d \<longrightarrow> distinct (map fst d) \<longrightarrow>
            map_of d k = Some v \<longrightarrow> map_of (tc_arguments (hd (mr_tool_calls resp))) k = Some v)
       else \<not> wants_tools resp \<and> mr_text resp = ec_final_text ec)"
proof -
  have upd: "map_of (dict_update e d) k = Some v" if "distinct (map fst d)" "map_of d k = Some v"
    for d e :: pydict and k v
    using that
  proof (induction d arbitrary: e)
    case (Cons p d)
    have keep: "k \<notin> fst ` set d' \<Longrightarrow> map_of (dict_update e' d') k = map_of e' k" for d' e' :: pydict
      by (induction d' arbitrary: e') (auto simp: dict_update_def map_of_dict_set)
    have "dict_update e (p # d) = dict_update (dict_set e (fst p) (snd p)) d"
      by (simp add: dict_update_def split_def)
    then show ?case
      using Cons keep [of d "dict_set e (fst p) (snd p)"] by (auto simp: map_of_dict_set split: if_splits)
  qed simp
  show ?thesis
    using assms upd
    by (auto simp: echo_complete_def echo_response_def Let_def wants_tools_def max_def split: if_splits)
qed

definition plain_request :: "pyval list \<Rightarrow> model_request" where
  "plain_request ms = \<lparr>rq_messages = ms, rq_tools = None, rq_system = None, rq_max_tokens = 1024\<rparr>"

lemma echo_follows_plan_witness:
  "\<exists>t' resp. run (echo_complete (\<lambda>_. ''0.0'') (\<lambda>_. 0) id (\<lambda>n x. n) (default_echo\<lparr>ec_plan := [''pay'']\<rparr>) (plain_request []))
      (0, 0) = ((t', 0), Inr resp) \<and> 0 \<le> t' \<and> map tc_name (mr_tool_calls resp) = [''pay'']"
  using echo_follows_plan [of "default_echo\<lparr>ec_plan := [''pay'']\<rparr>" id 0 "\<lambda>_. ''0.0''" "\<lambda>_. 0" "\<lambda>n x. n" "plain_request []" 0]
  by (auto simp: default_echo_def plain_request_def Let_def)

text \<open>
  The plan of the settings is read as it is written: names without commas and without spaces around
  them, joined by commas and spaces, come out as the provider's plan in the same order.
\<close>

theorem plan_from_settings:
  assumes "lower (se_model_provider se) = ''echo''" and "ws \<noteq> []"
    and "\<forall>w \<in> set ws. w \<noteq> [] \<and> CHR '','' \<notin> set w \<and> \<not> is_space (hd w) \<and> \<not> is_space (last w)"
    and "se_echo_plan se = join '','' (map (\<lambda>w. '' '' @ w) ws)"
  shows "\<exists>ec. build_provider se = Inr (Echo ec) \<and> ec_plan ec = ws \<and> ec_arguments_from_input ec"
proof -
  have w: "strip ('' '' @ w) = w" if "w \<in> set ws" for w
  proof -
    have ne: "w \<noteq> []" "\<not> is_space (hd w)" "\<not> is_space (last w)" using assms(3) that by auto
    then have "dropWhile is_space ('' '' @ w) = w"
      by (cases w) (auto simp: is_space_def)
    moreover have "dropWhile is_space (rev w) = rev w"
      using ne by (cases "rev w") (auto simp: hd_rev [symmetric])
    ultimately show ?thesis by (simp add: strip_def)
  qed
  have "split_on (CHR '','') (se_echo_plan se) = map (\<lambda>w. '' '' @ w) ws"
    unfolding assms(4) using assms(2,3) by (intro split_on_join) auto
  then have "filter (\<lambda>n. n \<noteq> []) (map strip (split_on (CHR '','') (se_echo_plan se))) = filter (\<lambda>n. n \<noteq> []) ws"
    using w by (simp add: comp_def cong: map_cong)
  also have "filter (\<lambda>n. n \<noteq> []) ws = ws" using assms(3) by (simp add: filter_id_conv)
  finally show ?thesis using assms(1) by (simp add: build_provider_def Let_def)
qed

lemma plan_from_settings_witness:
  "\<exists>ec. build_provider (default_settings\<lparr>se_model_provider := ''Echo'', se_echo_plan := '' lookup, pay''\<rparr>) = Inr (Echo ec) \<and>
     ec_plan ec = [''lookup'', ''pay''] \<and> ec_arguments_from_input ec"
proof -
  have "lower ''Echo'' = ''echo''" by code_simp
  then show ?thesis
    using plan_from_settings [of "default_settings\<lparr>se_model_provider := ''Echo'', se_echo_plan := '' lookup, pay''\<rparr>" "[''lookup'', ''pay'']"]
    by (simp add: is_space_def)
qed

end
