(* ===== verification/Refund.thy ===== *)
theory Refund
  imports Echo System
begin

text \<open>
  \<open>src/anchor/examples/refund_agent.py\<close>: the worked example, an agent that looks a payment up, refunds
  it and notifies the customer. Its outside world is the table of side effects and the failure counter
  of the offline provider. \<open>fs\<close> is the \<open>repr\<close> of a float, \<open>isof\<close> prints a time, \<open>delay\<close> is the value of
  \<open>float(os.getenv("ANCHOR_CHAOS_DELAY_SECONDS", "0"))\<close>, which may raise.
\<close>

record world =
  wo_effects :: "effect list"
  wo_failures :: int

section \<open>The payments\<close>

definition payment :: "string \<Rightarrow> int \<Rightarrow> string \<Rightarrow> pydict" where
  "payment pid cents status =
     [(KStr ''payment_id'', PStr pid), (KStr ''captured_cents'', PInt cents),
      (KStr ''currency'', PStr ''CAD''), (KStr ''status'', PStr status)]"

definition payments :: "(string \<times> pydict) list" where
  "payments =
     [(''pay_001'', payment ''pay_001'' 4999 ''captured''),
      (''pay_002'', payment ''pay_002'' 129900 ''captured''),
      (''pay_003'', payment ''pay_003'' 0 ''voided'')]"

text \<open>\<open>PAYMENTS.get (payment_id)\<close>, for whatever the model passed.\<close>

definition get_payment :: "pyval \<Rightarrow> pydict option py_result" where
  "get_payment pid =
     (case pid of
        PStr s \<Rightarrow> Inr (map_of payments s)
      | PList _ \<Rightarrow> Inl (type_error ''unhashable type: list'')
      | PDict _ \<Rightarrow> Inl (type_error ''unhashable type: dict'')
      | _ \<Rightarrow> Inr None)"

definition find_payment :: "(rat \<Rightarrow> string) \<Rightarrow> pyval \<Rightarrow> pydict py_result" where
  "find_payment fs pid =
     res_bind (get_payment pid) (\<lambda>p.
       case p of
         None \<Rightarrow> Inl (PyError ''LookupError'' (Some (''unknown payment '' @ py_repr fs pid)))
       | Some d \<Rightarrow> Inr d)"

text \<open>The arguments a function was called with; a required one that is missing raises.\<close>

definition val_arg :: "(string \<times> pyarg) list \<Rightarrow> string \<Rightarrow> pyval py_result" where
  "val_arg args k =
     (case map_of args k of
        Some (ArgVal v) \<Rightarrow> Inr v
      | _ \<Rightarrow> Inl (type_error (''missing required argument '' @ repr_str k)))"

definition ctx_arg :: "(string \<times> pyarg) list \<Rightarrow> uuid py_result" where
  "ctx_arg args =
     (case map_of args ''ctx'' of Some (ArgCtx r) \<Rightarrow> Inr r | _ \<Rightarrow> Inl (type_error ''missing ctx''))"

definition token_arg :: "(string \<times> pyarg) list \<Rightarrow> uuid py_result" where
  "token_arg args =
     (case map_of args ''token'' of Some (ArgToken t) \<Rightarrow> Inr t | _ \<Rightarrow> Inl (type_error ''missing token''))"

text \<open>A number in a comparison; a value of another type raises.\<close>

fun as_number :: "pyval \<Rightarrow> rat py_result" where
  "as_number (PInt i) = Inr (of_int i)"
| "as_number (PFloat r) = Inr r"
| "as_number (PBool b) = Inr (if b then 1 else 0)"
| "as_number v = Inl (type_error ''not supported between instances'')"

text \<open>A call of the side-effect table, as one statement.\<close>

definition record_effect :: "uuid \<Rightarrow> uuid \<Rightarrow> string \<Rightarrow> pyval \<Rightarrow> (world, bool) outside" where
  "record_effect token run_id kind payload =
     atom (\<lambda>(t, x).
       let (es, r) = record_side_effect t token run_id kind payload (wo_effects x)
       in ((t, x\<lparr>wo_effects := es\<rparr>), r))"

section \<open>The tools\<close>

definition lookup_payment :: "(rat \<Rightarrow> string) \<Rightarrow> world pyfn" where
  "lookup_payment fs =
     \<lparr>pf_params = [''payment_id''], pf_var_kwargs = False,
      pf_code = (\<lambda>args. Ret (res_bind (val_arg args ''payment_id'') (\<lambda>pid.
                         res_bind (find_payment fs pid) (\<lambda>p. Inr (PDict p)))))\<rparr>"

definition refund_landed :: "(rat \<Rightarrow> string) \<Rightarrow> world pyfn" where
  "refund_landed isof =
     \<lparr>pf_params = [''ctx'', ''token''], pf_var_kwargs = True,
      pf_code = (\<lambda>args. ebind (Ret (token_arg args)) (\<lambda>token.
                 gets (\<lambda>(t, x). Inr (find_side_effect isof token (wo_effects x)))))\<rparr>"

text \<open>The checks of a refund, and what it returns.\<close>

definition refund_amount :: "(rat \<Rightarrow> string) \<Rightarrow> pyval \<Rightarrow> pyval \<Rightarrow> unit py_result" where
  "refund_amount fs pid amount =
     res_bind (find_payment fs pid) (\<lambda>p.
     res_bind (as_number amount) (\<lambda>a.
     res_bind (as_number (py_get (PDict p) ''captured_cents'' PNone)) (\<lambda>captured.
       if a \<le> 0 \<or> a > captured
       then Inl (value_error (''refund of '' @ py_str fs amount @ '' exceeds captured ''
              @ py_str fs (py_get (PDict p) ''captured_cents'' PNone) @ '' on '' @ py_str fs pid))
       else Inr ())))"

definition refund_result :: "pyval \<Rightarrow> pyval \<Rightarrow> uuid \<Rightarrow> bool \<Rightarrow> pyval" where
  "refund_result pid amount token created =
     PDict [(KStr ''payment_id'', pid), (KStr ''amount_cents'', amount),
            (KStr ''token'', PStr (uuid_str token)), (KStr ''created'', PBool created)]"

definition issue_refund :: "(rat \<Rightarrow> string) \<Rightarrow> rat py_result \<Rightarrow> world pyfn" where
  "issue_refund fs delay =
     \<lparr>pf_params = [''ctx'', ''token'', ''payment_id'', ''amount_cents''], pf_var_kwargs = False,
      pf_code = (\<lambda>args.
        ebind (Ret (ctx_arg args)) (\<lambda>rid.
        ebind (Ret (token_arg args)) (\<lambda>token.
        ebind (Ret (val_arg args ''payment_id'')) (\<lambda>pid.
        ebind (Ret (val_arg args ''amount_cents'')) (\<lambda>amount.
        ebind (Ret (refund_amount fs pid amount)) (\<lambda>_.
        ebind (record_effect token rid ''refund''
                 (PDict [(KStr ''payment_id'', pid), (KStr ''amount_cents'', amount)])) (\<lambda>created.
        ebind (Ret delay) (\<lambda>d.
        bind (if d \<noteq> 0 then modify (\<lambda>(t, x). (t + max 0 d, x)) else Ret ()) (\<lambda>_.
        Ret (Inr (refund_result pid amount token created)))))))))))\<rparr>"

definition notify_customer :: "world pyfn" where
  "notify_customer =
     \<lparr>pf_params = [''ctx'', ''token'', ''payment_id'', ''message''], pf_var_kwargs = False,
      pf_code = (\<lambda>args.
        ebind (Ret (ctx_arg args)) (\<lambda>rid.
        ebind (Ret (token_arg args)) (\<lambda>token.
        ebind (Ret (val_arg args ''payment_id'')) (\<lambda>pid.
        ebind (record_effect token rid ''email''
                 (PDict [(KStr ''payment_id'', pid),
                         (KStr ''message'', (case val_arg args ''message'' of Inl _ \<Rightarrow> PStr [] | Inr m \<Rightarrow> m))])) (\<lambda>_.
        Ret (Inr (PDict [(KStr ''sent'', PBool True), (KStr ''payment_id'', pid)])))))))\<rparr>"

definition schema :: "(string \<times> string) list \<Rightarrow> string list \<Rightarrow> pyval" where
  "schema props required =
     PDict [(KStr ''type'', PStr ''object''),
            (KStr ''properties'', PDict (map (\<lambda>(k, ty). (KStr k, PDict [(KStr ''type'', PStr ty)])) props)),
            (KStr ''required'', PList (map PStr required))]"

definition lookup_tool_spec :: "(rat \<Rightarrow> string) \<Rightarrow> world tool_spec" where
  "lookup_tool_spec fs =
     \<lparr>ts_name = ''lookup_payment'', ts_fn = lookup_payment fs,
      ts_description = ''Fetch a payment by id. Read-only.'',
      ts_input_schema = schema [(''payment_id'', ''string'')] [''payment_id''],
      ts_idempotency = AT_LEAST_ONCE, ts_verify = None\<rparr>"

definition refund_tool_spec ::
  "(rat \<Rightarrow> string) \<Rightarrow> (rat \<Rightarrow> string) \<Rightarrow> rat py_result \<Rightarrow> world tool_spec" where
  "refund_tool_spec fs isof delay =
     \<lparr>ts_name = ''issue_refund'', ts_fn = issue_refund fs delay,
      ts_description = ''Refund a captured payment. Moves money.'',
      ts_input_schema = schema [(''payment_id'', ''string''), (''amount_cents'', ''integer'')]
                          [''payment_id'', ''amount_cents''],
      ts_idempotency = AT_MOST_ONCE, ts_verify = Some (refund_landed isof)\<rparr>"

definition notify_tool_spec :: "world tool_spec" where
  "notify_tool_spec =
     \<lparr>ts_name = ''notify_customer'', ts_fn = notify_customer,
      ts_description = ''Email the customer about their refund. Cannot be deduplicated.'',
      ts_input_schema = schema [(''payment_id'', ''string''), (''message'', ''string'')] [''payment_id''],
      ts_idempotency = AT_MOST_ONCE, ts_verify = None\<rparr>"

definition refund_tools ::
  "(rat \<Rightarrow> string) \<Rightarrow> (rat \<Rightarrow> string) \<Rightarrow> rat py_result \<Rightarrow> (string \<times> nat \<times> world tool_spec) list" where
  "refund_tools fs isof delay =
     [(''lookup_payment'', 1, lookup_tool_spec fs), (''issue_refund'', 2, refund_tool_spec fs isof delay),
      (''notify_customer'', 3, notify_tool_spec)]"

section \<open>The workflow\<close>

definition MAX_TURNS :: nat where
  "MAX_TURNS = 8"

definition SYSTEM :: string where
  "SYSTEM = ''You are a payments support agent. Look up the payment before refunding it. ''
     @ ''Refund only the amount that was actually captured, then notify the customer. ''
     @ ''When you are finished, reply with a one-line summary and no tool calls.''"

text \<open>
  The value the workflow returns, with the counters of its context. A step's output is JSON, so
  \<open>json.dumps (output, default=str)\<close> is its text.
\<close>

definition refund_summary :: "string \<Rightarrow> pyval list \<Rightarrow> 'x wf" where
  "refund_summary summary transcript =
     WCounters (\<lambda>(executed, replayed). WReturn (PDict
       [(KStr ''summary'', PStr summary), (KStr ''steps_executed'', PInt (int executed)),
        (KStr ''steps_replayed'', PInt (int replayed)), (KStr ''transcript'', PList transcript)]))"

definition assistant_message :: "model_response \<Rightarrow> pyval" where
  "assistant_message r =
     PDict [(KStr ''role'', PStr ''assistant''),
            (KStr ''content'', PList
              ((if mr_text r \<noteq> []
                then [PDict [(KStr ''type'', PStr ''text''), (KStr ''text'', PStr (mr_text r))]] else [])
               @ map (\<lambda>c. PDict [(KStr ''type'', PStr ''tool_use''), (KStr ''id'', PStr (tc_id c)),
                                (KStr ''name'', PStr (tc_name c)),
                                (KStr ''input'', PDict (tc_arguments c))]) (mr_tool_calls r)))]"

primrec call_tools ::
  "(rat \<Rightarrow> string) \<Rightarrow> tool_call list \<Rightarrow> pyval list \<Rightarrow> pyval list \<Rightarrow> (pyval list \<Rightarrow> pyval list \<Rightarrow> 'x wf) \<Rightarrow> 'x wf" where
  "call_tools fs [] transcript results k = k transcript results"
| "call_tools fs (c # cs) transcript results k =
     WTool (tc_name c) (tc_arguments c) (\<lambda>r.
       case r of
         Inl e \<Rightarrow> WRaise e
       | Inr out \<Rightarrow>
           call_tools fs cs
             (transcript @ [PDict [(KStr ''tool'', PStr (tc_name c)), (KStr ''output'', out)]])
             (results @ [PDict [(KStr ''type'', PStr ''tool_result''), (KStr ''tool_use_id'', PStr (tc_id c)),
                                (KStr ''content'', PStr (json_text fs out))]]) k)"

definition user_message :: "pyval \<Rightarrow> pyval" where
  "user_message content = PDict [(KStr ''role'', PStr ''user''), (KStr ''content'', content)]"

definition agent_request :: "pyval list \<Rightarrow> pyval list \<Rightarrow> model_request" where
  "agent_request schemas messages =
     \<lparr>rq_messages = messages, rq_tools = Some schemas, rq_system = Some SYSTEM, rq_max_tokens = 1024\<rparr>"

primrec agent_turns ::
  "(rat \<Rightarrow> string) \<Rightarrow> pyval list \<Rightarrow> nat \<Rightarrow> pyval list \<Rightarrow> pyval list \<Rightarrow> 'x wf" where
  "agent_turns fs schemas 0 messages transcript =
     refund_summary ''turn limit reached without a final answer'' transcript"
| "agent_turns fs schemas (Suc n) messages transcript =
     WModel ''model'' (agent_request schemas messages) (\<lambda>r.
       case r of
         Inl e \<Rightarrow> WRaise e
       | Inr resp \<Rightarrow>
           if \<not> wants_tools resp then refund_summary (mr_text resp) transcript
           else call_tools fs (mr_tool_calls resp) transcript [] (\<lambda>tr results.
                  agent_turns fs schemas n
                    (messages @ [assistant_message resp, user_message (PList results)]) tr))"

definition agent_tools :: "string list" where
  "agent_tools = [''lookup_payment'', ''issue_refund'', ''notify_customer'']"

definition refund_agent ::
  "(rat \<Rightarrow> string) \<Rightarrow> 'y registry \<Rightarrow> pyval \<Rightarrow> 'x wf" where
  "refund_agent fs g payload =
     (case tool_schemas g (Some agent_tools) of
        Inl e \<Rightarrow> WRaise e
      | Inr schemas \<Rightarrow>
          (case json_dumps fs payload of
             Inl e \<Rightarrow> WRaise e
           | Inr text \<Rightarrow> agent_turns fs schemas MAX_TURNS [user_message (PStr text)] []))"

text \<open>The registry after the module is imported.\<close>

definition refund_registry ::
  "(rat \<Rightarrow> string) \<Rightarrow> (rat \<Rightarrow> string) \<Rightarrow> rat py_result \<Rightarrow> world registry" where
  "refund_registry fs isof delay =
     (let g = \<lparr>rg_workflows = [], rg_tools = refund_tools fs isof delay\<rparr>
      in g\<lparr>rg_workflows := [(''refund_agent'', 4, refund_agent fs g)]\<rparr>)"

definition refund_provider :: "(rat \<Rightarrow> string) \<Rightarrow> (string \<Rightarrow> rat) \<Rightarrow> echo \<Rightarrow> world provider" where
  "refund_provider fs pf ec = echo_provider fs pf wo_failures (\<lambda>n x. x\<lparr>wo_failures := n\<rparr>) ec"

section \<open>The agent stops\<close>

text \<open>At most \<open>n\<close> model calls on every path through a workflow, whatever the calls return.\<close>

primrec models_within :: "'x wf \<Rightarrow> nat \<Rightarrow> bool" where
  "models_within (WReturn v) = (\<lambda>n. True)"
| "models_within (WRaise e) = (\<lambda>n. True)"
| "models_within (WStep nm fn idem verify m kwargs k) = (\<lambda>n. \<forall>x. models_within (k x) n)"
| "models_within (WTool nm args k) = (\<lambda>n. \<forall>x. models_within (k x) n)"
| "models_within (WModel nm req k) = (\<lambda>n. 0 < n \<and> (\<forall>x. models_within (k x) (n - 1)))"
| "models_within (WCounters k) = (\<lambda>n. \<forall>x. models_within (k x) n)"

lemma models_within_summary: "models_within (refund_summary s tr) n"
  by (simp add: refund_summary_def split_def)

lemma models_within_tools:
  "(\<And>tr rs. models_within (k tr rs) n) \<Longrightarrow> models_within (call_tools fs cs tr rs k) n"
  by (induction cs arbitrary: tr rs) (auto split: sum.splits)

lemma models_within_turns: "models_within (agent_turns fs schemas n messages tr) n"
  by (induction n arbitrary: messages tr)
    (auto simp: models_within_summary models_within_tools split: sum.splits)

text \<open>
  C40. The agent stops: on every path, whatever the model and the tools answer, it calls the model at
  most eight times.
\<close>

theorem agent_stops: "models_within (refund_agent fs g payload) 8"
  using models_within_turns [of fs _ MAX_TURNS]
  by (auto simp: refund_agent_def MAX_TURNS_def split: sum.splits)

section \<open>The ledger\<close>

text \<open>
  Every effect has a token of its own, and every refund is of a known payment and of an amount that is
  positive and was captured.
\<close>

definition refund_ok :: "effect \<Rightarrow> bool" where
  "refund_ok e \<longleftrightarrow> (\<exists>pid p a c.
     py_get (ef_payload e) ''payment_id'' PNone = PStr pid \<and> map_of payments pid = Some p \<and>
     as_number (py_get (ef_payload e) ''amount_cents'' PNone) = Inr a \<and>
     as_number (py_get (PDict p) ''captured_cents'' PNone) = Inr c \<and> 0 < a \<and> a \<le> c)"

definition ledger_ok :: "effect list \<Rightarrow> bool" where
  "ledger_ok es \<longleftrightarrow> distinct (map ef_token es) \<and> (\<forall>e \<in> set es. ef_kind e = ''refund'' \<longrightarrow> refund_ok e)"

definition ledger_grows :: "effect list \<Rightarrow> effect list \<Rightarrow> bool" where
  "ledger_grows es es' \<longleftrightarrow> extends es' es \<and> (ledger_ok es \<longrightarrow> ledger_ok es')"

lemma ledger_grows_refl [simp]: "ledger_grows es es"
  by (simp add: ledger_grows_def)

definition on_ledger :: "rat \<times> world \<Rightarrow> rat \<times> world \<Rightarrow> bool" where
  "on_ledger s s' \<longleftrightarrow> ledger_grows (wo_effects (snd s)) (wo_effects (snd s'))"

lemma on_ledger_refl [simp]: "on_ledger s s"
  by (simp add: on_ledger_def)

lemma ledger_record:
  assumes "kind = ''refund'' \<Longrightarrow> json_ok payload \<Longrightarrow> refund_ok \<lparr>ef_token = token, ef_run_id = r, ef_kind = kind,
      ef_payload = json_norm payload, ef_created_at = t\<rparr>"
  shows "ledger_grows es (fst (record_side_effect t token r kind payload es))"
  using assms by (auto simp: record_side_effect_def ledger_grows_def ledger_ok_def)

lemma guar_record_effect:
  assumes "\<And>t. kind = ''refund'' \<Longrightarrow> json_ok payload \<Longrightarrow> refund_ok \<lparr>ef_token = token, ef_run_id = r, ef_kind = kind,
      ef_payload = json_norm payload, ef_created_at = t\<rparr>"
  shows "guar on_ledger (record_effect token r kind payload)"
  unfolding record_effect_def
  by (rule guar_atomI) (simp add: on_ledger_def split_def Let_def ledger_record [OF assms])

text \<open>What passes the checks is a refund in order, also when read back from the table.\<close>

lemma refund_amount_ok:
  assumes "refund_amount fs pid amount = Inr ()"
  shows "refund_ok \<lparr>ef_token = token, ef_run_id = r, ef_kind = kind,
    ef_payload = json_norm (PDict [(KStr ''payment_id'', pid), (KStr ''amount_cents'', amount)]), ef_created_at = t\<rparr>"
proof -
  obtain p a c where p: "get_payment pid = Inr (Some p)" and a: "as_number amount = Inr a"
    and c: "as_number (py_get (PDict p) ''captured_cents'' PNone) = Inr c" "0 < a" "a \<le> c"
    using assms by (auto simp: refund_amount_def find_payment_def res_bind_def split: sum.splits option.splits if_splits)
  obtain s where s: "pid = PStr s" "map_of payments s = Some p"
    using p by (cases pid) (auto simp: get_payment_def)
  have "json_norm amount = amount" using a by (cases amount) simp_all
  then show ?thesis using s a c by (auto simp: refund_ok_def dict_update_def)
qed

lemma issue_refund_keeps: "guar on_ledger (pf_code (issue_refund fs delay) args)"
  unfolding issue_refund_def pyfn.select_convs
  by (intro guar_ebind_Ret guar_ebindI guar_bindI guar_record_effect)
    (auto intro!: guar_modifyI refund_amount_ok simp: on_ledger_def simp del: json_norm.simps)

lemma notify_customer_keeps: "guar on_ledger (pf_code notify_customer args)"
  unfolding notify_customer_def pyfn.select_convs
  by (intro guar_ebind_Ret guar_ebindI guar_record_effect) auto

lemma refund_landed_keeps: "guar on_ledger (pf_code (refund_landed isof) args)"
  unfolding refund_landed_def pyfn.select_convs
  by (intro guar_ebind_Ret guar_getsI) simp

lemma echo_keeps: "guar on_ledger (pv_complete (refund_provider fs pf ec) rq)"
  unfolding refund_provider_def echo_provider_def echo_complete_def provider.select_convs
  by (intro guar_bindI guar_atomI) (auto intro!: guar_bindI guar_modifyI simp: on_ledger_def split: option.splits)

text \<open>The same over the system: whatever anybody does in between, an atom of a run keeps the ledger.\<close>

definition keeps_ledger :: "('st, world) sys \<Rightarrow> ('st, world) sys \<Rightarrow> bool" where
  "keeps_ledger s s' \<longleftrightarrow> ledger_grows (wo_effects (sy_ext s)) (wo_effects (sy_ext s'))"

lemma respects_ledger:
  assumes "\<And>args. guar on_ledger (pf_code fn args)"
  shows "respects_fn (of_run r keeps_ledger) fn"
proof -
  have "guar on_ledger (invoke fn rid token args)" for rid token args
    using assms by (auto simp: invoke_def Let_def)
  then show ?thesis
    unfolding respects_fn_def call_fn_def
    by (auto intro!: guar_bindI guar_outside [of on_ledger] guar_getsI
        simp: ctx_gets_def of_run_def keeps_ledger_def on_ledger_def)
qed

lemma wf_ok_summary: "wf_ok P (refund_summary s tr)"
  by (simp add: refund_summary_def split_def)

lemma wf_ok_tools: "(\<And>tr rs. wf_ok P (k tr rs)) \<Longrightarrow> wf_ok P (call_tools fs cs tr rs k)"
  by (induction cs arbitrary: tr rs) (auto split: sum.splits)

lemma wf_ok_turns: "wf_ok P (agent_turns fs schemas n messages tr)"
  by (induction n arbitrary: messages tr) (auto simp: wf_ok_summary wf_ok_tools split: sum.splits)

lemma wf_ok_refund: "wf_ok P (refund_agent fs g payload)"
  by (auto simp: refund_agent_def wf_ok_turns split: sum.splits)

definition refund_deps ::
  "('st, world) deps \<Rightarrow> (rat \<Rightarrow> string) \<Rightarrow> (string \<Rightarrow> rat) \<Rightarrow> (rat \<Rightarrow> string) \<Rightarrow> rat py_result \<Rightarrow> echo \<Rightarrow> bool" where
  "refund_deps E fs pf isof delay ec \<longleftrightarrow>
     d_registry E = refund_registry fs isof delay \<and> d_provider E = refund_provider fs pf ec"

lemma refund_tool_cases:
  assumes "lookup_tool (refund_registry fs isof delay) nm = Inr spec"
  shows "spec \<in> {lookup_tool_spec fs, refund_tool_spec fs isof delay, notify_tool_spec}"
  using assms by (auto simp: lookup_tool_def refund_registry_def refund_tools_def split: if_splits)

lemma respects_refund:
  assumes E: "refund_deps E fs pf isof delay ec"
  shows "respects_code E (of_run r keeps_ledger)"
proof -
  have tool: "tool_ok (respects_fn (of_run r keeps_ledger)) spec" if "lookup_tool (d_registry E) nm = Inr spec" for nm spec
  proof -
    have "spec \<in> {lookup_tool_spec fs, refund_tool_spec fs isof delay, notify_tool_spec}"
      using that E refund_tool_cases by (simp add: refund_deps_def)
    moreover have "guar on_ledger (pf_code (lookup_payment fs) args)" for args by (simp add: lookup_payment_def)
    ultimately show ?thesis
      by (auto simp: tool_ok_def lookup_tool_spec_def refund_tool_spec_def notify_tool_spec_def
          issue_refund_keeps refund_landed_keeps notify_customer_keeps intro!: respects_ledger)
  qed
  have "guar (of_run r keeps_ledger) (outside (pv_complete (d_provider E) req))" for req
    using E by (intro guar_outside [of on_ledger])
      (auto simp: refund_deps_def echo_keeps of_run_def keeps_ledger_def on_ledger_def)
  moreover have "wf_ok P (f v)" if "lookup_workflow (d_registry E) nm = Inr f" for P nm f v
    using that E by (auto simp: refund_deps_def refund_registry_def lookup_workflow_def wf_ok_refund Let_def split: if_splits)
  ultimately show ?thesis using tool by (auto simp: respects_code_def)
qed

lemma keeps_ledger_same: "sy_ext s' = sy_ext s \<Longrightarrow> keeps_ledger s s'"
  by (simp add: keeps_ledger_def)

lemma refund_execute_keeps:
  assumes E: "refund_deps E fs pf isof delay ec" and id: "\<And>d rr. st_get_run (d_store E) r d = Some rr \<Longrightarrow> rr_run_id rr = r"
  shows "guar keeps_ledger (execute E r)"
proof (rule guar_execute)
  show "admits E (of_run r keeps_ledger)" "admits_keys (of_run r keeps_ledger)"
    by (auto simp: admits_def admits_keys_def of_run_def cx_run_id_def intro!: keeps_ledger_same)
qed (auto intro!: keeps_ledger_same respects_refund [OF E] dest: id)

text \<open>
  C39. The ledger stays in order, whatever crashes and whatever runs at the same time: every atom of a
  worker on runs of the refund agent only adds to the ledger, every effect has a token of its own, and
  every refund is of a known payment and of a positive amount that was captured, whatever the model
  asked for.
\<close>

theorem refund_ledger:
  assumes "refund_deps E fs pf isof delay ec" and "d_store E = pg_store"
  shows "guar (\<lambda>s s'. extends (wo_effects (sy_ext s')) (wo_effects (sy_ext s)) \<and>
      (ledger_ok (wo_effects (sy_ext s)) \<longrightarrow> ledger_ok (wo_effects (sy_ext s')))) (run_once E w st)"
proof -
  have "guar keeps_ledger (execute (guarded E w r) r)" for r
    using assms by (intro refund_execute_keeps [of _ fs pf isof delay ec])
      (auto simp: refund_deps_def guarded_def pg_get_run_id)
  then have "guar keeps_ledger (process E w r st)" for r st
    unfolding process_def
    by (auto intro!: guar_bindI guar_db_op keeps_ledger_same split: sum.splits)
  then have "guar keeps_ledger (run_once E w st)"
    unfolding run_once_def
    by (auto intro!: guar_bindI guar_db_op keeps_ledger_same split: option.splits)
  then show ?thesis by (simp add: keeps_ledger_def [abs_def] ledger_grows_def)
qed

definition refund_demo :: "(pg, world) deps" where
  "refund_demo =
     \<lparr>d_store = pg_store, d_registry = refund_registry (\<lambda>_. ''0.0'') (\<lambda>_. []) (Inr 0),
      d_provider = refund_provider (\<lambda>_. ''0.0'') (\<lambda>_. 0) (default_echo\<lparr>ec_plan := agent_tools\<rparr>),
      d_settings = default_settings, d_lease_guard = None, d_float_str = (\<lambda>_. ''0.0''), d_traceback = (\<lambda>_. [])\<rparr>"

lemma refund_ledger_witness:
  "guar (\<lambda>s s'. extends (wo_effects (sy_ext s')) (wo_effects (sy_ext s)) \<and>
      (ledger_ok (wo_effects (sy_ext s)) \<longrightarrow> ledger_ok (wo_effects (sy_ext s')))) (run_once refund_demo ''w1'' new_stats)"
  by (rule refund_ledger [of _ "\<lambda>_. ''0.0''" "\<lambda>_. 0" "\<lambda>_. []" "Inr 0" "default_echo\<lparr>ec_plan := agent_tools\<rparr>"])
    (simp_all add: refund_demo_def refund_deps_def)

section \<open>What recovery returns\<close>

text \<open>
  After a crash inside a refund the step's result has another shape than without one. The tool returns
  the payment, the amount, the token and whether the effect was new; its verifier returns the row of the
  table, which holds the payment and the amount one level down and lacks \<open>created\<close>.
\<close>

theorem refund_verifier_shape:
  assumes "ef \<in> set es" and "distinct (map ef_token es)"
  shows "py_get (find_side_effect isof (ef_token ef) es) ''payment_id'' PNone = PNone \<and>
    py_get (find_side_effect isof (ef_token ef) es) ''payload'' PNone = ef_payload ef \<and>
    py_get (refund_result pid amount (ef_token ef) b) ''payment_id'' PNone = pid \<and>
    find_side_effect isof (ef_token ef) es \<noteq> refund_result pid amount (ef_token ef) b"
  using assms row_find_unique [of ef_token es ef]
  by (simp add: find_side_effect_def refund_result_def)

lemma refund_verifier_shape_witness:
  "let ef = \<lparr>ef_token = 1, ef_run_id = 7, ef_kind = ''refund'', ef_payload = PDict [], ef_created_at = 0\<rparr>
   in py_get (find_side_effect (\<lambda>_. []) 1 [ef]) ''payment_id'' PNone = PNone"
  using refund_verifier_shape [of "\<lparr>ef_token = 1, ef_run_id = 7, ef_kind = ''refund'', ef_payload = PDict [], ef_created_at = 0\<rparr>"
      "[\<lparr>ef_token = 1, ef_run_id = 7, ef_kind = ''refund'', ef_payload = PDict [], ef_created_at = 0\<rparr>]" "\<lambda>_. []" PNone PNone True]
  by (simp add: Let_def)

end
