(* ===== verification/Declarations.thy ===== *)
theory Declarations
  imports Refund
begin

text \<open>
  The decorators \<open>tool\<close> and \<open>workflow\<close> of \<open>src/anchor/registry.py\<close>, and the import of
  \<open>examples/refund_agent.py\<close> as the registrations its decorators make, in the order of the file.
\<close>

section \<open>The decorators\<close>

text \<open>
  Each use of \<open>tool\<close> builds a \<open>ToolSpec\<close> of its own, so its identity \<open>oid\<close> is a new one; \<open>workflow\<close>
  registers the function itself. An absent or an empty schema is replaced.
\<close>

definition default_schema :: pydict where
  "default_schema = [(KStr ''type'', PStr ''object''), (KStr ''properties'', PDict [])]"

definition tool_decorator ::
  "string \<Rightarrow> string \<Rightarrow> pydict option \<Rightarrow> step_idempotency \<Rightarrow> 'x pyfn option \<Rightarrow>
   nat \<Rightarrow> 'x pyfn \<Rightarrow> 'x registry \<Rightarrow> 'x registry py_result" where
  "tool_decorator name description input_schema idempotency verify oid fn =
     register_tool oid
       \<lparr>ts_name = name, ts_fn = fn, ts_description = description,
        ts_input_schema = PDict (case input_schema of None \<Rightarrow> default_schema
                                 | Some d \<Rightarrow> if truthy (PDict d) then d else default_schema),
        ts_idempotency = idempotency, ts_verify = verify\<rparr>"

definition workflow_decorator ::
  "string \<Rightarrow> nat \<Rightarrow> (pyval \<Rightarrow> 'x wf) \<Rightarrow> 'x registry \<Rightarrow> 'x registry py_result" where
  "workflow_decorator name oid fn = register_workflow name oid fn"

text \<open>A tool declared anew is the one that is found; under a name that is taken the decorator raises.\<close>

lemma tool_decorator_new:
  assumes "map_of (rg_tools g) name = None"
  shows "\<exists>g' spec. tool_decorator name descr sch idem verify oid fn g = Inr g' \<and> lookup_tool g' name = Inr spec \<and>
    ts_fn spec = fn \<and> ts_idempotency spec = idem \<and> ts_verify spec = verify \<and>
    ts_input_schema spec \<noteq> PDict []"
  using assms
  by (auto simp: tool_decorator_def register_tool_def lookup_tool_def map_of_dict_set default_schema_def
      split: option.splits)

lemma tool_decorator_taken:
  assumes "map_of (rg_tools g) name = Some (oid', spec')" and "oid \<noteq> oid'"
  shows "tool_decorator name descr sch idem verify oid fn g =
    Inl (value_error (''tool '' @ repr_str name @ '' is already registered''))"
  using assms by (simp add: tool_decorator_def register_tool_def)

text \<open>A function may be declared as the same workflow twice.\<close>

lemma workflow_decorator_again:
  assumes "workflow_decorator name oid fn g = Inr g'"
  shows "workflow_decorator name oid fn g' = Inr g'"
proof -
  have "rg_workflows g' = dict_set (rg_workflows g) name (oid, fn)"
    using assms by (auto simp: workflow_decorator_def register_workflow_def split: option.splits if_splits)
  moreover have "dict_set (dict_set d k v) k v = dict_set d k v" for d k and v :: "nat \<times> (pyval \<Rightarrow> 'a wf)"
    by (induction d) auto
  ultimately show ?thesis
    by (cases g') (simp add: workflow_decorator_def register_workflow_def map_of_dict_set)
qed

section \<open>Importing the refund example\<close>

text \<open>
  \<open>oids\<close> are the identities the import makes. The workflow reads the registry when it is called, after
  the import; registering it changes no tool, so these are the tools of \<open>g3\<close>.
\<close>

definition import_refund_agent ::
  "(rat \<Rightarrow> string) \<Rightarrow> (rat \<Rightarrow> string) \<Rightarrow> rat py_result \<Rightarrow> (nat \<Rightarrow> nat) \<Rightarrow> world registry \<Rightarrow> world registry py_result" where
  "import_refund_agent fs isof delay oids g =
     res_bind (tool_decorator ''lookup_payment'' ''Fetch a payment by id. Read-only.''
       (Some (pydict_of (schema [(''payment_id'', ''string'')] [''payment_id''])))
       AT_LEAST_ONCE None (oids 1) (lookup_payment fs) g) (\<lambda>g1.
     res_bind (tool_decorator ''issue_refund'' ''Refund a captured payment. Moves money.''
       (Some (pydict_of (schema [(''payment_id'', ''string''), (''amount_cents'', ''integer'')]
                           [''payment_id'', ''amount_cents''])))
       AT_MOST_ONCE (Some (refund_landed isof)) (oids 2) (issue_refund fs delay) g1) (\<lambda>g2.
     res_bind (tool_decorator ''notify_customer''
       ''Email the customer about their refund. Cannot be deduplicated.''
       (Some (pydict_of (schema [(''payment_id'', ''string''), (''message'', ''string'')] [''payment_id''])))
       AT_MOST_ONCE None (oids 3) notify_customer g2) (\<lambda>g3.
     workflow_decorator ''refund_agent'' (oids 4) (refund_agent fs g3) g3)))"

text \<open>Into the empty registry it gives the registry the theorems on the example are about.\<close>

lemma import_refund_registry:
  "import_refund_agent fs isof delay id empty_registry = Inr (refund_registry fs isof delay)"
  by (simp add: import_refund_agent_def tool_decorator_def workflow_decorator_def register_tool_def
      register_workflow_def empty_registry_def refund_registry_def refund_tools_def lookup_tool_spec_def
      refund_tool_spec_def notify_tool_spec_def pydict_of_def schema_def Let_def)

text \<open>Importing it anew, with new objects, raises at the first tool.\<close>

lemma reimport_refund_agent:
  assumes "oids 1 \<noteq> 1"
  shows "import_refund_agent fs isof delay oids (refund_registry fs isof delay) =
    Inl (value_error (''tool '' @ repr_str ''lookup_payment'' @ '' is already registered''))"
  using assms tool_decorator_taken [of "refund_registry fs isof delay" "''lookup_payment''"]
  by (simp add: import_refund_agent_def refund_registry_def refund_tools_def)

end
