(* ===== verification/Api.thy ===== *)
theory Api
  imports Py_Text Demo
begin

text \<open>
  \<open>src/anchor/api.py\<close>: the HTTP control plane over the Postgres store. A handler is a coroutine over the
  system: every store call is one atom, and other requests and workers may run between two of them.
  FastAPI's routing is not modelled; of pydantic's validation the bounds that the models declare are.
  \<open>isof\<close> prints a time, \<open>fs\<close> a float.
\<close>

datatype reply =
    Reply nat pyval
  | HttpError nat string \<comment> \<open>an \<open>HTTPException\<close> with its detail\<close>
  | Crashed exn \<comment> \<open>an exception the handler lets through: a 500\<close>

type_synonym 'x handler = "((pg, 'x) sys, reply) prog"

section \<open>Submission\<close>

text \<open>\<open>BudgetIn\<close>: integers are at least one, the others positive.\<close>

definition at_least :: "('a \<Rightarrow> bool) \<Rightarrow> 'a option \<Rightarrow> bool" where
  "at_least P v = (case v of None \<Rightarrow> True | Some x \<Rightarrow> P x)"

definition budget_in :: "budget \<Rightarrow> bool" where
  "budget_in b \<longleftrightarrow>
     at_least (\<lambda>n. 1 \<le> n) (b_max_tokens b) \<and> at_least (\<lambda>n. 1 \<le> n) (b_max_tool_calls b) \<and>
     at_least (\<lambda>n. 1 \<le> n) (b_max_model_calls b) \<and> at_least (\<lambda>r. 0 < r) (b_max_wall_seconds b) \<and>
     at_least (\<lambda>r. 0 < r) (b_max_cost_usd b)"

record submit_body =
  sb_workflow :: string
  sb_input :: pydict
  sb_budget :: budget

text \<open>
  \<open>run_id\<close> is the fresh id the store gives a new run, \<open>fresh\<close> the one that stands in for a missing key.
  An empty key is no key.
\<close>

definition submission_key :: "uuid \<Rightarrow> string option \<Rightarrow> string" where
  "submission_key fresh key = (case key of None \<Rightarrow> uuid_str fresh | Some k \<Rightarrow> if k = [] then uuid_str fresh else k)"

definition submit_run ::
  "'x registry \<Rightarrow> (rat \<Rightarrow> string) \<Rightarrow> uuid \<Rightarrow> uuid \<Rightarrow> submit_body \<Rightarrow> string option \<Rightarrow> 'x handler" where
  "submit_run g isof run_id fresh body key =
     (if \<not> budget_in (sb_budget body) then Ret (HttpError 422 [])
      else if sb_workflow body \<notin> set (workflow_names g) then
        Ret (HttpError 422 (''unknown workflow '' @ repr_str (sb_workflow body) @ ''; known: ''
                            @ repr_strs (workflow_names g)))
      else
        bind (db_op (\<lambda>t. pg_submit_run t run_id (sb_workflow body) (PDict (sb_input body))
                (submission_key fresh key) (budget_from_dict (budget_to_dict (sb_budget body))))) (\<lambda>r.
        case r of
          Inl e \<Rightarrow> Ret (Crashed e)
        | Inr (rr, created) \<Rightarrow>
            Ret (Reply (if created then 201 else 200)
              (PDict ((KStr ''created'', PBool created) # run_to_api isof rr)))))"

section \<open>Reading\<close>

definition depth_dict :: "queue_depth \<Rightarrow> (string \<times> nat) list" where
  "depth_dict d = [(''claimable'', qd_claimable d), (''leased'', qd_leased d), (''total'', qd_total d)]"

text \<open>\<open>up\<close>: whether the database answers, and if not what it raises.\<close>

definition healthz :: "'x registry \<Rightarrow> (rat \<Rightarrow> string) \<Rightarrow> exn option \<Rightarrow> 'x handler" where
  "healthz g fs down =
     (case down of
        Some e \<Rightarrow> Ret (HttpError 503 (''database unavailable: '' @ exn_str fs e))
      | None \<Rightarrow>
          bind (gets (\<lambda>s. pg_queue_depth (sy_now s) (sy_db s))) (\<lambda>d.
          Ret (Reply 200 (PDict
            [(KStr ''status'', PStr ''ok''),
             (KStr ''queue'', PDict (map (\<lambda>(k, n). (KStr k, PInt (int n))) (depth_dict d))),
             (KStr ''workflows'', PList (map PStr (workflow_names g))),
             (KStr ''tools'', PList (map PStr (tool_names g)))]))))"

definition newline :: string where
  "newline = [CHR 0x0A]"

definition metric_line :: "string \<Rightarrow> string \<Rightarrow> string \<times> nat \<Rightarrow> string" where
  "metric_line name label sn =
     name @ ''{'' @ label @ ''='' @ [CHR 0x22] @ fst sn @ [CHR 0x22] @ ''} '' @ str_nat (snd sn)"

definition metrics_lines :: "(string \<times> nat) list \<Rightarrow> (string \<times> nat) list \<Rightarrow> string list" where
  "metrics_lines counts depth =
     [''# HELP anchor_runs_total Runs by terminal or current status.'',
      ''# TYPE anchor_runs_total gauge'']
     @ map (metric_line ''anchor_runs_total'' ''status'') (sort_key fst counts)
     @ [''# HELP anchor_queue_depth Queued runs by lease state.'',
        ''# TYPE anchor_queue_depth gauge'']
     @ map (metric_line ''anchor_queue_depth'' ''state'') (sort_key fst depth)"

definition metrics :: "'x handler" where
  "metrics =
     bind (gets (\<lambda>s. pg_status_counts (sy_db s))) (\<lambda>counts.
     bind (gets (\<lambda>s. pg_queue_depth (sy_now s) (sy_db s))) (\<lambda>depth.
     Ret (Reply 200 (PStr (join newline (metrics_lines counts (depth_dict depth)) @ newline)))))"

definition list_runs :: "(rat \<Rightarrow> string) \<Rightarrow> int \<Rightarrow> string option \<Rightarrow> 'x handler" where
  "list_runs isof limit status =
     bind (gets (\<lambda>s. pg_list_runs (min limit 200) status (sy_db s))) (\<lambda>r.
     case r of
       Inl e \<Rightarrow> Ret (Crashed e)
     | Inr runs \<Rightarrow> Ret (Reply 200 (PDict [(KStr ''runs'', PList (map (PDict \<circ> run_to_api isof) runs))])))"

definition get_run :: "(rat \<Rightarrow> string) \<Rightarrow> uuid \<Rightarrow> 'x handler" where
  "get_run isof run_id =
     bind (gets (\<lambda>s. pg_get_run run_id (sy_db s))) (\<lambda>r.
     case r of
       None \<Rightarrow> Ret (HttpError 404 ''run not found'')
     | Some rr \<Rightarrow> Ret (Reply 200 (PDict (run_to_api isof rr))))"

definition get_events :: "(rat \<Rightarrow> string) \<Rightarrow> uuid \<Rightarrow> 'x handler" where
  "get_events isof run_id =
     bind (gets (\<lambda>s. pg_get_run run_id (sy_db s))) (\<lambda>r.
     case r of
       None \<Rightarrow> Ret (HttpError 404 ''run not found'')
     | Some rr \<Rightarrow>
         bind (gets (\<lambda>s. pg_load_events run_id (sy_db s))) (\<lambda>events.
         Ret (Reply 200 (PDict
           [(KStr ''run_id'', PStr (uuid_str run_id)), (KStr ''count'', PInt (int (length events))),
            (KStr ''events'', PList (map (PDict \<circ> event_to_api isof) events))]))))"

section \<open>Cancellation\<close>

definition cancel_run :: "uuid \<Rightarrow> 'x handler" where
  "cancel_run run_id =
     bind (gets (\<lambda>s. pg_get_run run_id (sy_db s))) (\<lambda>r.
     case r of
       None \<Rightarrow> Ret (HttpError 404 ''run not found'')
     | Some rr \<Rightarrow>
         bind (db_op (\<lambda>t. pg_request_cancel t run_id)) (\<lambda>accepted.
         if \<not> accepted
         then Ret (HttpError 409 (''run is already '' @ status_value (rr_status rr) @ '' and cannot be cancelled''))
         else Ret (Reply 200 (PDict [(KStr ''run_id'', PStr (uuid_str run_id)),
                                     (KStr ''cancel_requested'', PBool True)]))))"

section \<open>What a run is never changes\<close>

text \<open>The id, the key, the workflow and the input of a run, which no operation changes.\<close>

definition run_identity :: "run_row \<Rightarrow> uuid \<times> string \<times> string \<times> pyval" where
  "run_identity w = (rw_run_id w, rw_idempotency_key w, rw_workflow w, rw_input w)"

lemma run_identity_simps [simp]:
  "run_identity (w\<lparr>rw_status := st\<rparr>) = run_identity w" "run_identity (w\<lparr>rw_event_seq := n\<rparr>) = run_identity w"
  "run_identity (w\<lparr>rw_attempt := n\<rparr>) = run_identity w" "run_identity (w\<lparr>rw_usage := u\<rparr>) = run_identity w"
  "run_identity (w\<lparr>rw_result := res\<rparr>) = run_identity w" "run_identity (w\<lparr>rw_error := err\<rparr>) = run_identity w"
  "run_identity (w\<lparr>rw_cancel_requested := b\<rparr>) = run_identity w" "run_identity (w\<lparr>rw_updated_at := t\<rparr>) = run_identity w"
  "run_identity (w\<lparr>rw_finished_at := f\<rparr>) = run_identity w"
  by (simp_all add: run_identity_def)

definition identities :: "pg \<Rightarrow> (uuid \<times> string \<times> string \<times> pyval) list" where
  "identities d = map run_identity (pg_runs d)"

definition identities_grow :: "pg \<Rightarrow> pg \<Rightarrow> bool" where
  "identities_grow d d' \<longleftrightarrow> extends (identities d') (identities d)"

lemma identities_update_run:
  "(\<And>w. run_identity (f w) = run_identity w) \<Longrightarrow> identities (update_run r f d) = identities d"
  by (simp add: identities_def update_run_def map_row_update)

lemma identities_queue: "identities (d\<lparr>pg_run_queue := q\<rparr>) = identities d"
  by (simp add: identities_def)

lemma pg_runs_append_event:
  "\<exists>rs. pg_runs (fst (append_event_conn t r ty sk p d)) = row_update (\<lambda>w. rw_run_id w = r) rs (pg_runs d) \<and>
    (\<forall>w. run_identity (rs w) = run_identity w)"
proof (cases "pg_runs (fst (append_event_conn t r ty sk p d)) = pg_runs d")
  case True
  then show ?thesis by (intro exI [of _ "\<lambda>w. w"]) (simp add: row_update_def)
next
  case False
  then obtain n where "pg_runs (fst (append_event_conn t r ty sk p d)) =
      row_update (\<lambda>w. rw_run_id w = r) (\<lambda>w. w\<lparr>rw_event_seq := n, rw_updated_at := t\<rparr>) (pg_runs d)"
    by (simp add: append_event_conn_def update_run_def Let_def split: option.splits if_splits)
  then show ?thesis by (intro exI [of _ "\<lambda>w. w\<lparr>rw_event_seq := n, rw_updated_at := t\<rparr>"]) simp
qed

lemma identities_append: "identities (fst (append_event_conn t r ty sk p d)) = identities d"
  using pg_runs_append_event [of t r ty sk p d] by (auto simp: identities_def map_row_update)

lemma identities_submit: "identities_grow d (fst (pg_submit_run t r wn p k b d))"
proof -
  have "identities_grow d d2"
    if "append_event_conn t r ty sk q (d\<lparr>pg_runs := pg_runs d @ [w], pg_run_queue := x\<rparr>) = (d2, y)" for d2 ty sk q w x y
    using identities_append [of t r ty sk q "d\<lparr>pg_runs := pg_runs d @ [w], pg_run_queue := x\<rparr>"] that
    by (simp add: identities_grow_def) (simp add: identities_def)
  moreover have "identities_grow d d" by (simp add: identities_grow_def)
  ultimately show ?thesis
    by (auto simp: pg_submit_run_def Let_def split: option.splits prod.splits sum.splits)
qed

interpretation pg_identities: guaranteed_store pg_store identities_grow
proof
  show "identities_grow d (fst (st_submit_run pg_store t r nm p k b d))" for d t r nm p k b
    by (simp add: identities_submit)
  show "identities_grow d (fst (st_request_cancel pg_store t r d))" for d t r
    by (auto simp: identities_grow_def pg_request_cancel_def identities_append identities_update_run split: option.splits)
  show "identities_grow d (fst (st_claim pg_store t w l d))" for d t w l
    by (auto simp: identities_grow_def pg_claim_def identities_queue split: list.splits)
qed (simp_all add: identities_grow_def identities_append identities_update_run identities_queue pg_set_status_def
    pg_bump_attempt_def pg_save_usage_def pg_heartbeat_def pg_release_def pg_dequeue_def)

section \<open>Requests that are repeated\<close>

text \<open>The run under a key, wherever it is in the table.\<close>

lemma key_found:
  assumes "pg_wf d" and "(r, k, wn, p) \<in> set (identities d)"
  shows "\<exists>w. row_find (\<lambda>w. rw_idempotency_key w = k) (pg_runs d) = Some w \<and> run_identity w = (r, k, wn, p)"
proof -
  obtain w where w: "w \<in> set (pg_runs d)" "run_identity w = (r, k, wn, p)"
    using assms(2) by (auto simp: identities_def)
  then have "rw_idempotency_key w = k" by (simp add: run_identity_def)
  moreover have "row_find (\<lambda>y. rw_idempotency_key y = rw_idempotency_key w) (pg_runs d) = Some w"
    using assms(1) w(1) by (intro row_find_unique) (simp_all add: pg_wf_def runs_wf_def)
  ultimately show ?thesis using w by auto
qed

lemma submitted_identity:
  assumes "pg_submit_run t r wn p k b d = (d', Inr (rr, c))"
  shows "(rr_run_id rr, k, rr_workflow rr, rr_input rr) \<in> set (identities d') \<and> rr_idempotency_key rr = k"
proof -
  have ok: "json_ok p" using assms by (cases "json_ok p") (simp_all add: pg_submit_run_def)
  show ?thesis
  proof (cases "row_find (\<lambda>w. rw_idempotency_key w = k) (pg_runs d)")
    case (Some w)
    then have "d' = d" "rr = to_run w" using assms ok by (simp_all add: pg_submit_run_def)
    then show ?thesis using row_find_SomeD [OF Some]
      by (auto simp: identities_def run_identity_def to_run_def image_iff intro!: bexI [of _ w])
  next
    case None
    let ?d = "d\<lparr>pg_runs := pg_runs d @ [new_run_row t r wn p k b], pg_run_queue := pg_run_queue d @ [new_queue_row t r]\<rparr>"
    obtain w where d': "d' = fst (append_event_conn t r RUN_STARTED None (run_started_payload wn p b) ?d)"
      and w: "find_run r d' = Some w" "rr = to_run w" and new: "find_run r d = None"
      using assms ok None by (auto simp: pg_submit_run_def Let_def split: prod.splits sum.splits option.splits if_splits)
    have i: "identities d' = identities d @ [(r, k, wn, json_norm p)]"
      unfolding d' identities_append by (simp add: identities_def run_identity_def new_run_row_def)
    have "run_identity w \<in> set (identities d')" "rw_run_id w = r"
      using find_run_SomeD [OF w(1)] by (auto simp: identities_def)
    moreover have "run_identity w \<notin> set (identities d)"
      using new \<open>rw_run_id w = r\<close> by (auto simp: identities_def run_identity_def find_run_None)
    ultimately have "run_identity w = (r, k, wn, json_norm p)" using i by auto
    then show ?thesis using i w(2) by (simp add: run_identity_def to_run_def)
  qed
qed

text \<open>What a reply 201 says of the statement behind it.\<close>

lemma submit_reply:
  assumes "run (submit_run g isof r f body (Some k)) s = (s1, Reply 201 v)" and "k \<noteq> []"
  obtains rr where "pg_submit_run (sy_now s) r (sb_workflow body) (PDict (sb_input body)) k
        (budget_from_dict (budget_to_dict (sb_budget body))) (sy_db s) = (sy_db s1, Inr (rr, True))"
    and "v = PDict ((KStr ''created'', PBool True) # run_to_api isof rr)"
proof -
  obtain d x where sub: "pg_submit_run (sy_now s) r (sb_workflow body) (PDict (sb_input body)) k
        (budget_from_dict (budget_to_dict (sb_budget body))) (sy_db s) = (d, x)" by fastforce
  note e = assms(1) [unfolded submit_run_def submission_key_def]
  have b: "budget_in (sb_budget body)" using e by (cases "budget_in (sb_budget body)") simp_all
  have w: "sb_workflow body \<in> set (workflow_names g)"
    using e b by (cases "sb_workflow body \<in> set (workflow_names g)") simp_all
  show ?thesis
  proof (cases x)
    case (Inl y)
    then show ?thesis using e b w sub assms(2) by (simp add: db_op_def)
  next
    case (Inr y)
    then show ?thesis using e b w sub assms(2) that
      by (cases y) (auto simp: db_op_def split: if_splits)
  qed
qed

text \<open>
  C28. Submission is idempotent for ever. When a submission was accepted under a key, a later one under that
  key, whatever else it says and whatever workers, requests, time and crashes did in between, is
  answered 200 with the same run, and changes nothing.
\<close>

theorem api_submit_retry:
  assumes "pg_wf (sy_db s)" and "k \<noteq> []"
    and first: "run (submit_run g isof r f body (Some k)) s = (s1, Reply 201 v)"
    and reach: "cluster_reach E \<lparr>cs_sys = s1, cs_threads = []\<rparr> c" and E: "d_store E = pg_store"
    and "budget_in (sb_budget body')" and "sb_workflow body' \<in> set (workflow_names g)" and "json_ok (PDict (sb_input body'))"
  shows "\<exists>v'. run (submit_run g isof r' f' body' (Some k)) (cs_sys c) = (cs_sys c, Reply 200 v') \<and>
    py_get v' ''created'' PNone = PBool False \<and>
    (\<forall>key \<in> {''run_id'', ''workflow'', ''idempotency_key''}. py_get v' key PNone = py_get v key PNone)"
proof -
  obtain rr where sub: "pg_submit_run (sy_now s) r (sb_workflow body) (PDict (sb_input body)) k
        (budget_from_dict (budget_to_dict (sb_budget body))) (sy_db s) = (sy_db s1, Inr (rr, True))"
    and v: "v = PDict ((KStr ''created'', PBool True) # run_to_api isof rr)"
    by (rule submit_reply [OF first assms(2)])
  note id1 = submitted_identity [OF sub]
  have tr: "identities_grow a b \<Longrightarrow> identities_grow b d \<Longrightarrow> identities_grow a d" for a b d
    unfolding identities_grow_def by (rule extends_trans)
  have "identities_grow (sy_db s1) (sy_db (cs_sys c))"
    using cluster_reach_ok [OF reach pg_identities.guaranteed_store_axioms E tr] by simp
  then have "extends (identities (sy_db (cs_sys c))) (identities (sy_db s1))"
    by (simp add: identities_grow_def)
  then have id: "(rr_run_id rr, k, rr_workflow rr, rr_input rr) \<in> set (identities (sy_db (cs_sys c)))"
    by (rule extends_set) (use id1 in simp)
  have wf: "pg_wf (sy_db (cs_sys c))"
  proof -
    have "pg_wf (sy_db s1)"
      using pg_wf_submit [OF assms(1), of "sy_now s" r "sb_workflow body" "PDict (sb_input body)" k
          "budget_from_dict (budget_to_dict (sb_budget body))"] unfolding sub by simp
    then show ?thesis
      using cluster_reach_ok [OF reach pg_tables.guaranteed_store_axioms E] by simp
  qed
  obtain w where w: "row_find (\<lambda>w. rw_idempotency_key w = k) (pg_runs (sy_db (cs_sys c))) = Some w"
    "run_identity w = (rr_run_id rr, k, rr_workflow rr, rr_input rr)"
    using key_found [OF wf id] by blast
  then have "rr_run_id (to_run w) = rr_run_id rr" "rr_workflow (to_run w) = rr_workflow rr"
    "rr_idempotency_key (to_run w) = rr_idempotency_key rr"
    using id1 by (simp_all add: run_identity_def to_run_def)
  then show ?thesis
    using assms(2,6-8) w(1)
    by (simp add: submit_run_def submission_key_def db_op_def pg_submit_run_def v run_to_api_def)
qed

definition pay_body :: submit_body where
  "pay_body = \<lparr>sb_workflow = ''payout'', sb_input = [], sb_budget = no_budget\<rparr>"

definition other_body :: submit_body where
  "other_body = \<lparr>sb_workflow = ''payout'', sb_input = [(KStr ''to'', PStr ''me'')], sb_budget = no_budget\<rparr>"

definition new_sys :: "(pg, uuid list) sys" where
  "new_sys = demo_sys\<lparr>sy_db := pg_empty\<rparr>"

definition first_submit :: "(pg, uuid list) sys \<times> reply" where
  "first_submit = run (submit_run demo_registry (\<lambda>_. []) 7 8 pay_body (Some ''order-1'')) new_sys"

lemma demo_bodies:
  "budget_in (sb_budget pay_body)" "sb_workflow pay_body \<in> set (workflow_names demo_registry)"
  "budget_in (sb_budget other_body)" "sb_workflow other_body \<in> set (workflow_names demo_registry)"
  "json_ok (PDict (sb_input other_body))"
  by (simp_all add: budget_in_def at_least_def no_budget_def pay_body_def other_body_def workflow_names_def demo_registry_def)

lemma first_submit_ok: "\<exists>s1 v. first_submit = (s1, Reply 201 v)"
proof -
  note p = pg_submit_run_new(2) [OF pg_wf_empty, of "PDict []" "''order-1''" 7 0 "''payout''" no_budget]
  obtain d x where q: "pg_submit_run 0 7 ''payout'' (PDict []) ''order-1'' no_budget pg_empty = (d, x)" by fastforce
  then have "\<exists>rr. x = Inr (rr, True)" using p by (simp add: pg_empty_def find_run_def)
  then show ?thesis
    using demo_bodies q
    by (auto simp: first_submit_def submit_run_def submission_key_def db_op_def new_sys_def budget_dict_roundtrip)
      (auto simp: pay_body_def)
qed

lemma api_submit_retry_witness:
  "\<exists>v'. run (submit_run demo_registry (\<lambda>_. []) 9 10 other_body (Some ''order-1'')) (fst first_submit) = (fst first_submit, Reply 200 v') \<and>
    py_get v' ''created'' PNone = PBool False"
proof -
  obtain s1 v where f: "run (submit_run demo_registry (\<lambda>_. []) 7 8 pay_body (Some ''order-1'')) new_sys = (s1, Reply 201 v)"
    using first_submit_ok by (auto simp: first_submit_def)
  have wf: "pg_wf (sy_db new_sys)" by (simp add: new_sys_def pg_wf_empty)
  from api_submit_retry [OF wf _ f cluster_reach.start [of demo], of other_body 9 10] demo_bodies
  show ?thesis by (auto simp: f first_submit_def)
qed

section \<open>Cancelling over HTTP\<close>



section \<open>The metrics\<close>

lemma sum_status: "sum_list (map snd (filter (\<lambda>(st, n). n \<noteq> 0) xs)) = sum_list (map snd (xs :: ('a \<times> nat) list))"
  by (induction xs) auto

text \<open>Every run is counted once, under its status.\<close>

lemma status_counts_total: "sum_list (map snd (pg_status_counts d)) = length (pg_runs d)"
proof -
  have "sum_list (map (\<lambda>st. length (filter (\<lambda>w. rw_status w = st) ws)) run_statuses) = length ws" for ws
  proof (induction ws)
    case (Cons w ws)
    then show ?case by (cases "rw_status w") (simp_all add: run_statuses_def)
  qed (simp add: run_statuses_def)
  then show ?thesis unfolding pg_status_counts_def sum_status by (simp add: comp_def)
qed

text \<open>
  The depth of the queue counts as claimable every row without a live lease, also one that a release
  has put off and that no claim is given yet.
\<close>

lemma depth_overcounts:
  assumes "find_run r d \<noteq> None" and "pg_run_queue d = [new_queue_row 0 r]" and "0 < delay"
  defines "d1 \<equiv> pg_release 0 r ''w'' delay (fst (pg_claim 0 ''w'' 30 d))"
  shows "qd_claimable (pg_queue_depth 0 d1) = 1 \<and> snd (pg_claim 0 ''w'' 30 d1) = None"
  using assms by (simp add: pg_queue_depth_def pg_claim_def pg_release_def new_queue_row_def claimable_def)

end
