(* ===== verification/Dynamo.thy ===== *)
theory Dynamo
  imports Json Py_Text Prog "HOL-Library.Log_Nat"
begin

text \<open>
  \<open>src/anchor/store/dynamo.py\<close>: the store over one DynamoDB table and one SQS queue. Both are services
  outside the repository, so they are parameters: \<open>table_api\<close> and \<open>queue_api\<close> are the calls the code
  makes, \<open>table_ok\<close> is the documented behaviour of writes and \<open>current\<close> says when reads have caught up. Every call of a
  service is one atom of a coroutine; between two of them the process may die and others may run.
\<close>

section \<open>Keys\<close>

definition run_pk :: "uuid \<Rightarrow> string" where
  "run_pk r = ''RUN#'' @ uuid_str r"

definition pad20 :: "string \<Rightarrow> string" where
  "pad20 s = replicate (20 - length s) (CHR ''0'') @ s"

definition event_sk :: "nat \<Rightarrow> string" where
  "event_sk seq = ''EVENT#'' @ pad20 (str_nat seq)"

definition idem_pk :: "string \<Rightarrow> string" where
  "idem_pk key = ''IDEM#'' @ key"

definition effect_pk :: "uuid \<Rightarrow> string" where
  "effect_pk token = ''EFFECT#'' @ uuid_str token"

definition lease_sk :: "string \<Rightarrow> string" where
  "lease_sk w = ''LEASE#'' @ w"

section \<open>Values\<close>

text \<open>
  The types of the wire. Every number is a decimal. Numbers of more than 38 digits, which the client
  refuses, are not modelled.
\<close>

datatype attr =
    ANull
  | ABool bool
  | ANum rat
  | AStr string
  | AList "attr list"
  | AMap "(string \<times> attr) list"

text \<open>
  What the client makes of a value: \<open>None\<close> is its \<open>TypeError\<close>. \<open>wire False\<close> is the client alone, which
  refuses a float; \<open>wire True\<close> is the client after \<open>_enc\<close>, which has replaced the floats by decimals, but
  does not look into tuples.
\<close>

fun seq_opt :: "'a option list \<Rightarrow> 'a list option" where
  "seq_opt [] = Some []"
| "seq_opt (x # xs) = Option.bind x (\<lambda>y. map_option (Cons y) (seq_opt xs))"

fun key_name :: "pykey \<Rightarrow> string option" where
  "key_name (KStr s) = Some s"
| "key_name _ = None"

fun wire :: "bool \<Rightarrow> pyval \<Rightarrow> attr option" where
  "wire e PNone = Some ANull"
| "wire e (PBool b) = Some (ABool b)"
| "wire e (PInt i) = Some (ANum (of_int i))"
| "wire e (PFloat r) = (if e then Some (ANum r) else None)"
| "wire e (PStr s) = Some (AStr s)"
| "wire e (PList xs) = map_option AList (seq_opt (map (wire e) xs))"
| "wire e (PTuple xs) = map_option AList (seq_opt (map (wire False) xs))"
| "wire e (PDict d) =
     map_option AMap (seq_opt (map (\<lambda>(k, v). Option.bind (key_name k) (\<lambda>n. map_option (Pair n) (wire e v))) d))"
| "wire e (PObj c) = None"

definition enc :: "pyval \<Rightarrow> attr py_result" where
  "enc v = (case wire True v of Some a \<Rightarrow> Inr a | None \<Rightarrow> Inl (type_error ''Unsupported type''))"

text \<open>
  \<open>_dec\<close>: a decimal goes through a float, and becomes an integer if the float is one, whatever it was
  before. A whole number is rounded to the 53 bits of a float on the way; a float is written as the decimal
  that prints it, and read back as that float.
\<close>

definition round53 :: "int \<Rightarrow> int" where
  "round53 i = (let k = nat (bitlen \<bar>i\<bar> - 53) in round_even (of_int i / 2 ^ k) * 2 ^ k)"

definition dec_num :: "rat \<Rightarrow> pyval" where
  "dec_num r = (if of_int \<lfloor>r\<rfloor> = r then PInt (round53 \<lfloor>r\<rfloor>) else PFloat r)"

lemma round53_small [simp]: "\<bar>i\<bar> < 2 ^ 53 \<Longrightarrow> round53 i = i"
proof -
  assume "\<bar>i\<bar> < 2 ^ 53"
  then have "bitlen \<bar>i\<bar> \<le> 53" using bitlen_le_iff_power [of "\<bar>i\<bar>" 53] by simp
  then show ?thesis by (simp add: round53_def round_even_int)
qed

fun dec :: "attr \<Rightarrow> pyval" where
  "dec ANull = PNone"
| "dec (ABool b) = PBool b"
| "dec (ANum r) = dec_num r"
| "dec (AStr s) = PStr s"
| "dec (AList xs) = PList (map dec xs)"
| "dec (AMap d) = PDict (map (\<lambda>(k, v). (KStr k, dec v)) d)"

section \<open>The services\<close>

type_synonym item = "(string \<times> attr) list"

record 't table_api =
  tb_item :: "string \<Rightarrow> string \<Rightarrow> 't \<Rightarrow> item option" \<comment> \<open>what a write finds there\<close>
  tb_get :: "string \<Rightarrow> string \<Rightarrow> 't \<Rightarrow> item option" \<comment> \<open>what a read finds there\<close>
  tb_put :: "string \<Rightarrow> string \<Rightarrow> item \<Rightarrow> 't \<Rightarrow> 't"
  tb_delete :: "string \<Rightarrow> string \<Rightarrow> 't \<Rightarrow> 't"
  tb_query :: "string \<Rightarrow> string \<Rightarrow> 't \<Rightarrow> (string \<times> item) list" \<comment> \<open>one page, by partition key and prefix\<close>
  tb_scan :: "'t \<Rightarrow> (string \<times> string \<times> item) list" \<comment> \<open>one page\<close>

record 'q queue_api =
  sq_send :: "string \<Rightarrow> 'q \<Rightarrow> 'q"
  sq_receive :: "int \<Rightarrow> 'q \<Rightarrow> 'q \<times> (string \<times> string) option" \<comment> \<open>a body and a receipt handle\<close>
  sq_change :: "string \<Rightarrow> int \<Rightarrow> 'q \<Rightarrow> 'q \<times> bool" \<comment> \<open>False: the call raised \<open>ClientError\<close>\<close>
  sq_delete :: "string \<Rightarrow> 'q \<Rightarrow> 'q \<times> bool"
  sq_counts :: "'q \<Rightarrow> nat \<times> nat" \<comment> \<open>visible and not visible messages\<close>

record ('t, 'q) dstate =
  ds_now :: rat
  ds_table :: 't
  ds_queue :: 'q

record ('t, 'q) dynamo =
  dn_table :: "'t table_api"
  dn_queue :: "'q queue_api"
  dn_queue_url :: "string option"
  dn_isof :: "rat \<Rightarrow> string"
  dn_fromiso :: "string \<Rightarrow> rat option"

type_synonym ('t, 'q, 'r) dprog = "(('t, 'q) dstate, 'r py_result) prog"

text \<open>
  The documented behaviour of a table that the code relies on: a write touches one item, and the next write
  of that item finds it there.
\<close>

definition table_ok :: "'t table_api \<Rightarrow> bool" where
  "table_ok T \<longleftrightarrow>
     (\<forall>pk sk it d pk' sk'. tb_item T pk' sk' (tb_put T pk sk it d) =
        (if pk' = pk \<and> sk' = sk then Some it else tb_item T pk' sk' d)) \<and>
     (\<forall>pk sk d pk' sk'. tb_item T pk' sk' (tb_delete T pk sk d) =
        (if pk' = pk \<and> sk' = sk then None else tb_item T pk' sk' d))"

text \<open>
  Reads are another matter. The code does not ask for consistent ones, so a read may find what was there
  before the last write. \<open>current T d\<close>: in the state \<open>d\<close> reads have caught up, and the queries fit into
  their page; they give the items in the order of the sort key.
\<close>

definition current :: "'t table_api \<Rightarrow> 't \<Rightarrow> bool" where
  "current T d \<longleftrightarrow>
     (\<forall>pk sk. tb_get T pk sk d = tb_item T pk sk d) \<and>
     (\<forall>pk p. sorted_wrt (<) (map fst (tb_query T pk p d)) \<and>
        set (tb_query T pk p d) = {(sk, it). take (length p) sk = p \<and> tb_item T pk sk d = Some it})"

section \<open>Calls\<close>

definition now_iso :: "('t, 'q) dynamo \<Rightarrow> (('t, 'q) dstate, attr) prog" where
  "now_iso D = gets (\<lambda>s. AStr (dn_isof D (ds_now s)))"

definition get_item :: "('t, 'q) dynamo \<Rightarrow> string \<Rightarrow> string \<Rightarrow> (('t, 'q) dstate, item option) prog" where
  "get_item D pk sk = gets (\<lambda>s. tb_get (dn_table D) pk sk (ds_table s))"

definition put_item :: "('t, 'q) dynamo \<Rightarrow> string \<Rightarrow> string \<Rightarrow> item \<Rightarrow> (('t, 'q) dstate, unit) prog" where
  "put_item D pk sk it = modify (\<lambda>s. s\<lparr>ds_table := tb_put (dn_table D) pk sk it (ds_table s)\<rparr>)"

definition delete_item :: "('t, 'q) dynamo \<Rightarrow> string \<Rightarrow> string \<Rightarrow> (('t, 'q) dstate, unit) prog" where
  "delete_item D pk sk = modify (\<lambda>s. s\<lparr>ds_table := tb_delete (dn_table D) pk sk (ds_table s)\<rparr>)"

text \<open>\<open>put_item\<close> under \<open>attribute_not_exists(pk)\<close>: whether it was put.\<close>

definition put_new :: "('t, 'q) dynamo \<Rightarrow> string \<Rightarrow> string \<Rightarrow> item \<Rightarrow> (('t, 'q) dstate, bool) prog" where
  "put_new D pk sk it =
     atom (\<lambda>s. if tb_item (dn_table D) pk sk (ds_table s) = None
               then (s\<lparr>ds_table := tb_put (dn_table D) pk sk it (ds_table s)\<rparr>, True) else (s, False))"

text \<open>
  \<open>update_item\<close>: the item, or an empty one, is changed by \<open>f\<close>; \<open>None\<close> is the \<open>ValidationException\<close> of an
  expression that reads an attribute that is not there.
\<close>

definition validation_error :: exn where
  "validation_error = PyError ''ClientError'' (Some ''ValidationException'')"

definition update_item ::
  "('t, 'q) dynamo \<Rightarrow> string \<Rightarrow> string \<Rightarrow> (item \<Rightarrow> (item \<times> 'r) option) \<Rightarrow> ('t, 'q, 'r) dprog" where
  "update_item D pk sk f =
     atom (\<lambda>s. case f (case tb_item (dn_table D) pk sk (ds_table s) of None \<Rightarrow> [] | Some it \<Rightarrow> it) of
                 None \<Rightarrow> (s, Inl validation_error)
               | Some (it, r) \<Rightarrow> (s\<lparr>ds_table := tb_put (dn_table D) pk sk it (ds_table s)\<rparr>, Inr r))"

definition query :: "('t, 'q) dynamo \<Rightarrow> string \<Rightarrow> string \<Rightarrow> (('t, 'q) dstate, (string \<times> item) list) prog" where
  "query D pk p = gets (\<lambda>s. tb_query (dn_table D) pk p (ds_table s))"

definition with_queue :: "('q \<Rightarrow> 'q \<times> 'r) \<Rightarrow> (('t, 'q) dstate, 'r) prog" where
  "with_queue f = atom (\<lambda>s. let (q, r) = f (ds_queue s) in (s\<lparr>ds_queue := q\<rparr>, r))"

text \<open>Attributes: \<open>SET a = :v\<close>, \<open>SET a = a + :one\<close>.\<close>

definition set_attrs :: "(string \<times> attr) list \<Rightarrow> item \<Rightarrow> item" where
  "set_attrs avs it = dict_update it avs"

definition incr_attr :: "string \<Rightarrow> item \<Rightarrow> (item \<times> nat) option" where
  "incr_attr a it =
     (case map_of it a of
        Some (ANum n) \<Rightarrow> Some (dict_set it a (ANum (n + 1)), nat \<lfloor>n + 1\<rfloor>)
      | _ \<Rightarrow> None)"

section \<open>Reading a run\<close>

definition value_of_status :: "string \<Rightarrow> run_status py_result" where
  "value_of_status s =
     (case List.find (\<lambda>st. status_value st = s) run_statuses of
        None \<Rightarrow> Inl (value_error (repr_str s @ '' is not a valid RunStatus''))
      | Some st \<Rightarrow> Inr st)"

definition attr_get :: "item \<Rightarrow> string \<Rightarrow> pyval \<Rightarrow> pyval" where
  "attr_get it k dflt = (case map_of it k of None \<Rightarrow> dflt | Some a \<Rightarrow> dec a)"

definition attr_item :: "item \<Rightarrow> string \<Rightarrow> string py_result" where
  "attr_item it k =
     (case map_of it k of
        None \<Rightarrow> Inl (key_error k) | Some (AStr s) \<Rightarrow> Inr s | Some _ \<Rightarrow> Inl (type_error ''not a string''))"

definition read_uuid :: "string \<Rightarrow> uuid py_result" where
  "read_uuid s =
     (case parse_uuid s of
        None \<Rightarrow> Inl (value_error ''badly formed hexadecimal UUID string'') | Some u \<Rightarrow> Inr u)"

definition read_time :: "('t, 'q) dynamo \<Rightarrow> string \<Rightarrow> rat py_result" where
  "read_time D s =
     (case dn_fromiso D s of None \<Rightarrow> Inl (value_error ''Invalid isoformat string'') | Some t \<Rightarrow> Inr t)"

text \<open>\<open>int(...)\<close> of a decimal, which does not go through a float.\<close>

definition attr_nat :: "attr \<Rightarrow> nat py_result" where
  "attr_nat a = (case a of ANum n \<Rightarrow> Inr (nat \<lfloor>n\<rfloor>) | _ \<Rightarrow> Inl (type_error ''not a number''))"

definition counter_of :: "item \<Rightarrow> string \<Rightarrow> nat py_result" where
  "counter_of it k = (case map_of it k of None \<Rightarrow> Inr 0 | Some a \<Rightarrow> attr_nat a)"

definition from_item :: "('t, 'q) dynamo \<Rightarrow> item \<Rightarrow> run_record py_result" where
  "from_item D it =
     res_bind (res_bind (attr_item it ''run_id'') read_uuid) (\<lambda>rid.
     res_bind (attr_item it ''workflow'') (\<lambda>wn.
     res_bind (attr_item it ''idempotency_key'') (\<lambda>key.
     res_bind (res_bind (attr_item it ''status'') value_of_status) (\<lambda>st.
     res_bind (counter_of it ''event_seq'') (\<lambda>seq.
     res_bind (counter_of it ''attempt'') (\<lambda>attempt.
     res_bind (res_bind (attr_item it ''created_at'') (read_time D)) (\<lambda>created.
     res_bind (res_bind (attr_item it ''updated_at'') (read_time D)) (\<lambda>updated.
     res_bind (case attr_get it ''finished_at'' PNone of
                 PStr s \<Rightarrow> if s = [] then Inr None else res_bind (read_time D s) (\<lambda>t. Inr (Some t))
               | _ \<Rightarrow> Inr None) (\<lambda>finished.
       Inr \<lparr>rr_run_id = rid, rr_workflow = wn, rr_input = attr_get it ''input'' (PDict []),
            rr_idempotency_key = key, rr_status = st, rr_event_seq = seq, rr_attempt = attempt,
            rr_budget = budget_from_dict (pydict_of (attr_get it ''budget'' (PDict []))),
            rr_usage = usage_from_dict (pydict_of (attr_get it ''usage'' (PDict []))),
            rr_result = attr_get it ''result'' PNone, rr_error = attr_get it ''error'' PNone,
            rr_cancel_requested = truthy (attr_get it ''cancel_requested'' (PBool False)),
            rr_created_at = created, rr_updated_at = updated, rr_finished_at = finished\<rparr>)))))))))"

definition dy_get_run :: "('t, 'q) dynamo \<Rightarrow> uuid \<Rightarrow> ('t, 'q, run_record option) dprog" where
  "dy_get_run D r =
     bind (get_item D (run_pk r) ''META'') (\<lambda>it.
     case it of
       None \<Rightarrow> Ret (Inr None)
     | Some it \<Rightarrow> Ret (res_bind (from_item D it) (\<lambda>rr. Inr (Some rr))))"

section \<open>The log\<close>

text \<open>Three calls: the counter, its mirror on the run's item, the event.\<close>

definition event_item :: "nat \<Rightarrow> event_type \<Rightarrow> string option \<Rightarrow> attr \<Rightarrow> attr \<Rightarrow> item" where
  "event_item seq ty sk payload now =
     [(''seq'', ANum (of_nat seq)), (''type'', AStr (event_type_name ty)), (''payload'', payload),
      (''created_at'', now)] @ (case sk of None \<Rightarrow> [] | Some k \<Rightarrow> [(''step_key'', AStr k)])"

definition dy_append_event ::
  "('t, 'q) dynamo \<Rightarrow> uuid \<Rightarrow> event_type \<Rightarrow> string option \<Rightarrow> pyval \<Rightarrow> ('t, 'q, nat) dprog" where
  "dy_append_event D r ty sk payload =
     ebind (update_item D (run_pk r) ''COUNTER'' (incr_attr ''seq'')) (\<lambda>seq.
     bind (now_iso D) (\<lambda>now.
     ebind (update_item D (run_pk r) ''META''
             (\<lambda>it. Some (set_attrs [(''event_seq'', ANum (of_nat seq)), (''updated_at'', now)] it, ()))) (\<lambda>_.
     bind (now_iso D) (\<lambda>now.
     ebind (Ret (enc payload)) (\<lambda>p.
     bind (put_item D (run_pk r) (event_sk seq) (event_item seq ty sk p now)) (\<lambda>_.
     Ret (Inr seq)))))))"

definition all_event_types :: "event_type list" where
  "all_event_types =
     [RUN_STARTED, RUN_RESUMED, STEP_STARTED, STEP_COMPLETED, STEP_RETRIED, STEP_FAILED, MODEL_CALLED,
      TOOL_INVOKED, BUDGET_EXCEEDED, CANCEL_REQUESTED, RUN_COMPLETED, RUN_FAILED, RUN_CANCELLED,
      RUN_NEEDS_REVIEW]"

text \<open>An event's type is read back as the member of the vocabulary with its text.\<close>

definition read_event_type :: "string \<Rightarrow> event_type py_result" where
  "read_event_type s =
     (case List.find (\<lambda>ty. event_type_name ty = s) all_event_types of
        None \<Rightarrow> Inl (value_error ''not in the event vocabulary'') | Some ty \<Rightarrow> Inr ty)"

definition read_event :: "('t, 'q) dynamo \<Rightarrow> item \<Rightarrow> event py_result" where
  "read_event D it =
     res_bind (case map_of it ''seq'' of None \<Rightarrow> Inl (key_error ''seq'') | Some a \<Rightarrow> attr_nat a) (\<lambda>seq.
     res_bind (res_bind (attr_item it ''type'') read_event_type) (\<lambda>ty.
     res_bind (res_bind (attr_item it ''created_at'') (read_time D)) (\<lambda>created.
       Inr \<lparr>ev_seq = seq, ev_type = ty,
            ev_step_key = (case attr_get it ''step_key'' PNone of PStr k \<Rightarrow> Some k | _ \<Rightarrow> None),
            ev_payload = attr_get it ''payload'' (PDict []), ev_created_at = created\<rparr>)))"

text \<open>One query, one page: what does not fit into it is not read.\<close>

definition dy_load_events :: "('t, 'q) dynamo \<Rightarrow> uuid \<Rightarrow> ('t, 'q, event list) dprog" where
  "dy_load_events D r =
     bind (query D (run_pk r) ''EVENT#'') (\<lambda>items. Ret (res_map (read_event D \<circ> snd) items))"

section \<open>Submission\<close>

definition run_item ::
  "uuid \<Rightarrow> string \<Rightarrow> attr \<Rightarrow> string \<Rightarrow> attr \<Rightarrow> attr \<Rightarrow> item" where
  "run_item r wn payload key b now =
     [(''run_id'', AStr (uuid_str r)), (''workflow'', AStr wn), (''input'', payload),
      (''idempotency_key'', AStr key), (''status'', AStr (status_value PENDING)),
      (''event_seq'', ANum 0), (''attempt'', ANum 0), (''budget'', b), (''usage'', AMap []),
      (''cancel_requested'', ABool False), (''created_at'', now), (''updated_at'', now)]"

definition queue_body :: "uuid \<Rightarrow> string" where
  "queue_body r = json_text (\<lambda>_. []) (PDict [(KStr ''run_id'', PStr (uuid_str r))])"

definition dy_submit_run ::
  "('t, 'q) dynamo \<Rightarrow> uuid \<Rightarrow> string \<Rightarrow> pyval \<Rightarrow> string \<Rightarrow> budget \<Rightarrow> ('t, 'q, run_record option \<times> bool) dprog" where
  "dy_submit_run D r wn payload key b =
     bind (now_iso D) (\<lambda>now.
     bind (put_new D (idem_pk key) ''KEY'' [(''run_id'', AStr (uuid_str r))]) (\<lambda>reserved.
     if \<not> reserved then
       bind (get_item D (idem_pk key) ''KEY'') (\<lambda>it.
       case it of
         None \<Rightarrow> Ret (Inl (key_error ''Item''))
       | Some it \<Rightarrow>
           ebind (Ret (res_bind (attr_item it ''run_id'') read_uuid)) (\<lambda>r0.
           ebind (dy_get_run D r0) (\<lambda>existing. Ret (Inr (existing, False)))))
     else
       ebind (Ret (enc payload)) (\<lambda>p.
       ebind (Ret (enc (PDict (budget_to_dict b)))) (\<lambda>eb.
       bind (put_item D (run_pk r) ''META'' (run_item r wn p key eb now)) (\<lambda>_.
       bind (put_item D (run_pk r) ''COUNTER'' [(''seq'', ANum 0)]) (\<lambda>_.
       bind (if dn_queue_url D = None then Ret ()
             else with_queue (\<lambda>q. (sq_send (dn_queue D) (queue_body r) q, ()))) (\<lambda>_.
       ebind (dy_append_event D r RUN_STARTED None
               (PDict [(KStr ''workflow'', PStr wn), (KStr ''input'', payload),
                       (KStr ''budget'', PDict (budget_to_dict b))])) (\<lambda>_.
       Ret (res_bind (from_item D (run_item r wn p key eb now)) (\<lambda>rr. Inr (Some rr, True)))))))))))"

section \<open>Status, usage, cancellation\<close>

text \<open>No condition on the current status.\<close>

definition dy_set_status ::
  "('t, 'q) dynamo \<Rightarrow> uuid \<Rightarrow> run_status \<Rightarrow> pyval \<Rightarrow> pyval \<Rightarrow> ('t, 'q, unit) dprog" where
  "dy_set_status D r st result error =
     bind (now_iso D) (\<lambda>now.
     ebind (Ret (if result = PNone then Inr [] else res_bind (enc result) (\<lambda>a. Inr [(''result'', a)]))) (\<lambda>res.
     ebind (Ret (if error = PNone then Inr [] else res_bind (enc error) (\<lambda>a. Inr [(''error'', a)]))) (\<lambda>err.
     update_item D (run_pk r) ''META''
       (\<lambda>it. Some (set_attrs ([(''status'', AStr (status_value st)), (''updated_at'', now)] @ res @ err
                 @ (if terminal st then [(''finished_at'', now)] else [])) it, ())))))"

definition dy_bump_attempt :: "('t, 'q) dynamo \<Rightarrow> uuid \<Rightarrow> ('t, 'q, nat) dprog" where
  "dy_bump_attempt D r =
     bind (now_iso D) (\<lambda>now.
     update_item D (run_pk r) ''META''
       (\<lambda>it. map_option (apfst (set_attrs [(''updated_at'', now)])) (incr_attr ''attempt'' it)))"

definition dy_save_usage :: "('t, 'q) dynamo \<Rightarrow> uuid \<Rightarrow> usage \<Rightarrow> ('t, 'q, unit) dprog" where
  "dy_save_usage D r u =
     bind (now_iso D) (\<lambda>now.
     ebind (Ret (enc (PDict (usage_to_dict u)))) (\<lambda>a.
     update_item D (run_pk r) ''META'' (\<lambda>it. Some (set_attrs [(''usage'', a), (''updated_at'', now)] it, ()))))"

text \<open>One conditional update: only for a run that exists and is pending or running.\<close>

definition dy_request_cancel :: "('t, 'q) dynamo \<Rightarrow> uuid \<Rightarrow> ('t, 'q, bool) dprog" where
  "dy_request_cancel D r =
     bind (now_iso D) (\<lambda>now.
     bind (atom (\<lambda>s.
       case tb_item (dn_table D) (run_pk r) ''META'' (ds_table s) of
         None \<Rightarrow> (s, False)
       | Some it \<Rightarrow>
           if map_of it ''status'' \<in> {Some (AStr (status_value PENDING)), Some (AStr (status_value RUNNING))}
           then (s\<lparr>ds_table := tb_put (dn_table D) (run_pk r) ''META''
                    (set_attrs [(''cancel_requested'', ABool True), (''updated_at'', now)] it) (ds_table s)\<rparr>, True)
           else (s, False))) (\<lambda>accepted.
     if \<not> accepted then Ret (Inr False)
     else ebind (dy_append_event D r CANCEL_REQUESTED None (PDict [])) (\<lambda>_. Ret (Inr True))))"

definition dy_is_cancel_requested :: "('t, 'q) dynamo \<Rightarrow> uuid \<Rightarrow> (('t, 'q) dstate, bool) prog" where
  "dy_is_cancel_requested D r =
     bind (get_item D (run_pk r) ''META'') (\<lambda>it.
     Ret (case it of None \<Rightarrow> False | Some it \<Rightarrow> truthy (attr_get it ''cancel_requested'' (PBool False))))"

text \<open>One page of the whole table, cut to the limit before the filter is applied.\<close>

definition dy_list_runs :: "('t, 'q) dynamo \<Rightarrow> nat \<Rightarrow> string option \<Rightarrow> ('t, 'q, run_record list) dprog" where
  "dy_list_runs D limit st =
     bind (gets (\<lambda>s. take (min limit 200) (tb_scan (dn_table D) (ds_table s)))) (\<lambda>rows.
     ebind (Ret (res_map (\<lambda>(pk, sk, it). from_item D it)
              (filter (\<lambda>(pk, sk, it). sk = ''META'' \<and>
                 (case st of None \<Rightarrow> True | Some x \<Rightarrow> x = [] \<or> map_of it ''status'' = Some (AStr x))) rows))) (\<lambda>runs.
     Ret (Inr (take limit (sort_key (\<lambda>rr. - rr_created_at rr) runs)))))"

section \<open>The queue\<close>

text \<open>\<open>max(1, int(seconds))\<close>: \<open>int\<close> cuts towards zero.\<close>

definition cut :: "rat \<Rightarrow> int" where
  "cut r = (if 0 \<le> r then \<lfloor>r\<rfloor> else \<lceil>r\<rceil>)"

text \<open>Deleting the items of earlier owners, one call each.\<close>

primrec delete_items :: "('t, 'q) dynamo \<Rightarrow> string \<Rightarrow> string list \<Rightarrow> (('t, 'q) dstate, unit) prog" where
  "delete_items D pk [] = Ret ()"
| "delete_items D pk (sk # sks) = bind (delete_item D pk sk) (\<lambda>_. delete_items D pk sks)"

definition read_body :: "string \<Rightarrow> uuid py_result" where
  "read_body body =
     res_bind (json_loads (\<lambda>_. 0) body) (\<lambda>v.
     res_bind (item_str v ''run_id'') read_uuid)"

definition count_delivery :: "item \<Rightarrow> (item \<times> nat) option" where
  "count_delivery it =
     incr_attr ''attempt_count'' (if map_of it ''attempt_count'' = None then dict_set it ''attempt_count'' (ANum 0) else it)"

definition dy_claim :: "('t, 'q) dynamo \<Rightarrow> string \<Rightarrow> rat \<Rightarrow> ('t, 'q, claim option) dprog" where
  "dy_claim D worker_id lease_seconds =
     bind (with_queue (sq_receive (dn_queue D) (max 1 (cut lease_seconds)))) (\<lambda>msg.
     case msg of
       None \<Rightarrow> Ret (Inr None)
     | Some (body, receipt) \<Rightarrow>
         ebind (Ret (read_body body)) (\<lambda>r.
         bind (query D (run_pk r) ''LEASE#'') (\<lambda>stale.
         bind (delete_items D (run_pk r) (map fst stale)) (\<lambda>_.
         bind (now_iso D) (\<lambda>now.
         bind (put_item D (run_pk r) (lease_sk worker_id)
                 [(''receipt_handle'', AStr receipt), (''worker_id'', AStr worker_id), (''claimed_at'', now)]) (\<lambda>_.
         ebind (update_item D (run_pk r) ''META'' count_delivery) (\<lambda>attempts.
         Ret (Inr (Some \<lparr>cl_run_id = r, cl_attempts = attempts\<rparr>)))))))))"

definition receipt_of :: "item \<Rightarrow> string" where
  "receipt_of it = (case map_of it ''receipt_handle'' of Some (AStr h) \<Rightarrow> h | _ \<Rightarrow> [])"

definition dy_heartbeat :: "('t, 'q) dynamo \<Rightarrow> uuid \<Rightarrow> string \<Rightarrow> rat \<Rightarrow> (('t, 'q) dstate, bool) prog" where
  "dy_heartbeat D r worker_id lease_seconds =
     bind (get_item D (run_pk r) (lease_sk worker_id)) (\<lambda>it.
     case it of
       None \<Rightarrow> Ret False
     | Some it \<Rightarrow> with_queue (sq_change (dn_queue D) (receipt_of it) (max 1 (cut lease_seconds))))"

definition dy_release :: "('t, 'q) dynamo \<Rightarrow> uuid \<Rightarrow> string \<Rightarrow> rat \<Rightarrow> (('t, 'q) dstate, unit) prog" where
  "dy_release D r worker_id delay_seconds =
     bind (get_item D (run_pk r) (lease_sk worker_id)) (\<lambda>it.
     case it of
       None \<Rightarrow> Ret ()
     | Some it \<Rightarrow>
         bind (with_queue (sq_change (dn_queue D) (receipt_of it) (max 0 (cut delay_seconds)))) (\<lambda>_. Ret ()))"

definition dy_dequeue :: "('t, 'q) dynamo \<Rightarrow> uuid \<Rightarrow> (('t, 'q) dstate, unit) prog" where
  "dy_dequeue D r =
     bind (query D (run_pk r) ''LEASE#'') (\<lambda>items.
     case items of
       [] \<Rightarrow> Ret ()
     | (sk, it) # _ \<Rightarrow>
         bind (with_queue (sq_delete (dn_queue D) (receipt_of it))) (\<lambda>_.
         delete_item D (run_pk r) sk))"

definition dy_queue_depth :: "('t, 'q) dynamo \<Rightarrow> (('t, 'q) dstate, nat \<times> nat \<times> nat) prog" where
  "dy_queue_depth D =
     gets (\<lambda>s. let (visible, hidden) = sq_counts (dn_queue D) (ds_queue s) in (visible, hidden, visible + hidden))"

text \<open>One page of the table, counted by status.\<close>

fun count_in :: "string \<Rightarrow> (string \<times> nat) list \<Rightarrow> (string \<times> nat) list" where
  "count_in x [] = [(x, 1)]"
| "count_in x ((y, n) # cs) = (if y = x then (y, n + 1) # cs else (y, n) # count_in x cs)"

definition dy_status_counts :: "('t, 'q) dynamo \<Rightarrow> (('t, 'q) dstate, (string \<times> nat) list) prog" where
  "dy_status_counts D =
     gets (\<lambda>s. foldl (\<lambda>cs (pk, sk, it). count_in (case map_of it ''status'' of Some (AStr st) \<Rightarrow> st | _ \<Rightarrow> ''UNKNOWN'') cs)
                 [] (filter (\<lambda>(pk, sk, it). sk = ''META'') (tb_scan (dn_table D) (ds_table s))))"

section \<open>Side effects\<close>

definition dy_record_side_effect ::
  "('t, 'q) dynamo \<Rightarrow> uuid \<Rightarrow> uuid \<Rightarrow> string \<Rightarrow> pyval \<Rightarrow> ('t, 'q, bool) dprog" where
  "dy_record_side_effect D token r kind payload =
     bind (now_iso D) (\<lambda>now.
     ebind (Ret (enc payload)) (\<lambda>p.
     ok (put_new D (effect_pk token) ''DATA''
       [(''token'', AStr (uuid_str token)), (''run_id'', AStr (uuid_str r)), (''kind'', AStr kind),
        (''payload'', p), (''created_at'', now)])))"

definition dy_find_side_effect :: "('t, 'q) dynamo \<Rightarrow> uuid \<Rightarrow> ('t, 'q, pyval) dprog" where
  "dy_find_side_effect D token =
     bind (get_item D (effect_pk token) ''DATA'') (\<lambda>it.
     case it of
       None \<Rightarrow> Ret (Inr PNone)
     | Some it \<Rightarrow>
         Ret (res_bind (attr_item it ''token'') (\<lambda>tok.
              res_bind (attr_item it ''run_id'') (\<lambda>rid.
              res_bind (attr_item it ''kind'') (\<lambda>kind.
              res_bind (attr_item it ''created_at'') (\<lambda>created.
              Inr (PDict [(KStr ''token'', PStr tok), (KStr ''run_id'', PStr rid), (KStr ''kind'', PStr kind),
                          (KStr ''payload'', attr_get it ''payload'' (PDict [])),
                          (KStr ''created_at'', PStr created)])))))))"

definition dy_count_side_effects :: "('t, 'q) dynamo \<Rightarrow> uuid \<Rightarrow> string \<Rightarrow> (('t, 'q) dstate, nat) prog" where
  "dy_count_side_effects D r kind =
     gets (\<lambda>s. length (filter (\<lambda>(pk, sk, it). map_of it ''run_id'' = Some (AStr (uuid_str r)) \<and>
                  map_of it ''kind'' = Some (AStr kind) \<and> sk = ''DATA'') (tb_scan (dn_table D) (ds_table s))))"

end
