(* ===== verification/Dynamo_Facts.thy ===== *)
theory Dynamo_Facts
  imports Dynamo Context
begin

text \<open>
  What the DynamoDB store promises on a table that behaves as documented, and what it does not.
\<close>

section \<open>The order of the log\<close>

lemma nat_str_Cons: "nat_str (c # s) = undigit c * 10 ^ length s + nat_str s"
proof -
  have "foldl (\<lambda>a c. 10 * a + undigit c) b t = b * 10 ^ length t + foldl (\<lambda>a c. 10 * a + undigit c) 0 t" for b t
  proof (induction t arbitrary: b)
    case (Cons x t)
    show ?case using Cons [of "10 * b + undigit x"] Cons [of "undigit x"] by (simp add: algebra_simps)
  qed simp
  from this [of "undigit c" s] show ?thesis by (simp add: nat_str_def)
qed

lemma undigit_le: "is_digit c \<Longrightarrow> undigit c \<le> 9"
  unfolding is_digit_def undigit_def by linarith

lemma place_less:
  fixes u v x y b :: nat
  assumes "u < v" and "x < b"
  shows "u * b + x < v * b + y"
proof -
  have "u * b + x < Suc u * b" using assms by simp
  also have "\<dots> \<le> v * b" using assms by (intro mult_right_mono) simp_all
  finally show ?thesis by simp
qed

lemma nat_str_less: "\<forall>c \<in> set s. is_digit c \<Longrightarrow> nat_str s < 10 ^ length s"
proof (induction s)
  case (Cons c s)
  then have "undigit c < 10" "nat_str s < 10 ^ length s" using undigit_le [of c] by auto
  then have "undigit c * 10 ^ length s + nat_str s < 10 * 10 ^ length s + 0" by (rule place_less)
  then show ?case by (simp add: nat_str_Cons)
qed (simp add: nat_str_def)

lemma digit_less: "is_digit c \<Longrightarrow> is_digit d \<Longrightarrow> c < d \<longleftrightarrow> undigit c < undigit d"
  unfolding is_digit_def undigit_def less_char_def by linarith

lemma digit_eq: "is_digit c \<Longrightarrow> is_digit d \<Longrightarrow> undigit c = undigit d \<Longrightarrow> c = d"
proof -
  assume "is_digit c" "is_digit d" "undigit c = undigit d"
  then have "(of_char c :: nat) = of_char d" unfolding is_digit_def undigit_def by linarith
  then show "c = d" by (simp only: of_char_eq_iff)
qed

lemma digits_less:
  assumes "length s = length t" and "\<forall>c \<in> set s. is_digit c" and "\<forall>c \<in> set t. is_digit c"
  shows "s < t \<longleftrightarrow> nat_str s < nat_str t"
  using assms
proof (induction s t rule: list_induct2)
  case (Cons c s d t)
  have b: "nat_str s < 10 ^ length t" "nat_str t < 10 ^ length t"
    using Cons.hyps Cons.prems nat_str_less [of s] nat_str_less [of t] by auto
  have dd: "is_digit c" "is_digit d" using Cons.prems by simp_all
  consider "undigit c < undigit d" | "undigit c = undigit d" | "undigit d < undigit c" by linarith
  then show ?case
  proof cases
    case 1
    then have "c < d" by (simp add: digit_less dd)
    with place_less [OF 1 b(1), of "nat_str t"] show ?thesis by (simp add: nat_str_Cons Cons.hyps)
  next
    case 2
    then have "c = d" by (rule digit_eq [OF dd])
    with Cons show ?thesis by (simp add: nat_str_Cons)
  next
    case 3
    then have "d < c" by (simp add: digit_less dd)
    then have "\<not> c < d" "c \<noteq> d" by auto
    with place_less [OF 3 b(2), of "nat_str s"] show ?thesis by (simp add: nat_str_Cons Cons.hyps)
  qed
qed simp

lemma length_str_nat: "n < 10 ^ Suc k \<Longrightarrow> length (str_nat n) \<le> Suc k"
proof (induction k arbitrary: n)
  case 0
  then show ?case by (simp add: str_nat.simps)
next
  case (Suc k)
  show ?case
  proof (cases "n < 10")
    case False
    have "n div 10 < 10 ^ Suc k" using Suc.prems by (simp add: less_mult_imp_div_less)
    then show ?thesis using Suc.IH [of "n div 10"] False by (simp add: str_nat.simps [of n])
  qed (simp add: str_nat.simps [of n])
qed

lemma nat_str_pad: "nat_str (pad20 s) = nat_str s"
proof -
  have "nat_str (replicate k (CHR ''0'') @ s) = nat_str s" for k
    by (induction k) (simp_all add: nat_str_Cons undigit_def)
  then show ?thesis by (simp add: pad20_def)
qed

lemma event_sk_inj [simp]: "event_sk m = event_sk n \<longleftrightarrow> m = n"
  by (metis event_sk_def nat_str_pad nat_str_str_nat same_append_eq)

text \<open>
  The sort keys of the events are in the order of their numbers, up to the largest number that the padding
  has room for.
\<close>

lemma event_sk_order:
  assumes "m < 10 ^ 20" and "n < 10 ^ 20"
  shows "event_sk m < event_sk n \<longleftrightarrow> m < n"
proof -
  have len: "length (pad20 (str_nat k)) = 20" if "k < 10 ^ 20" for k
    using length_str_nat [of k 19] that by (simp add: pad20_def)
  have dig: "\<forall>c \<in> set (pad20 (str_nat k)). is_digit c" for k
    using str_nat_digits [of _ k] by (auto simp: pad20_def is_digit_def set_replicate_conv_if split: if_splits)
  have "event_sk m < event_sk n \<longleftrightarrow> pad20 (str_nat m) < pad20 (str_nat n)" by (simp add: event_sk_def)
  also have "\<dots> \<longleftrightarrow> m < n" using digits_less [OF _ dig dig] len assms by (simp add: nat_str_pad)
  finally show ?thesis .
qed

section \<open>Values\<close>

fun keeps_numbers :: "pyval \<Rightarrow> bool" where
  "keeps_numbers (PInt i) = (\<bar>i\<bar> < 2 ^ 53)"
| "keeps_numbers (PFloat r) = (of_int \<lfloor>r\<rfloor> \<noteq> r)"
| "keeps_numbers (PList xs) = list_all keeps_numbers xs"
| "keeps_numbers (PDict d) = list_all (\<lambda>(k, v). keeps_numbers v) d"
| "keeps_numbers _ = True"

lemma seq_opt_Some: "(\<And>x. x \<in> set xs \<Longrightarrow> f x = Some (g x)) \<Longrightarrow> seq_opt (map f xs) = Some (map g xs)"
  by (induction xs) auto

lemma wire_native:
  "json_native v \<Longrightarrow> keeps_numbers v \<Longrightarrow> \<exists>a. wire True v = Some a \<and> dec a = v"
proof (induction v rule: json_norm.induct)
  case (1 xs)
  then have "\<forall>x \<in> set xs. \<exists>a. wire True x = Some a \<and> dec a = x" by (auto simp: list_all_iff)
  then obtain g where "\<forall>x \<in> set xs. wire True x = Some (g x) \<and> dec (g x) = x" by metis
  then have "seq_opt (map (wire True) xs) = Some (map g xs)" "map (dec \<circ> g) xs = xs"
    by (auto intro: seq_opt_Some simp: map_idI)
  then show ?case by simp
next
  case (3 d)
  have "\<forall>p \<in> set d. \<exists>s a. fst p = KStr s \<and> wire True (snd p) = Some a \<and> dec a = snd p"
  proof
    fix p assume p: "p \<in> set d"
    then obtain s where "fst p = KStr s" using "3.prems" by (cases "fst p") (auto simp: list_all_iff split_def)
    moreover have "\<exists>a. wire True (snd p) = Some a \<and> dec a = snd p"
      using "3.IH" [of p "fst p" "snd p"] "3.prems" p by (auto simp: list_all_iff split_def)
    ultimately show "\<exists>s a. fst p = KStr s \<and> wire True (snd p) = Some a \<and> dec a = snd p" by blast
  qed
  then have "\<exists>g. \<forall>p \<in> set d. fst p = KStr (fst (g p)) \<and> wire True (snd p) = Some (snd (g p)) \<and> dec (snd (g p)) = snd p"
    by (intro bchoice) fastforce
  then obtain g where
    g: "\<forall>p \<in> set d. fst p = KStr (fst (g p)) \<and> wire True (snd p) = Some (snd (g p)) \<and> dec (snd (g p)) = snd p" ..
  have "seq_opt (map (\<lambda>(k, v). Option.bind (key_name k) (\<lambda>n. map_option (Pair n) (wire True v))) d) = Some (map g d)"
    by (rule seq_opt_Some) (use g in \<open>auto simp: split_def\<close>)
  moreover have "map ((\<lambda>(k, v). (KStr k, dec v)) \<circ> g) d = d"
    by (rule map_idI) (use g in \<open>auto simp: split_def prod_eq_iff\<close>)
  ultimately show ?case by simp
qed (simp_all add: dec_num_def)



section \<open>The log as a list of events\<close>

lemma event_sk_prefix [simp]: "take 6 (event_sk n) = ''EVENT#''"
  by (simp add: event_sk_def)

lemma event_sk_fixed [simp]: "event_sk n \<noteq> ''META''" "event_sk n \<noteq> ''COUNTER''"
  "''META'' \<noteq> event_sk n" "''COUNTER'' \<noteq> event_sk n"
  by (simp_all add: event_sk_def)

lemma item_put:
  "table_ok T \<Longrightarrow> tb_item T pk' sk' (tb_put T pk sk it d) = (if pk' = pk \<and> sk' = sk then Some it else tb_item T pk' sk' d)"
  by (simp add: table_ok_def)

lemma item_delete:
  "table_ok T \<Longrightarrow> tb_item T pk' sk' (tb_delete T pk sk d) = (if pk' = pk \<and> sk' = sk then None else tb_item T pk' sk' d)"
  by (simp add: table_ok_def)

lemmas dynamo_calls = now_iso_def get_item_def put_item_def delete_item_def put_new_def update_item_def query_def
  with_queue_def

text \<open>
  \<open>dy_log D r evs s\<close>: the items of the run \<open>r\<close> hold the log \<open>evs\<close>: the counter is its length, the numbers
  up to the counter have their items, and there are no others.
\<close>

definition event_at :: "('t, 'q) dynamo \<Rightarrow> uuid \<Rightarrow> nat \<Rightarrow> ('t, 'q) dstate \<Rightarrow> item option" where
  "event_at D r n s = tb_item (dn_table D) (run_pk r) (event_sk n) (ds_table s)"

definition dy_log :: "('t, 'q) dynamo \<Rightarrow> uuid \<Rightarrow> event list \<Rightarrow> ('t, 'q) dstate \<Rightarrow> bool" where
  "dy_log D r evs s \<longleftrightarrow>
     tb_item (dn_table D) (run_pk r) ''COUNTER'' (ds_table s) = Some [(''seq'', ANum (of_nat (length evs)))] \<and>
     (\<forall>i < length evs. \<exists>it. event_at D r (Suc i) s = Some it \<and> read_event D it = Inr (evs ! i)) \<and>
     (\<forall>sk it. take 6 sk = ''EVENT#'' \<longrightarrow> tb_item (dn_table D) (run_pk r) sk (ds_table s) = Some it \<longrightarrow>
        (\<exists>i < length evs. sk = event_sk (Suc i)))"

lemma dy_log_free:
  assumes "dy_log D r evs s" and "k > length evs"
  shows "event_at D r k s = None"
proof (rule ccontr)
  assume "event_at D r k s \<noteq> None"
  then obtain it where "tb_item (dn_table D) (run_pk r) (event_sk k) (ds_table s) = Some it" by (auto simp: event_at_def)
  moreover have "take 6 (event_sk k) = ''EVENT#''" by simp
  ultimately have "\<exists>i < length evs. event_sk k = event_sk (Suc i)" using assms(1) unfolding dy_log_def by blast
  with assms(2) show False by auto
qed

lemma read_event_type_name [simp]: "read_event_type (event_type_name ty) = Inr ty"
  by (cases ty) (simp_all add: read_event_type_def all_event_types_def)

lemma read_event_item:
  assumes "dn_fromiso D (dn_isof D t) = Some t"
  shows "read_event D (event_item n ty sk p (AStr (dn_isof D t))) =
    Inr \<lparr>ev_seq = n, ev_type = ty, ev_step_key = sk, ev_payload = dec p, ev_created_at = t\<rparr>"
  using assms
  by (simp add: read_event_def event_item_def attr_nat_def counter_of_def attr_item_def read_time_def attr_get_def res_bind_def
        split: option.splits)

text \<open>The state after an append that runs to its end, with the counter at \<open>n\<close>.\<close>

lemma nat_floor_Suc: "nat \<lfloor>of_nat n + (1 :: rat)\<rfloor> = Suc n"
  by (metis floor_of_nat nat_int of_nat_Suc add.commute)

lemma run_append_event:
  fixes D :: "('t, 'q) dynamo" and ty :: event_type and sk :: "string option"
  assumes "table_ok (dn_table D)" and "enc payload = Inr p"
    and "tb_item (dn_table D) (run_pk r) ''COUNTER'' (ds_table s) = Some [(''seq'', ANum (of_nat n))]"
  defines "s' \<equiv> fst (run (dy_append_event D r ty sk payload) s)"
  shows "snd (run (dy_append_event D r ty sk payload) s) = Inr (Suc n)"
    and "ds_now s' = ds_now s" and "ds_queue s' = ds_queue s"
    and "tb_item (dn_table D) pk k (ds_table s') =
           (if pk = run_pk r \<and> k = event_sk (Suc n) then Some (event_item (Suc n) ty sk p (AStr (dn_isof D (ds_now s))))
            else if pk = run_pk r \<and> k = ''COUNTER'' then Some [(''seq'', ANum (of_nat (Suc n)))]
            else if pk = run_pk r \<and> k = ''META'' then
              Some (set_attrs [(''event_seq'', ANum (of_nat (Suc n))), (''updated_at'', AStr (dn_isof D (ds_now s)))]
                (case tb_item (dn_table D) pk k (ds_table s) of None \<Rightarrow> [] | Some it \<Rightarrow> it))
            else tb_item (dn_table D) pk k (ds_table s))"
  by (auto simp: s'_def dy_append_event_def dynamo_calls incr_attr_def assms(1-3) item_put add.commute nat_floor_Suc)

lemma dy_log_append:
  assumes "table_ok (dn_table D)" and "dy_log D r evs s" and "enc payload = Inr p"
    and "dn_fromiso D (dn_isof D (ds_now s)) = Some (ds_now s)"
  shows "snd (run (dy_append_event D r ty sk payload) s) = Inr (Suc (length evs))"
    and "dy_log D r (evs @ [\<lparr>ev_seq = Suc (length evs), ev_type = ty, ev_step_key = sk, ev_payload = dec p,
           ev_created_at = ds_now s\<rparr>]) (fst (run (dy_append_event D r ty sk payload) s))"
proof -
  have c: "tb_item (dn_table D) (run_pk r) ''COUNTER'' (ds_table s) = Some [(''seq'', ANum (of_nat (length evs)))]"
    using assms(2) by (simp add: dy_log_def)
  define s' where "s' = fst (run (dy_append_event D r ty sk payload) s)"
  note run = run_append_event [OF assms(1,3) c, where ty = ty and sk = sk, folded s'_def]
  note it = run(4)
  show "snd (run (dy_append_event D r ty sk payload) s) = Inr (Suc (length evs))" by (rule run)
  let ?e = "\<lparr>ev_seq = Suc (length evs), ev_type = ty, ev_step_key = sk, ev_payload = dec p, ev_created_at = ds_now s\<rparr>"
  have "\<exists>x. event_at D r (Suc i) s' = Some x \<and> read_event D x = Inr ((evs @ [?e]) ! i)" if "i < Suc (length evs)" for i
  proof (cases "i = length evs")
    case True
    then show ?thesis by (simp add: event_at_def it read_event_item assms(4))
  next
    case False
    with that have "i < length evs" by simp
    with False assms(2) show ?thesis by (simp add: dy_log_def event_at_def it nth_append)
  qed
  moreover have "\<exists>i < Suc (length evs). k = event_sk (Suc i)"
    if "take 6 k = ''EVENT#''" "tb_item (dn_table D) (run_pk r) k (ds_table s') = Some x" for k x
  proof (cases "k = event_sk (Suc (length evs))")
    case False
    have "k \<noteq> ''META''" "k \<noteq> ''COUNTER''" using that(1) by auto
    with that(2) False have "tb_item (dn_table D) (run_pk r) k (ds_table s) = Some x" by (simp add: it)
    with assms(2) that(1) have "\<exists>i < length evs. k = event_sk (Suc i)" by (auto simp: dy_log_def)
    then show ?thesis using less_SucI by blast
  qed blast
  moreover have "tb_item (dn_table D) (run_pk r) ''COUNTER'' (ds_table s') = Some [(''seq'', ANum (of_nat (length (evs @ [?e]))))]"
    by (simp add: it)
  ultimately show "dy_log D r (evs @ [?e]) (fst (run (dy_append_event D r ty sk payload) s))"
    unfolding dy_log_def s'_def [symmetric] by simp
qed

text \<open>Loading gives back the log the items hold, when reads have caught up.\<close>

lemma res_map_nth:
  assumes "length xs = length ys" and "\<And>i. i < length ys \<Longrightarrow> f (xs ! i) = Inr (ys ! i)"
  shows "res_map f xs = Inr ys"
  using assms
proof (induction xs ys rule: list_induct2)
  case (Cons x xs y ys)
  have "f x = Inr y" using Cons.prems [of 0] by simp
  moreover have "res_map f xs = Inr ys" using Cons.prems [of "Suc _"] by (intro Cons.IH) auto
  ultimately show ?case by (simp add: res_bind_def)
qed simp

lemma strict_keys_unique:
  fixes xs ys :: "('k :: linorder \<times> 'v) list"
  assumes "sorted_wrt (<) (map fst xs)" and "sorted_wrt (<) (map fst ys)" and "set xs = set ys"
  shows "xs = ys"
proof (rule map_sorted_distinct_set_unique [of fst])
  have "distinct (map fst xs)" using assms(1) by (simp add: strict_sorted_iff)
  then show "inj_on fst (set xs \<union> set ys)" by (simp add: distinct_map assms(3) [symmetric])
qed (use assms in \<open>simp_all add: strict_sorted_iff\<close>)

lemma dy_log_load:
  assumes "dy_log D r evs s" and "current (dn_table D) (ds_table s)" and "length evs < 10 ^ 20"
  shows "run (dy_load_events D r) s = (s, Inr evs)"
proof -
  let ?n = "length evs"
  define ys where "ys = map (\<lambda>i. (event_sk (Suc i), the (event_at D r (Suc i) s))) [0..<?n]"
  have ev: "event_at D r (Suc i) s = Some (the (event_at D r (Suc i) s))"
    "read_event D (the (event_at D r (Suc i) s)) = Inr (evs ! i)" if "i < ?n" for i
    using assms(1) that by (auto simp: dy_log_def)
  have "event_sk (Suc i) < event_sk (Suc j)" if "i < j" "j < ?n" for i j
    using event_sk_order [of "Suc i" "Suc j"] that assms(3) by simp
  then have srt: "sorted_wrt (<) (map fst ys)" by (simp add: ys_def sorted_wrt_iff_nth_less)
  have cur: "sorted_wrt (<) (map fst (tb_query (dn_table D) (run_pk r) ''EVENT#'' (ds_table s)))"
    "set (tb_query (dn_table D) (run_pk r) ''EVENT#'' (ds_table s)) =
       {(sk, it). take 6 sk = ''EVENT#'' \<and> tb_item (dn_table D) (run_pk r) sk (ds_table s) = Some it}"
    using assms(2) by (simp_all add: current_def eval_nat_numeral)
  have "(sk, it) \<in> set ys \<longleftrightarrow> take 6 sk = ''EVENT#'' \<and> tb_item (dn_table D) (run_pk r) sk (ds_table s) = Some it" for sk it
  proof
    assume "(sk, it) \<in> set ys"
    then obtain i where "i < ?n" "sk = event_sk (Suc i)" "it = the (event_at D r (Suc i) s)" by (auto simp: ys_def)
    with ev(1) [of i] show "take 6 sk = ''EVENT#'' \<and> tb_item (dn_table D) (run_pk r) sk (ds_table s) = Some it"
      by (simp add: event_at_def)
  next
    assume *: "take 6 sk = ''EVENT#'' \<and> tb_item (dn_table D) (run_pk r) sk (ds_table s) = Some it"
    with assms(1) obtain i where "i < ?n" "sk = event_sk (Suc i)" by (auto simp: dy_log_def)
    with * show "(sk, it) \<in> set ys" by (force simp: ys_def event_at_def)
  qed
  then have "set (tb_query (dn_table D) (run_pk r) ''EVENT#'' (ds_table s)) = set ys" by (auto simp: cur(2))
  then have "tb_query (dn_table D) (run_pk r) ''EVENT#'' (ds_table s) = ys"
    by (rule strict_keys_unique [OF cur(1) srt])
  moreover have "res_map (read_event D \<circ> snd) ys = Inr evs"
    by (rule res_map_nth) (simp_all add: ys_def ev(2))
  ultimately show ?thesis by (simp add: dy_load_events_def query_def)
qed


section \<open>A table in memory\<close>

text \<open>A table that behaves as documented, and whose reads are current: an association list.\<close>

type_synonym mem = "((string \<times> string) \<times> item) list"

definition mem_keys :: "string \<Rightarrow> string \<Rightarrow> mem \<Rightarrow> string list" where
  "mem_keys pk p d = sort (remdups (map (snd \<circ> fst) (filter (\<lambda>((pk', sk), it). pk' = pk \<and> take (length p) sk = p) d)))"

definition mem_table :: "mem table_api" where
  "mem_table =
     \<lparr>tb_item = (\<lambda>pk sk d. map_of d (pk, sk)), tb_get = (\<lambda>pk sk d. map_of d (pk, sk)),
      tb_put = (\<lambda>pk sk it d. dict_set d (pk, sk) it), tb_delete = (\<lambda>pk sk d. filter (\<lambda>(k, it). k \<noteq> (pk, sk)) d),
      tb_query = (\<lambda>pk p d. map (\<lambda>sk. (sk, the (map_of d (pk, sk)))) (mem_keys pk p d)),
      tb_scan = (\<lambda>d. map (\<lambda>((pk, sk), it). (pk, sk, it)) d)\<rparr>"

lemma map_of_filter_ne: "map_of (filter (\<lambda>(k, v). k \<noteq> x) d) y = (if y = x then None else map_of d y)"
  by (induction d) auto

lemma mem_table_ok: "table_ok mem_table"
  by (simp add: table_ok_def mem_table_def map_of_dict_set map_of_filter_ne)

lemma set_mem_keys: "sk \<in> set (mem_keys pk p d) \<longleftrightarrow> take (length p) sk = p \<and> (\<exists>it. map_of d (pk, sk) = Some it)"
proof -
  have "(\<exists>it. ((pk, sk), it) \<in> set d) \<longleftrightarrow> (\<exists>it. map_of d (pk, sk) = Some it)"
    by (metis map_of_SomeD map_of_eq_None_iff not_None_eq image_eqI fst_conv)
  then show ?thesis by (auto simp: mem_keys_def image_iff split: prod.splits)
qed

lemma mem_current: "current mem_table d"
proof -
  have "sorted_wrt (<) (mem_keys pk p d)" for pk p
    by (simp add: mem_keys_def strict_sorted_iff)
  moreover have "(\<lambda>sk. (sk, the (map_of d (pk, sk)))) ` set (mem_keys pk p d) =
      {(sk, it). take (length p) sk = p \<and> map_of d (pk, sk) = Some it}" for pk p
    by (auto simp: image_iff set_mem_keys)
  ultimately show ?thesis by (simp add: current_def mem_table_def comp_def)
qed

text \<open>A queue of message bodies; a message being worked on is hidden. A body is its own receipt.\<close>

definition mem_queue :: "(string \<times> bool) list queue_api" where
  "mem_queue =
     \<lparr>sq_send = (\<lambda>b q. q @ [(b, False)]),
      sq_receive = (\<lambda>t q. case List.find (\<lambda>(b, hidden). \<not> hidden) q of
         None \<Rightarrow> (q, None)
       | Some (b, hidden) \<Rightarrow> (map (\<lambda>(b', h). (b', h \<or> b' = b)) q, Some (b, b))),
      sq_change = (\<lambda>h t q. (map (\<lambda>(b, hidden). (b, if b = h then t \<noteq> 0 else hidden)) q, h \<in> fst ` set q)),
      sq_delete = (\<lambda>h q. (filter (\<lambda>(b, hidden). b \<noteq> h) q, h \<in> fst ` set q)),
      sq_counts = (\<lambda>q. (length (filter (\<lambda>(b, hidden). \<not> hidden) q), length (filter (\<lambda>(b, hidden). hidden) q)))\<rparr>"

definition mem_store :: "(mem, (string \<times> bool) list) dynamo" where
  "mem_store = \<lparr>dn_table = mem_table, dn_queue = mem_queue, dn_queue_url = Some ''queue'',
     dn_isof = (\<lambda>t. str_nat (nat \<lfloor>t\<rfloor>)), dn_fromiso = (\<lambda>s. Some (of_nat (nat_str s)))\<rparr>"

definition mem_state :: "mem \<Rightarrow> (mem, (string \<times> bool) list) dstate" where
  "mem_state d = \<lparr>ds_now = 7, ds_table = d, ds_queue = []\<rparr>"

lemma mem_store_simps [simp]:
  "table_ok (dn_table mem_store)" "current (dn_table mem_store) d" "dn_queue mem_store = mem_queue"
  "dn_queue_url mem_store = Some ''queue''" "dn_fromiso mem_store (dn_isof mem_store 7) = Some 7"
  "ds_now (mem_state d) = 7" "ds_table (mem_state d) = d" "ds_queue (mem_state d) = []"
  by (simp_all add: mem_store_def mem_table_ok mem_current mem_state_def)

definition mem_log :: mem where
  "mem_log = [((run_pk 1, ''COUNTER''), [(''seq'', ANum 0)])]"


section \<open>What a crash leaves\<close>

lemma crash_atoms [simp]:
  "crash (Suc n) (bind (atom f) k) s = crash n (k (snd (f s))) (fst (f s))"
  "crash (Suc n) (bind (gets g) k) s = crash n (k (g s)) s"
  by (simp_all add: atom_def gets_def map_prod_def split_def)

declare crash.simps(2) [simp del]

text \<open>
  C37. The numbers of a log have gaps. A worker that dies between counting and writing an event, or whose
  payload the client refuses, has used the number up: the next event gets the one after it, and no event
  ever gets the number itself.
\<close>

theorem dynamo_log_gap:
  fixes D :: "('t, 'q) dynamo" and ty ty' :: event_type and sk sk' :: "string option"
  assumes "table_ok (dn_table D)" and "dy_log D r evs s" and "enc payload = Inr p" and "enc bad = Inl x"
    and "s1 \<in> {crash 1 (dy_append_event D r ty sk payload) s, fst (run (dy_append_event D r ty sk bad) s)}"
  defines "s2 \<equiv> fst (run (dy_append_event D r ty' sk' payload) s1)"
  shows "snd (run (dy_append_event D r ty' sk' payload) s1) = Inr (Suc (Suc (length evs))) \<and>
    event_at D r (Suc (length evs)) s2 = None \<and> event_at D r (Suc (Suc (length evs))) s2 \<noteq> None"
proof -
  have c: "tb_item (dn_table D) (run_pk r) ''COUNTER'' (ds_table s) = Some [(''seq'', ANum (of_nat (length evs)))]"
    using assms(2) by (simp add: dy_log_def)
  have "event_at D r (Suc (length evs)) s = None" by (rule dy_log_free [OF assms(2)]) simp
  moreover have "event_at D r (Suc (length evs)) s1 = event_at D r (Suc (length evs)) s"
    "tb_item (dn_table D) (run_pk r) ''COUNTER'' (ds_table s1) = Some [(''seq'', ANum (of_nat (Suc (length evs))))]"
    using assms(5)
    by (auto simp: dy_append_event_def dynamo_calls ebind_def incr_attr_def c assms(1,4) item_put add.commute event_at_def)
  ultimately show ?thesis
    using run_append_event [OF assms(1,3), where r = r and s = s1 and n = "Suc (length evs)" and ty = ty' and sk = sk']
    by (simp add: s2_def event_at_def)
qed

lemma dynamo_log_gap_witness:
  "snd (run (dy_append_event mem_store 1 STEP_STARTED None (PDict []))
     (crash 1 (dy_append_event mem_store 1 STEP_STARTED None (PDict [])) (mem_state mem_log))) = Inr (Suc (Suc 0))"
proof -
  have log: "dy_log mem_store 1 [] (mem_state mem_log)"
    by (auto simp: dy_log_def mem_log_def mem_store_def mem_table_def mem_state_def)
  have e: "enc (PDict []) = Inr (AMap [])" "enc (PObj ''X'') = Inl (type_error ''Unsupported type'')"
    by (simp_all add: enc_def)
  have "crash 1 (dy_append_event mem_store 1 STEP_STARTED None (PDict [])) (mem_state mem_log) \<in>
    {crash 1 (dy_append_event mem_store 1 STEP_STARTED None (PDict [])) (mem_state mem_log),
     fst (run (dy_append_event mem_store 1 STEP_STARTED None (PObj ''X'')) (mem_state mem_log))}" by simp
  from dynamo_log_gap [OF mem_store_simps(1) log e this, of STEP_STARTED None] show ?thesis by simp
qed

text \<open>
  C36. Submission reserves the key before it writes the run. A process that dies between the two leaves a key
  that stands for no run: every later submission under it, of whatever workflow and input, is answered with
  no run at all, and changes nothing.
\<close>

theorem dynamo_submit_window:
  fixes D :: "('t, 'q) dynamo" and wn wn' :: string and payload payload' :: pyval and b b' :: budget
  assumes "table_ok (dn_table D)"
    and "tb_item (dn_table D) (idem_pk key) ''KEY'' (ds_table s) = None"
    and "tb_item (dn_table D) (run_pk r) ''META'' (ds_table s) = None"
  defines "s1 \<equiv> crash 2 (dy_submit_run D r wn payload key b) s"
  assumes "current (dn_table D) (ds_table s1)"
  shows "run (dy_submit_run D r' wn' payload' key b') s1 = (s1, Inr (None, False))"
proof -
  have s1: "ds_table s1 = tb_put (dn_table D) (idem_pk key) ''KEY'' [(''run_id'', AStr (uuid_str r))] (ds_table s)"
    by (simp add: s1_def dy_submit_run_def dynamo_calls numeral_2_eq_2 assms(2))
  have it: "tb_item (dn_table D) (idem_pk key) ''KEY'' (ds_table s1) = Some [(''run_id'', AStr (uuid_str r))]"
    "tb_item (dn_table D) (run_pk r) ''META'' (ds_table s1) = None"
    by (simp_all add: s1 item_put assms(1,3))
  have "tb_get (dn_table D) pk k (ds_table s1) = tb_item (dn_table D) pk k (ds_table s1)" for pk k
    using assms(5) by (simp add: current_def)
  then show ?thesis
    by (simp add: dy_submit_run_def dynamo_calls it dy_get_run_def attr_item_def read_uuid_def parse_uuid_str res_bind_def)
qed

lemma dynamo_submit_window_witness:
  "snd (run (dy_submit_run mem_store 2 ''refund'' PNone ''order-1'' no_budget)
     (crash 2 (dy_submit_run mem_store 1 ''refund'' PNone ''order-1'' no_budget) (mem_state []))) = Inr (None, False)"
proof -
  have "tb_item (dn_table mem_store) pk sk [] = None" for pk sk by (simp add: mem_store_def mem_table_def)
  then show ?thesis
    using dynamo_submit_window [of mem_store "''order-1''" "mem_state []" 1 "''refund''" PNone no_budget 2 "''refund''" PNone no_budget]
    by simp
qed

section \<open>Submission, claim, cancellation\<close>

lemma enc_budget: "\<exists>eb. wire True (PDict (budget_to_dict b)) = Some eb"
  by (auto simp: budget_to_dict_def opt_item_def split: option.splits)

lemma enc_started:
  assumes "enc payload = Inr p" and "wire True (PDict bd) = Some eb"
  shows "enc (PDict [(KStr ''workflow'', PStr wn), (KStr ''input'', payload), (KStr ''budget'', PDict bd)]) =
    Inr (AMap [(''workflow'', AStr wn), (''input'', p), (''budget'', eb)])"
  using assms by (auto simp: enc_def split: option.splits)

lemma value_of_status_value [simp]: "value_of_status (status_value st) = Inr st"
  by (cases st) (simp_all add: value_of_status_def run_statuses_def)

lemmas value_of_pending = value_of_status_value [of PENDING, simplified]

text \<open>The run read back from its item, before and after its first event.\<close>

lemma from_run_item:
  assumes "dn_fromiso D (dn_isof D t) = Some t"
  shows "\<exists>rr. from_item D (run_item r wn p key eb (AStr (dn_isof D t))) = Inr rr \<and> rr_run_id rr = r \<and>
      rr_workflow rr = wn \<and> rr_idempotency_key rr = key \<and> rr_status rr = PENDING \<and> rr_input rr = dec p"
    and "\<exists>rr. from_item D (set_attrs [(''event_seq'', ANum (of_nat n)), (''updated_at'', AStr (dn_isof D t))]
        (run_item r wn p key eb (AStr (dn_isof D t)))) = Inr rr \<and> rr_run_id rr = r \<and>
      rr_workflow rr = wn \<and> rr_idempotency_key rr = key \<and> rr_status rr = PENDING \<and> rr_input rr = dec p \<and>
      rr_event_seq rr = n"
  by (simp_all add: run_item_def from_item_def res_bind_def attr_item_def attr_get_def read_uuid_def parse_uuid_str
      read_time_def assms(1) attr_nat_def counter_of_def set_attrs_def dict_update_def value_of_pending)

lemma fixed_keys [simp]: "idem_pk key \<noteq> run_pk r" "run_pk r \<noteq> idem_pk key"
  by (simp_all add: idem_pk_def run_pk_def)

text \<open>The state before a first submission's event is appended.\<close>

definition submitted ::
  "('t, 'q) dynamo \<Rightarrow> uuid \<Rightarrow> item \<Rightarrow> string \<Rightarrow> ('t, 'q) dstate \<Rightarrow> ('t, 'q) dstate" where
  "submitted D r it key s =
     s\<lparr>ds_table := tb_put (dn_table D) (run_pk r) ''COUNTER'' [(''seq'', ANum 0)]
         (tb_put (dn_table D) (run_pk r) ''META'' it
           (tb_put (dn_table D) (idem_pk key) ''KEY'' [(''run_id'', AStr (uuid_str r))] (ds_table s))),
       ds_queue := (if dn_queue_url D = None then ds_queue s else sq_send (dn_queue D) (queue_body r) (ds_queue s))\<rparr>"

lemma submitted_log:
  assumes "table_ok (dn_table D)" and "\<forall>k. tb_item (dn_table D) (run_pk r) k (ds_table s) = None"
  shows "dy_log D r [] (submitted D r it key s)"
  using assms by (auto simp: dy_log_def submitted_def item_put)

lemma run_first_submit:
  assumes "tb_item (dn_table D) (idem_pk key) ''KEY'' (ds_table s) = None" and "enc payload = Inr p"
    and "enc (PDict (budget_to_dict b)) = Inr eb"
  shows "run (dy_submit_run D r wn payload key b) s =
    (let it = run_item r wn p key eb (AStr (dn_isof D (ds_now s)));
         (s', x) = run (dy_append_event D r RUN_STARTED None
           (PDict [(KStr ''workflow'', PStr wn), (KStr ''input'', payload),
                   (KStr ''budget'', PDict (budget_to_dict b))])) (submitted D r it key s)
     in (s', res_bind x (\<lambda>_. res_bind (from_item D it) (\<lambda>rr. Inr (Some rr, True)))))"
  using assms
  by (cases "dn_queue_url D")
    (simp_all add: dy_submit_run_def dynamo_calls submitted_def Let_def split_def res_bind_def split: sum.splits)

lemma current_get: "current T d \<Longrightarrow> tb_get T pk sk d = tb_item T pk sk d"
  by (simp add: current_def)



text \<open>The message of a run is read back as the run.\<close>

lemma read_body_queue: "read_body (queue_body r) = Inr r"
proof -
  have "json_loads (\<lambda>_. 0) (queue_body r) = Inr (PDict [(KStr ''run_id'', PStr (uuid_str r))])"
    unfolding queue_body_def by (subst loads_text) (simp_all add: dict_update_def)
  then show ?thesis by (simp add: read_body_def item_str_def read_uuid_def parse_uuid_str res_bind_def)
qed

lemma run_delete_items:
  assumes "table_ok (dn_table D)"
  shows "tb_item (dn_table D) pk' k (ds_table (fst (run (delete_items D pk sks) s))) =
      (if pk' = pk \<and> k \<in> set sks then None else tb_item (dn_table D) pk' k (ds_table s))"
    and "ds_queue (fst (run (delete_items D pk sks) s)) = ds_queue s"
    and "ds_now (fst (run (delete_items D pk sks) s)) = ds_now s"
  by (induction sks arbitrary: s) (auto simp: delete_item_def item_delete [OF assms])

lemma lease_sk_fixed [simp]: "lease_sk w \<noteq> ''META''" "lease_sk w \<noteq> ''COUNTER''" "lease_sk w \<noteq> event_sk n"
  "''META'' \<noteq> lease_sk w" "''COUNTER'' \<noteq> lease_sk w" "event_sk n \<noteq> lease_sk w" "take 6 (lease_sk w) = ''LEASE#''" "lease_sk w = lease_sk v \<longleftrightarrow> w = v"
  by (simp_all add: lease_sk_def event_sk_def)


definition mem_submitted :: "(mem, (string \<times> bool) list) dstate" where
  "mem_submitted = \<lparr>ds_now = 7, ds_table = [((run_pk 1, ''META''), [])], ds_queue = [(queue_body 1, False)]\<rparr>"


lemma dy_log_meta:
  assumes "table_ok (dn_table D)" and "dy_log D r evs s"
  shows "dy_log D r evs (s\<lparr>ds_table := tb_put (dn_table D) (run_pk r) ''META'' it (ds_table s)\<rparr>)"
  using assms by (auto simp: dy_log_def event_at_def item_put)

lemma status_live: "status_value st \<in> {status_value PENDING, status_value RUNNING} \<longleftrightarrow> \<not> terminal st"
  by (cases st) simp_all

text \<open>
  A cancellation is accepted exactly for a run that is pending or running; it is then the next event of
  the log, and the flag is set for every later read that has caught up. A status, on the other hand, is
  written over whatever status is there, a final one included.
\<close>

theorem dynamo_cancel:
  fixes D :: "('t, 'q) dynamo" and st' :: run_status
  assumes "table_ok (dn_table D)" and "dy_log D r evs s"
    and "tb_item (dn_table D) (run_pk r) ''META'' (ds_table s) = Some it" and "map_of it ''status'' = Some (AStr (status_value st))"
    and "dn_fromiso D (dn_isof D (ds_now s)) = Some (ds_now s)"
  defines "s' \<equiv> fst (run (dy_request_cancel D r) s)" and "s2 \<equiv> fst (run (dy_set_status D r st' PNone PNone) s)"
  shows "snd (run (dy_request_cancel D r) s) = Inr (\<not> terminal st) \<and> (terminal st \<longrightarrow> s' = s) \<and>
    (\<not> terminal st \<longrightarrow> (\<exists>e. ev_type e = CANCEL_REQUESTED \<and> dy_log D r (evs @ [e]) s') \<and>
       (current (dn_table D) (ds_table s') \<longrightarrow> run (dy_is_cancel_requested D r) s' = (s', True))) \<and>
    (\<exists>it'. tb_item (dn_table D) (run_pk r) ''META'' (ds_table s2) = Some it' \<and>
       map_of it' ''status'' = Some (AStr (status_value st')))"
proof -
  define now where "now = AStr (dn_isof D (ds_now s))"
  define sa where "sa = s\<lparr>ds_table := tb_put (dn_table D) (run_pk r) ''META''
    (set_attrs [(''cancel_requested'', ABool True), (''updated_at'', now)] it) (ds_table s)\<rparr>"
  have live: "map_of it ''status'' \<in> {Some (AStr (status_value PENDING)), Some (AStr (status_value RUNNING))} \<longleftrightarrow> \<not> terminal st"
    using status_live [of st] by (auto simp: assms(4))
  have now: "ds_now sa = ds_now s" by (simp add: sa_def)
  have log: "dy_log D r evs sa" unfolding sa_def by (rule dy_log_meta [OF assms(1,2)])
  have e: "enc (PDict []) = Inr (AMap [])" by (simp add: enc_def)
  note app = dy_log_append [OF assms(1) log e, where ty = CANCEL_REQUESTED and sk = None, unfolded now, OF assms(5)]
  have run: "run (dy_request_cancel D r) s = (if terminal st then (s, Inr False) else
      (fst (run (dy_append_event D r CANCEL_REQUESTED None (PDict [])) sa), Inr True))"
    using app(1) live
    by (cases "terminal st")
      (simp_all add: dy_request_cancel_def now_iso_def assms(3) now_def [symmetric] sa_def [symmetric] del: status_value.simps)
  have "run (dy_is_cancel_requested D r) s' = (s', True)" if "\<not> terminal st" "current (dn_table D) (ds_table s')"
  proof -
    have c: "tb_item (dn_table D) (run_pk r) ''COUNTER'' (ds_table sa) = Some [(''seq'', ANum (of_nat (length evs)))]"
      using log by (simp add: dy_log_def)
    have s': "s' = fst (run (dy_append_event D r CANCEL_REQUESTED None (PDict [])) sa)" by (simp add: s'_def run that)
    note items = run_append_event(4) [OF assms(1) e c, where ty = CANCEL_REQUESTED and sk = None, folded s']
    have "tb_item (dn_table D) (run_pk r) ''META'' (ds_table s') = Some (set_attrs
        [(''event_seq'', ANum (of_nat (Suc (length evs)))), (''updated_at'', AStr (dn_isof D (ds_now sa)))]
        (set_attrs [(''cancel_requested'', ABool True), (''updated_at'', now)] it))"
      by (simp add: items) (simp add: sa_def item_put assms(1))
    then show ?thesis
      by (simp add: dy_is_cancel_requested_def get_item_def current_get [OF that(2)] attr_get_def set_attrs_def dict_update_def
          map_of_dict_set)
  qed
  moreover have "\<exists>it'. tb_item (dn_table D) (run_pk r) ''META'' (ds_table s2) = Some it' \<and>
      map_of it' ''status'' = Some (AStr (status_value st'))"
    by (simp add: s2_def dy_set_status_def dynamo_calls item_put assms(1,3) set_attrs_def dict_update_def map_of_dict_set)
  moreover have "\<exists>e. ev_type e = CANCEL_REQUESTED \<and> dy_log D r (evs @ [e]) s'" if "\<not> terminal st"
    using app(2) that by (force simp: s'_def run)
  ultimately show ?thesis by (auto simp: run s'_def)
qed

lemma dynamo_cancel_witness:
  "snd (run (dy_request_cancel mem_store 1) (mem_state
     [((run_pk 1, ''COUNTER''), [(''seq'', ANum 0)]), ((run_pk 1, ''META''), [(''status'', AStr ''RUNNING'')])])) = Inr True"
proof -
  let ?s = "mem_state [((run_pk 1, ''COUNTER''), [(''seq'', ANum 0)]), ((run_pk 1, ''META''), [(''status'', AStr ''RUNNING'')])]"
  have log: "dy_log mem_store 1 [] ?s" by (auto simp: dy_log_def mem_store_def mem_table_def mem_state_def)
  have m: "tb_item (dn_table mem_store) (run_pk 1) ''META'' (ds_table ?s) = Some [(''status'', AStr ''RUNNING'')]"
    by (simp add: mem_store_def mem_table_def)
  show ?thesis using dynamo_cancel [OF mem_store_simps(1) log m, of RUNNING] by simp
qed

end
