(* ===== verification/Interleave.thy ===== *)
theory Interleave
  imports Prog
begin

text \<open>
  Coroutines that run at the same time over one state. A schedule is a list of numbers of coroutines: each
  entry lets one do its next atom. A coroutine the schedule stops mentioning has died, or waits for ever.
\<close>

definition step_at :: "nat \<Rightarrow> ('s, 'r) prog list \<times> 's \<Rightarrow> ('s, 'r) prog list \<times> 's" where
  "step_at i c =
     (if i < length (fst c) then
        case fst c ! i of Ret r \<Rightarrow> c | Atom f \<Rightarrow> ((fst c)[i := snd (f (snd c))], fst (f (snd c)))
      else c)"

primrec interleave :: "nat list \<Rightarrow> ('s, 'r) prog list \<times> 's \<Rightarrow> ('s, 'r) prog list \<times> 's" where
  "interleave [] c = c"
| "interleave (i # sched) c = interleave sched (step_at i c)"

text \<open>What every atom of every coroutine keeps holds after every schedule.\<close>

lemma interleave_inv:
  assumes "I (ps, s)"
    and "\<And>ps s i f. I (ps, s) \<Longrightarrow> i < length ps \<Longrightarrow> ps ! i = Atom f \<Longrightarrow> I (ps[i := snd (f s)], fst (f s))"
  shows "I (interleave sched (ps, s))"
proof -
  have "I c \<Longrightarrow> I (interleave sched c)" for c
  proof (induction sched arbitrary: c)
    case (Cons i sched)
    have "I (step_at i c)"
      using Cons.prems assms(2) [of "fst c" "snd c" i] by (auto simp: step_at_def split: prog.splits)
    then show ?case by (simp add: Cons.IH)
  qed simp
  then show ?thesis using assms(1) .
qed

lemma length_step_at [simp]: "length (fst (step_at i c)) = length (fst c)"
  by (simp add: step_at_def split: prog.splits)

lemma length_interleave [simp]: "length (fst (interleave sched c)) = length (fst c)"
  by (induction sched arbitrary: c) simp_all

lemma interleave_append: "interleave (a @ b) c = interleave b (interleave a c)"
  by (induction a arbitrary: c) simp_all

text \<open>A coroutine that is scheduled often enough on its own runs to its end.\<close>

lemma interleave_alone:
  "i < length ps \<Longrightarrow> \<exists>n. interleave (replicate n i) (ps, s) =
     (ps[i := Ret (snd (run (ps ! i) s))], fst (run (ps ! i) s))"
proof (induction "ps ! i" arbitrary: ps s)
  case (Ret r)
  then have "interleave (replicate 0 i) (ps, s) = (ps[i := Ret (snd (run (ps ! i) s))], fst (run (ps ! i) s))"
    by (metis fst_conv interleave.simps(1) list_update_id replicate_0 run.simps(1) snd_conv)
  then show ?case by blast
next
  case (Atom f)
  have "snd (f s) = ps[i := snd (f s)] ! i" "i < length (ps[i := snd (f s)])" using Atom.prems by simp_all
  from Atom.hyps(1) [OF this] obtain n where
    "interleave (replicate n i) (ps[i := snd (f s)], fst (f s)) =
       (ps[i := Ret (snd (run (ps ! i) s))], fst (run (ps ! i) s))"
    using Atom.hyps(2) [symmetric] Atom.prems by force
  then have "interleave (replicate (Suc n) i) (ps, s) = (ps[i := Ret (snd (run (ps ! i) s))], fst (run (ps ! i) s))"
    using Atom.hyps(2) [symmetric] Atom.prems by (simp add: step_at_def)
  then show ?case by blast
qed

end
