(* ===== verification/Dynamo_Concurrent.thy ===== *)
theory Dynamo_Concurrent
  imports Dynamo_Facts Interleave
begin

text \<open>
  Appends to one log from any number of coroutines at the same time: the counter hands out each number
  once, so an acknowledged event is never written over.
\<close>

type_synonym append_request = "event_type \<times> string option \<times> pyval"

definition append_of :: "('t, 'q) dynamo \<Rightarrow> uuid \<Rightarrow> append_request \<Rightarrow> ('t, 'q, nat) dprog" where
  "append_of D r q = (case q of (ty, sk, payload) \<Rightarrow> dy_append_event D r ty sk payload)"

section \<open>The stages of an append\<close>

definition write_event :: "('t, 'q) dynamo \<Rightarrow> uuid \<Rightarrow> append_request \<Rightarrow> nat \<Rightarrow> attr \<Rightarrow> ('t, 'q, nat) dprog" where
  "write_event D r q m now =
     (case q of (ty, sk, payload) \<Rightarrow>
        ebind (Ret (enc payload)) (\<lambda>p. bind (put_item D (run_pk r) (event_sk m) (event_item m ty sk p now)) (\<lambda>_. Ret (Inr m))))"

definition stamp_event :: "('t, 'q) dynamo \<Rightarrow> uuid \<Rightarrow> append_request \<Rightarrow> nat \<Rightarrow> ('t, 'q, nat) dprog" where
  "stamp_event D r q m = bind (now_iso D) (write_event D r q m)"

definition mirror_counter :: "('t, 'q) dynamo \<Rightarrow> uuid \<Rightarrow> append_request \<Rightarrow> nat \<Rightarrow> attr \<Rightarrow> ('t, 'q, nat) dprog" where
  "mirror_counter D r q m now =
     ebind (update_item D (run_pk r) ''META''
              (\<lambda>it. Some (set_attrs [(''event_seq'', ANum (of_nat m)), (''updated_at'', now)] it, ())))
       (\<lambda>_. stamp_event D r q m)"

definition counted :: "('t, 'q) dynamo \<Rightarrow> uuid \<Rightarrow> append_request \<Rightarrow> nat \<Rightarrow> ('t, 'q, nat) dprog" where
  "counted D r q m = bind (now_iso D) (mirror_counter D r q m)"

lemma append_of_stages:
  "append_of D r q = ebind (update_item D (run_pk r) ''COUNTER'' (incr_attr ''seq'')) (counted D r q)"
  by (cases q) (simp add: append_of_def dy_append_event_def counted_def [abs_def] mirror_counter_def [abs_def]
      stamp_event_def [abs_def] write_event_def [abs_def])

text \<open>A coroutine that was given the number \<open>m\<close> is at one of these stages.\<close>

definition stage :: "('t, 'q) dynamo \<Rightarrow> uuid \<Rightarrow> append_request \<Rightarrow> nat \<Rightarrow> ('t, 'q, nat) dprog \<Rightarrow> ('t, 'q) dstate \<Rightarrow> bool" where
  "stage D r q m p s \<longleftrightarrow>
     event_at D r m s = None \<and>
       (p = counted D r q m \<or> (\<exists>now. p = mirror_counter D r q m now) \<or> p = stamp_event D r q m \<or>
        (\<exists>now. p = write_event D r q m now)) \<or>
     p = Ret (Inr m) \<and>
       (\<exists>e now. enc (snd (snd q)) = Inr e \<and> event_at D r m s = Some (event_item m (fst q) (fst (snd q)) e now))"

text \<open>One atom of a coroutine at a stage: it stays at a stage, and touches no event but its own.\<close>

lemma stage_step:
  assumes "table_ok (dn_table D)" and "stage D r q m (Atom f) s"
  shows "stage D r q m (snd (f s)) (fst (f s))"
    and "k \<noteq> m \<Longrightarrow> event_at D r k (fst (f s)) = event_at D r k s"
    and "tb_item (dn_table D) (run_pk r) ''COUNTER'' (ds_table (fst (f s))) = tb_item (dn_table D) (run_pk r) ''COUNTER'' (ds_table s)"
proof -
  obtain ty sk payload where q: "q = (ty, sk, payload)" by (cases q) auto
  have none: "event_at D r m s = None" using assms(2) by (auto simp: stage_def)
  consider "Atom f = counted D r q m" | now where "Atom f = mirror_counter D r q m now"
    | "Atom f = stamp_event D r q m" | now where "Atom f = write_event D r q m now"
    using assms(2) by (auto simp: stage_def)
  then have "stage D r q m (snd (f s)) (fst (f s)) \<and> (k \<noteq> m \<longrightarrow> event_at D r k (fst (f s)) = event_at D r k s) \<and>
    tb_item (dn_table D) (run_pk r) ''COUNTER'' (ds_table (fst (f s))) = tb_item (dn_table D) (run_pk r) ''COUNTER'' (ds_table s)"
  proof cases
    case 1
    then have "f = (\<lambda>s. (s, mirror_counter D r q m (AStr (dn_isof D (ds_now s)))))"
      by (simp add: counted_def now_iso_def gets_def atom_def map_prod_def)
    with none show ?thesis by (auto simp: stage_def)
  next
    case 2
    then have "fst (f s) = s\<lparr>ds_table := tb_put (dn_table D) (run_pk r) ''META'' (set_attrs
          [(''event_seq'', ANum (of_nat m)), (''updated_at'', now)]
          (case tb_item (dn_table D) (run_pk r) ''META'' (ds_table s) of None \<Rightarrow> [] | Some it \<Rightarrow> it)) (ds_table s)\<rparr>"
      "snd (f s) = stamp_event D r q m"
      by (auto simp: mirror_counter_def update_item_def ebind_def atom_def map_prod_def split_def)
    with none show ?thesis by (simp add: stage_def event_at_def item_put assms(1))
  next
    case 3
    then have "f = (\<lambda>s. (s, write_event D r q m (AStr (dn_isof D (ds_now s)))))"
      by (simp add: stamp_event_def now_iso_def gets_def atom_def map_prod_def)
    with none show ?thesis by (auto simp: stage_def)
  next
    case 4
    then obtain e where "enc payload = Inr e"
      by (cases "enc payload") (simp_all add: write_event_def q ebind_def)
    with 4 have "fst (f s) = s\<lparr>ds_table := tb_put (dn_table D) (run_pk r) (event_sk m) (event_item m ty sk e now) (ds_table s)\<rparr>"
      "snd (f s) = Ret (Inr m)"
      by (auto simp: write_event_def q ebind_def put_item_def modify_def atom_def map_prod_def split_def)
    then show ?thesis by (auto simp: stage_def event_at_def item_put assms(1) q \<open>enc payload = Inr e\<close>)
  qed
  then show "stage D r q m (snd (f s)) (fst (f s))"
    and "k \<noteq> m \<Longrightarrow> event_at D r k (fst (f s)) = event_at D r k s"
    and "tb_item (dn_table D) (run_pk r) ''COUNTER'' (ds_table (fst (f s))) = tb_item (dn_table D) (run_pk r) ''COUNTER'' (ds_table s)"
    by blast+
qed

section \<open>The invariant\<close>

text \<open>
  \<open>owners\<close> gives each coroutine that has counted its number. \<open>n0\<close> is the length of the log before any of
  them started.
\<close>

definition at_stage :: "('t, 'q) dynamo \<Rightarrow> uuid \<Rightarrow> append_request \<Rightarrow> nat option \<Rightarrow> ('t, 'q, nat) dprog \<Rightarrow> ('t, 'q) dstate \<Rightarrow> bool" where
  "at_stage D r q w p s = (case w of None \<Rightarrow> p = append_of D r q | Some m \<Rightarrow> stage D r q m p s)"

lemma at_stage_simps [simp]:
  "at_stage D r q None p s \<longleftrightarrow> p = append_of D r q" "at_stage D r q (Some m) p s = stage D r q m p s"
  by (simp_all add: at_stage_def)

definition appending ::
  "('t, 'q) dynamo \<Rightarrow> uuid \<Rightarrow> append_request list \<Rightarrow> nat \<Rightarrow> ('t, 'q) dstate \<Rightarrow>
   (nat \<rightharpoonup> nat) \<Rightarrow> ('t, 'q, nat) dprog list \<Rightarrow> ('t, 'q) dstate \<Rightarrow> bool" where
  "appending D r qs n0 s0 owners ps s \<longleftrightarrow>
     length ps = length qs \<and> inj_on owners (dom owners) \<and>
     (\<forall>k \<le> n0. event_at D r k s = event_at D r k s0) \<and>
     (\<forall>i < length qs. at_stage D r (qs ! i) (owners i) (ps ! i) s) \<and>
     (\<exists>n \<ge> n0. tb_item (dn_table D) (run_pk r) ''COUNTER'' (ds_table s) = Some [(''seq'', ANum (of_nat n))] \<and>
        (\<forall>k > n. event_at D r k s = None) \<and> (\<forall>i m. owners i = Some m \<longrightarrow> n0 < m \<and> m \<le> n))"

lemma stage_Ret:
  assumes "stage D r q m (Ret (Inr k)) s"
  shows "k = m \<and> (\<exists>e now. enc (snd (snd q)) = Inr e \<and> event_at D r m s = Some (event_item m (fst q) (fst (snd q)) e now))"
proof -
  have "Ret (Inr k) \<noteq> write_event D r q m now" for now
    by (cases q, cases "enc (snd (snd q))")
      (simp_all add: write_event_def ebind_def put_item_def modify_def atom_def)
  then show ?thesis
    using assms by (auto simp: stage_def counted_def mirror_counter_def stamp_event_def now_iso_def gets_def update_item_def
        ebind_def atom_def)
qed

lemma stage_other: "event_at D r m s' = event_at D r m s \<Longrightarrow> stage D r q m p s \<Longrightarrow> stage D r q m p s'"
  by (simp add: stage_def)

lemma inj_onto: "inj_on w (dom w) \<Longrightarrow> w i = Some m \<Longrightarrow> w j = Some m \<Longrightarrow> i = j"
  by (metis domI inj_onD)

lemma appending_stage:
  assumes "table_ok (dn_table D)" and "appending D r qs n0 s0 owners ps s" and "i < length ps" and "ps ! i = Atom f"
    and "owners i = Some m"
  shows "appending D r qs n0 s0 owners (ps[i := snd (f s)]) (fst (f s))"
proof -
  have "stage D r (qs ! i) m (Atom f) s" using assms(2-5) by (auto simp: appending_def)
  note st = stage_step [OF assms(1) this]
  have "n0 < m" and inj: "inj_on owners (dom owners)" using assms(2,5) by (auto simp: appending_def)
  have oth: "stage D r (qs ! j) m' p (fst (f s))" if "stage D r (qs ! j) m' p s" "owners j = Some m'" "j \<noteq> i" for j m' p
  proof -
    have "m' \<noteq> m" using inj_onto [OF inj, of j m' i] that assms(5) by auto
    then show ?thesis using st(2) that(1) by (blast intro: stage_other)
  qed
  obtain n where "n \<ge> n0" and c: "tb_item (dn_table D) (run_pk r) ''COUNTER'' (ds_table s) = Some [(''seq'', ANum (of_nat n))]"
    and n: "\<forall>k > n. event_at D r k s = None" "\<forall>i m. owners i = Some m \<longrightarrow> n0 < m \<and> m \<le> n"
    using assms(2) by (auto simp: appending_def)
  have "event_at D r k (fst (f s)) = None" if "k > n" for k
  proof -
    have "k \<noteq> m" using n(2) assms(5) that by force
    then show ?thesis using n(1) that by (simp add: st(2))
  qed
  moreover have "event_at D r k (fst (f s)) = event_at D r k s0" if "k \<le> n0" for k
  proof -
    have "k \<noteq> m" using \<open>n0 < m\<close> that by simp
    then show ?thesis using assms(2) that by (simp add: st(2) appending_def)
  qed
  moreover have "at_stage D r (qs ! j) (owners j) (ps[i := snd (f s)] ! j) (fst (f s))" if "j < length qs" for j
  proof (cases "j = i")
    case True
    then show ?thesis using st(1) assms(3,5) by simp
  next
    case False
    have "at_stage D r (qs ! j) (owners j) (ps ! j) s" using assms(2) that by (simp add: appending_def)
    then show ?thesis using False oth by (cases "owners j") auto
  qed
  ultimately show ?thesis
    using assms(2) \<open>n \<ge> n0\<close> c n(2) st(3) inj by (auto simp: appending_def)
qed

lemma appending_count:
  assumes "table_ok (dn_table D)" and "appending D r qs n0 s0 owners ps s" and "i < length ps" and "ps ! i = Atom f"
    and "owners i = None"
  shows "\<exists>owners'. appending D r qs n0 s0 owners' (ps[i := snd (f s)]) (fst (f s))"
proof -
  obtain n where "n \<ge> n0" and c: "tb_item (dn_table D) (run_pk r) ''COUNTER'' (ds_table s) = Some [(''seq'', ANum (of_nat n))]"
    and n: "\<forall>k > n. event_at D r k s = None" "\<forall>i m. owners i = Some m \<longrightarrow> n0 < m \<and> m \<le> n"
    using assms(2) by (auto simp: appending_def)
  have len: "length ps = length qs" using assms(2) by (simp add: appending_def)
  have "Atom f = append_of D r (qs ! i)" using assms(2-5) by (auto simp: appending_def)
  moreover have "nat (1 + int n) = Suc n" by simp
  ultimately have f: "fst (f s) = s\<lparr>ds_table := tb_put (dn_table D) (run_pk r) ''COUNTER'' [(''seq'', ANum (of_nat (Suc n)))] (ds_table s)\<rparr>"
    "snd (f s) = counted D r (qs ! i) (Suc n)"
    by (simp_all add: append_of_stages update_item_def ebind_def atom_def map_prod_def split_def c incr_attr_def nat_floor_Suc
        add.commute)
  have ev: "event_at D r k (fst (f s)) = event_at D r k s" for k
    by (simp add: f event_at_def item_put assms(1))
  have "stage D r (qs ! i) (Suc n) (snd (f s)) (fst (f s))" by (simp add: stage_def f(2) ev n(1))
  then have "at_stage D r (qs ! j) ((owners(i \<mapsto> Suc n)) j) (ps[i := snd (f s)] ! j) (fst (f s))" if "j < length qs" for j
  proof (cases "j = i")
    case False
    have "at_stage D r (qs ! j) (owners j) (ps ! j) s" using assms(2) that by (simp add: appending_def)
    then show ?thesis using False stage_other [OF ev] by (cases "owners j") auto
  qed (simp add: assms(3))
  moreover have "inj_on (owners(i \<mapsto> Suc n)) (dom (owners(i \<mapsto> Suc n)))"
  proof (rule inj_onI)
    fix j k assume "j \<in> dom (owners(i \<mapsto> Suc n))" "k \<in> dom (owners(i \<mapsto> Suc n))"
      and *: "(owners(i \<mapsto> Suc n)) j = (owners(i \<mapsto> Suc n)) k"
    then obtain m where m: "(owners(i \<mapsto> Suc n)) j = Some m" by blast
    with * have k: "(owners(i \<mapsto> Suc n)) k = Some m" by simp
    have new: "owners l \<noteq> Some (Suc n)" for l using n(2) by force
    have inj: "inj_on owners (dom owners)" using assms(2) by (simp add: appending_def)
    show "j = k"
      using m k new [of j] new [of k] inj_onto [OF inj, of j m k] by (cases "j = i"; cases "k = i") auto
  qed
  moreover have "\<forall>j m. (owners(i \<mapsto> Suc n)) j = Some m \<longrightarrow> n0 < m \<and> m \<le> Suc n"
    using n(2) \<open>n \<ge> n0\<close> by (auto intro: le_SucI)
  moreover have "tb_item (dn_table D) (run_pk r) ''COUNTER'' (ds_table (fst (f s))) = Some [(''seq'', ANum (of_nat (Suc n)))]"
    by (simp add: f(1) item_put assms(1))
  moreover have "\<forall>k > Suc n. event_at D r k (fst (f s)) = None" "\<forall>k \<le> n0. event_at D r k (fst (f s)) = event_at D r k s0"
    using n(1) assms(2) by (auto simp: ev appending_def)
  ultimately have "appending D r qs n0 s0 (owners(i \<mapsto> Suc n)) (ps[i := snd (f s)]) (fst (f s))"
    using \<open>n \<ge> n0\<close> len unfolding appending_def by (intro conjI exI [of _ "Suc n"]) auto
  then show ?thesis by blast
qed

lemma appending_start:
  assumes "dy_log D r evs s"
  shows "appending D r qs (length evs) s Map.empty (map (append_of D r) qs) s"
  using assms dy_log_free [OF assms] by (auto simp: appending_def dy_log_def)

lemma appending_interleave:
  assumes "table_ok (dn_table D)" and "dy_log D r evs s0" and "(ps, s) = interleave sched (map (append_of D r) qs, s0)"
  shows "\<exists>owners. appending D r qs (length evs) s0 owners ps s"
proof -
  let ?I = "\<lambda>(ps, s). \<exists>owners. appending D r qs (length evs) s0 owners ps s"
  have "?I (interleave sched (map (append_of D r) qs, s0))"
  proof (rule interleave_inv)
    show "?I (map (append_of D r) qs, s0)" using appending_start [OF assms(2)] by auto
  next
    fix ps s i f
    assume "?I (ps, s)" "i < length ps" "ps ! i = Atom f"
    then obtain owners where "appending D r qs (length evs) s0 owners ps s" by auto
    note step = appending_stage [OF assms(1) this \<open>i < length ps\<close> \<open>ps ! i = Atom f\<close>]
      appending_count [OF assms(1) this \<open>i < length ps\<close> \<open>ps ! i = Atom f\<close>]
    have "\<exists>owners. appending D r qs (length evs) s0 owners (ps[i := snd (f s)]) (fst (f s))"
    proof (cases "owners i")
      case None
      then show ?thesis by (rule step(2))
    next
      case (Some m)
      then show ?thesis using step(1) by blast
    qed
    then show "?I (ps[i := snd (f s)], fst (f s))" by simp
  qed
  then show ?thesis by (simp flip: assms(3))
qed

text \<open>
  C33. Appends at the same time do not disturb each other. However any number of appends to one log are
  interleaved, and wherever some of them die: the events that were there stay as they were, an append that
  has returned a number has its event in the log under it, and no two return the same number.
\<close>

theorem dynamo_concurrent_appends:
  assumes "table_ok (dn_table D)" and "dy_log D r evs s0"
    and "(ps, s) = interleave sched (map (append_of D r) qs, s0)"
  shows "(\<forall>k \<le> length evs. event_at D r k s = event_at D r k s0) \<and>
    (\<forall>i < length qs. \<forall>m. ps ! i = Ret (Inr m) \<longrightarrow>
       length evs < m \<and> (\<exists>e now. enc (snd (snd (qs ! i))) = Inr e \<and>
         event_at D r m s = Some (event_item m (fst (qs ! i)) (fst (snd (qs ! i))) e now)) \<and>
       (\<forall>j < length qs. ps ! j = Ret (Inr m) \<longrightarrow> j = i))"
proof -
  obtain owners where ap: "appending D r qs (length evs) s0 owners ps s"
    using appending_interleave [OF assms] by blast
  have finished: "owners i = Some m \<and> stage D r (qs ! i) m (Ret (Inr m)) s" if "i < length qs" "ps ! i = Ret (Inr m)" for i m
  proof -
    have at: "at_stage D r (qs ! i) (owners i) (Ret (Inr m)) s" using ap that by (auto simp: appending_def)
    have "owners i \<noteq> None"
    proof
      assume "owners i = None"
      with at show False by (simp add: append_of_stages update_item_def ebind_def atom_def)
    qed
    then obtain m' where "owners i = Some m'" by blast
    with at stage_Ret show ?thesis by fastforce
  qed
  have "\<exists>e now. enc (snd (snd (qs ! i))) = Inr e \<and>
      event_at D r m s = Some (event_item m (fst (qs ! i)) (fst (snd (qs ! i))) e now)"
    if "i < length qs" "ps ! i = Ret (Inr m)" for i m
    using finished [OF that] stage_Ret by blast
  moreover have "j = i" if "i < length qs" "ps ! i = Ret (Inr m)" "j < length qs" "ps ! j = Ret (Inr m)" for i j m
    using finished [OF that(1,2)] finished [OF that(3,4)] ap inj_onto [of owners j m i] by (simp add: appending_def)
  moreover have "length evs < m" if "i < length qs" "ps ! i = Ret (Inr m)" for i m
    using finished [OF that] ap by (auto simp: appending_def)
  moreover have "\<forall>k \<le> length evs. event_at D r k s = event_at D r k s0" using ap by (simp add: appending_def)
  ultimately show ?thesis by blast
qed

definition two_appends :: "append_request list" where
  "two_appends = [(STEP_STARTED, Some ''a#0'', PDict []), (STEP_STARTED, Some ''b#0'', PDict [])]"

lemma dynamo_concurrent_appends_witness:
  "(\<lambda>(ps, s). \<forall>i < 2. \<forall>m. ps ! i = Ret (Inr m) \<longrightarrow> event_at mem_store 1 m s \<noteq> None)
     (interleave [0, 1, 1, 0, 1, 1, 1, 0, 0, 0] (map (append_of mem_store 1) two_appends, mem_state mem_log))"
proof -
  have log: "dy_log mem_store 1 [] (mem_state mem_log)"
    by (auto simp: dy_log_def mem_log_def mem_store_def mem_table_def mem_state_def)
  define c where "c = interleave [0, 1, 1, 0, 1, 1, 1, 0, 0, 0] (map (append_of mem_store 1) two_appends, mem_state mem_log)"
  obtain ps s where ps: "c = (ps, s)" by (cases c)
  note final = ps [symmetric, unfolded c_def]
  have "event_at mem_store 1 m s \<noteq> None" if "i < 2" "ps ! i = Ret (Inr m)" for i m
  proof -
    have "i < length two_appends" using that(1) by (simp add: two_appends_def)
    from dynamo_concurrent_appends [OF mem_store_simps(1) log final, THEN conjunct2, rule_format, OF this that(2)]
    show ?thesis by (elim conjE exE) simp
  qed
  then show ?thesis unfolding final [symmetric] prod.case by blast
qed

end
