(* ===== verification/Gather.thy ===== *)
theory Gather
  imports Interleave Demo
begin

text \<open>
  \<open>RunContext.gather\<close> of \<open>src/anchor/context.py\<close>: several steps at the same time on one context. The keys
  are given out in the order of the list before anything is scheduled; then the event loop lets the
  branches take turns, in an order that is an argument here, until all have returned or one has raised.
\<close>

section \<open>The operation\<close>

definition branch_name :: "string \<Rightarrow> nat \<Rightarrow> string" where
  "branch_name name i = name @ ''['' @ str_nat i @ '']''"

primrec next_keys :: "string list \<Rightarrow> ('st, 'x, string list) ctx_prog" where
  "next_keys [] = Ret []"
| "next_keys (nm # nms) = bind (next_key nm) (\<lambda>key. bind (next_keys nms) (\<lambda>keys. Ret (key # keys)))"

definition branch ::
  "('st, 'x) deps \<Rightarrow> step_idempotency \<Rightarrow> string \<Rightarrow> 'x pyfn \<Rightarrow> ('st, 'x, (pyval \<times> bool) py_result) ctx_prog" where
  "branch E idem key fn = step_with_key E key (call_fn fn []) idem None None"

text \<open>What the awaiting coroutine sees: the first exception, or the results in the order of the list.\<close>

fun joined :: "('s, (pyval \<times> bool) py_result) prog list \<Rightarrow> pyval list py_result option" where
  "joined [] = Some (Inr [])"
| "joined (Ret (Inl e) # ps) = Some (Inl e)"
| "joined (Ret (Inr (v, b)) # ps) =
     (case joined ps of Some (Inr vs) \<Rightarrow> Some (Inr (v # vs)) | x \<Rightarrow> x)"
| "joined (Atom f # ps) = (case joined ps of Some (Inl e) \<Rightarrow> Some (Inl e) | _ \<Rightarrow> None)"

primrec until_joined ::
  "nat list \<Rightarrow> ('s, (pyval \<times> bool) py_result) prog list \<times> 's \<Rightarrow> ('s, (pyval \<times> bool) py_result) prog list \<times> 's" where
  "until_joined [] c = c"
| "until_joined (i # sched) c = (if joined (fst c) \<noteq> None then c else until_joined sched (step_at i c))"

text \<open>The branches that are left run on: nothing cancels them when one has raised.\<close>

definition gather ::
  "('st, 'x) deps \<Rightarrow> string \<Rightarrow> 'x pyfn list \<Rightarrow> step_idempotency \<Rightarrow> nat list \<Rightarrow> ('st, 'x) sys \<times> ctx \<Rightarrow>
   ('st, 'x, (pyval \<times> bool) py_result) ctx_prog list \<times> (('st, 'x) sys \<times> ctx) \<times> pyval list py_result option" where
  "gather E name fns idem sched \<sigma> =
     (let (\<sigma>1, keys) = run (next_keys (map (branch_name name) [0..<length fns])) \<sigma>;
          (ps, \<sigma>2) = until_joined sched (map2 (branch E idem) keys fns, \<sigma>1)
      in (ps, \<sigma>2, joined ps))"

section \<open>Keys\<close>

lemma branch_name_inj [simp]: "branch_name name i = branch_name name j \<longleftrightarrow> i = j"
  by (simp add: branch_name_def)

definition fresh_keys :: "ctx \<Rightarrow> string list \<Rightarrow> string list" where
  "fresh_keys c nms = map (\<lambda>nm. step_key nm (ordinal c nm + 1)) nms"

definition count_up :: "ctx \<Rightarrow> string list \<Rightarrow> ctx" where
  "count_up c nms = foldl (\<lambda>c nm. c\<lparr>cx_ordinals := (cx_ordinals c)(nm \<mapsto> ordinal c nm + 1)\<rparr>) c nms"

lemma run_next_keys: "distinct nms \<Longrightarrow> run (next_keys nms) (s, c) = ((s, count_up c nms), fresh_keys c nms)"
proof (induction nms arbitrary: c)
  case (Cons nm nms)
  let ?c = "c\<lparr>cx_ordinals := (cx_ordinals c)(nm \<mapsto> ordinal c nm + 1)\<rparr>"
  have "fresh_keys ?c nms = fresh_keys c nms" using Cons.prems by (auto simp: fresh_keys_def)
  with Cons show ?case by (simp add: next_key_def Let_def count_up_def) (simp add: fresh_keys_def)
qed (simp add: count_up_def fresh_keys_def)

lemma count_up_simps [simp]:
  "cx_completed (count_up c nms) = cx_completed c" "cx_replayed_steps (count_up c nms) = cx_replayed_steps c"
  "cx_run (count_up c nms) = cx_run c"
  by (induction nms arbitrary: c) (simp_all add: count_up_def)

lemma issued_count_up: "distinct nms \<Longrightarrow> issued (count_up c nms) key \<longleftrightarrow> issued c key \<or> key \<in> set (fresh_keys c nms)"
proof (induction nms arbitrary: c)
  case (Cons nm nms)
  let ?c = "c\<lparr>cx_ordinals := (cx_ordinals c)(nm \<mapsto> ordinal c nm + 1)\<rparr>"
  have "fresh_keys ?c nms = fresh_keys c nms" using Cons.prems by (auto simp: fresh_keys_def)
  moreover have "count_up c (nm # nms) = count_up ?c nms" by (simp add: count_up_def)
  ultimately show ?case using Cons.IH [of ?c] Cons.prems issued_next [of c nm key] by (auto simp: fresh_keys_def)
qed (simp add: count_up_def fresh_keys_def)

lemma distinct_names: "distinct (map (branch_name name) [0..<n])"
  by (simp add: distinct_map inj_on_def)

section \<open>Replaying\<close>

text \<open>\<open>left i\<close>: how many of its two atoms the replayed branch \<open>i\<close> has still to do.\<close>

definition replayed :: "pyval \<Rightarrow> ('st, 'x, (pyval \<times> bool) py_result) ctx_prog" where
  "replayed v = bind (ctx_modify (\<lambda>c. c\<lparr>cx_replayed_steps := cx_replayed_steps c + 1\<rparr>)) (\<lambda>_. Ret (Inr (v, False)))"

definition branch_left ::
  "('st, 'x) deps \<Rightarrow> step_idempotency \<Rightarrow> string \<Rightarrow> 'x pyfn \<Rightarrow> pyval \<Rightarrow> nat \<Rightarrow> ('st, 'x, (pyval \<times> bool) py_result) ctx_prog" where
  "branch_left E idem key fn v n = (if n = 0 then Ret (Inr (v, False)) else if n = 1 then replayed v else branch E idem key fn)"

definition replaying ::
  "('st, 'x) deps \<Rightarrow> step_idempotency \<Rightarrow> string list \<Rightarrow> 'x pyfn list \<Rightarrow> pyval list \<Rightarrow> ('st, 'x) sys \<times> ctx \<Rightarrow> (nat \<Rightarrow> nat) \<Rightarrow>
   ('st, 'x, (pyval \<times> bool) py_result) ctx_prog list \<times> (('st, 'x) sys \<times> ctx) \<Rightarrow> bool" where
  "replaying E idem keys fns vs \<sigma> left pc \<longleftrightarrow>
     fst pc = map (\<lambda>i. branch_left E idem (keys ! i) (fns ! i) (vs ! i) (left i)) [0..<length vs] \<and>
     snd pc = (fst \<sigma>, (snd \<sigma>)\<lparr>cx_replayed_steps := cx_replayed_steps (snd \<sigma>) + card {i. i < length vs \<and> left i = 0}\<rparr>) \<and>
     (\<forall>i < length vs. cx_completed (snd \<sigma>) (keys ! i) = Some (vs ! i))"

lemma joined_map_Ret: "joined (map (\<lambda>i. Ret (Inr (f i, b i))) is) = Some (Inr (map f is))"
  by (induction "is") simp_all

lemma joined_no_raise: "\<forall>p \<in> set ps. \<forall>e. p \<noteq> Ret (Inl e) \<Longrightarrow> joined ps \<noteq> Some (Inl e)"
  by (induction ps rule: joined.induct) (auto split: option.splits sum.splits)

lemma joined_done: "joined ps = Some (Inr vs) \<Longrightarrow> p \<in> set ps \<Longrightarrow> \<exists>x. p = Ret x"
  by (induction ps arbitrary: vs rule: joined.induct) (auto split: option.splits sum.splits)

lemma branch_left_atom:
  assumes "cx_completed (snd \<sigma>) key = Some v" and "0 < n"
  shows "\<exists>f. branch_left E idem key fn v n = Atom f \<and>
    snd (f \<sigma>) = branch_left E idem key fn v (if n = 1 then 0 else 1) \<and>
    fst (f \<sigma>) = (if n = 1 then apsnd (\<lambda>c. c\<lparr>cx_replayed_steps := cx_replayed_steps c + 1\<rparr>) \<sigma> else \<sigma>)"
  using assms
  by (auto simp: branch_left_def replayed_def branch_def step_with_key_def ctx_modify_def ctx_gets_def modify_def gets_def
      atom_def map_prod_def)

lemma replaying_step:
  assumes "replaying E idem keys fns vs \<sigma> left pc" and "i < length vs" and "0 < left i"
  shows "replaying E idem keys fns vs \<sigma> (left(i := if left i = 1 then 0 else 1)) (step_at i pc)"
proof -
  let ?l = "left(i := if left i = 1 then 0 else 1)"
  let ?n = "length vs"
  define b where "b = (\<lambda>l i. branch_left E idem (keys ! i) (fns ! i) (vs ! i) (l i))"
  have ps: "fst pc = map (b left) [0..<?n]"
    and \<sigma>: "snd pc = (fst \<sigma>, (snd \<sigma>)\<lparr>cx_replayed_steps := cx_replayed_steps (snd \<sigma>) + card {i. i < ?n \<and> left i = 0}\<rparr>)"
    using assms(1) by (simp_all add: replaying_def b_def)
  have "cx_completed (snd (snd pc)) (keys ! i) = Some (vs ! i)" using assms(1,2) by (simp add: replaying_def \<sigma>)
  from branch_left_atom [OF this assms(3), of E idem "fns ! i"] obtain f where f: "b left i = Atom f"
    "snd (f (snd pc)) = b ?l i"
    "fst (f (snd pc)) = (if left i = 1 then apsnd (\<lambda>c. c\<lparr>cx_replayed_steps := cx_replayed_steps c + 1\<rparr>) (snd pc) else snd pc)"
    by (auto simp: b_def)
  have "step_at i pc = ((fst pc)[i := b ?l i], fst (f (snd pc)))"
    using assms(2) f(1) by (simp add: step_at_def ps f(2))
  moreover have "(fst pc)[i := b ?l i] = map (b ?l) [0..<?n]"
    by (rule nth_equalityI) (auto simp: ps nth_list_update b_def)
  moreover have "card {j. j < ?n \<and> ?l j = 0} = card {j. j < ?n \<and> left j = 0} + (if left i = 1 then 1 else 0)"
  proof (cases "left i = 1")
    case True
    then have "{j. j < ?n \<and> ?l j = 0} = insert i {j. j < ?n \<and> left j = 0}" using assms(2) by auto
    then show ?thesis using True by simp
  next
    case False
    then have "{j. j < ?n \<and> ?l j = 0} = {j. j < ?n \<and> left j = 0}" using assms(3) by auto
    then show ?thesis using False by simp
  qed
  ultimately show ?thesis
    using assms(1) f(3) unfolding replaying_def by (simp add: \<sigma> b_def add.commute)
qed

lemma replaying_joined:
  assumes "replaying E idem keys fns vs \<sigma> left pc"
  shows "joined (fst pc) = (if \<forall>i < length vs. left i = 0 then Some (Inr vs) else None)"
proof (cases "\<forall>i < length vs. left i = 0")
  case True
  then have "fst pc = map (\<lambda>i. Ret (Inr (vs ! i, False))) [0..<length vs]"
    using assms by (simp add: replaying_def branch_left_def)
  then show ?thesis using True by (simp add: joined_map_Ret map_nth)
next
  case False
  then obtain i where i: "i < length vs" "0 < left i" by auto
  have c: "cx_completed (snd \<sigma>) (keys ! j) = Some (vs ! j)" if "j < length vs" for j
    using assms that by (simp add: replaying_def)
  have "branch_left E idem (keys ! j) (fns ! j) (vs ! j) (left j) \<noteq> Ret (Inl e)" if "j < length vs" for j e
    using branch_left_atom [OF c [OF that], of "left j" E idem "fns ! j"] by (cases "left j = 0") (auto simp: branch_left_def)
  then have "joined (fst pc) \<noteq> Some (Inl e)" for e
    using assms by (intro joined_no_raise) (auto simp: replaying_def)
  moreover have "joined (fst pc) \<noteq> Some (Inr ws)" for ws
  proof
    assume "joined (fst pc) = Some (Inr ws)"
    moreover have "branch_left E idem (keys ! i) (fns ! i) (vs ! i) (left i) \<in> set (fst pc)"
      using assms i(1) by (auto simp: replaying_def)
    ultimately have "\<exists>x. branch_left E idem (keys ! i) (fns ! i) (vs ! i) (left i) = Ret x" by (rule joined_done)
    then show False using branch_left_atom [OF c [OF i(1)] i(2), of E idem "fns ! i"] by auto
  qed
  ultimately have "joined (fst pc) = None" by (metis not_Some_eq sum.exhaust)
  then show ?thesis using False by simp
qed

lemma until_replaying:
  "replaying E idem keys fns vs \<sigma> left pc \<Longrightarrow> \<forall>i. left i \<le> 2 \<Longrightarrow>
   \<exists>left'. replaying E idem keys fns vs \<sigma> left' (until_joined sched pc) \<and>
     ((\<forall>i < length vs. left i \<le> count_list sched i) \<longrightarrow> (\<forall>i < length vs. left' i = 0))"
proof (induction sched arbitrary: pc left)
  case Nil
  then show ?case by auto
next
  case (Cons i sched)
  show ?case
  proof (cases "joined (fst pc) \<noteq> None")
    case True
    then have "\<forall>i < length vs. left i = 0" using replaying_joined [OF Cons.prems(1)] by (simp split: if_splits)
    with True Cons.prems show ?thesis by auto
  next
    case False
    show ?thesis
    proof (cases "i < length vs \<and> 0 < left i")
      case True
      let ?l = "left(i := if left i = 1 then 0 else 1)"
      have "?l j \<le> count_list sched j" if "left j \<le> count_list (i # sched) j" for j
        using that True Cons.prems(2) [rule_format, of i] by (cases "left i = 1") (auto split: if_splits)
      moreover have "\<forall>j. ?l j \<le> 2" using Cons.prems(2) by simp
      ultimately show ?thesis
        using Cons.IH [OF replaying_step [OF Cons.prems(1)], of i] True False by auto
    next
      case no: False
      then have "step_at i pc = pc"
        using Cons.prems(1) by (cases "i < length vs") (auto simp: replaying_def step_at_def branch_left_def)
      moreover have "left j \<le> count_list sched j" if "j < length vs" "left j \<le> count_list (i # sched) j" for j
        using that no by (auto split: if_splits)
      ultimately show ?thesis using Cons.IH [OF Cons.prems] False by auto
    qed
  qed
qed

section \<open>The properties\<close>

text \<open>
  The keys of a gather do not depend on what the branches do or on who runs first: they are those of
  the names \<open>name[0]\<close>, \<open>name[1]\<close>, and so on, in the order of the list, pairwise different, none given out
  before by this context, and after it exactly they are given out as well.
\<close>

theorem gather_keys:
  fixes s :: "('st, 'x) sys" and name :: string and n :: nat
  defines "nms \<equiv> map (branch_name name) [0..<n]"
  shows "\<exists>c'. run (next_keys nms) (s, c) = ((s, c'), map (\<lambda>nm. step_key nm (ordinal c nm + 1)) nms) \<and>
    distinct (map (\<lambda>nm. step_key nm (ordinal c nm + 1)) nms) \<and>
    (\<forall>nm. \<not> issued c (step_key nm (ordinal c nm + 1))) \<and>
    (\<forall>key. issued c' key \<longleftrightarrow> issued c key \<or> key \<in> set (map (\<lambda>nm. step_key nm (ordinal c nm + 1)) nms))"
proof -
  have "distinct nms" unfolding nms_def by (rule distinct_names)
  then show ?thesis
    using run_next_keys [of nms s c] issued_count_up [of nms c]
    by (auto simp: fresh_keys_def distinct_map inj_on_def step_key_inj)
qed

lemma gather_keys_witness:
  "distinct (snd (run (next_keys (map (branch_name ''fan'') [0..<2])) (demo_sys, demo_ctx)))"
  using gather_keys [of "''fan''" 2 demo_sys demo_ctx] by auto

text \<open>
  C18. A gather whose branches are all recorded is replayed whatever the schedule: no branch does anything
  but count itself as replayed, the system stays as it is, and as soon as every branch has had its two turns
  the results are returned, in the order of the list and not in that of the schedule.
\<close>

theorem gather_replayed:
  fixes E :: "('st, 'x) deps" and s :: "('st, 'x) sys"
  assumes "length vs = length fns"
    and "\<And>i. i < length fns \<Longrightarrow>
      cx_completed c (step_key (branch_name name i) (ordinal c (branch_name name i) + 1)) = Some (vs ! i)"
  shows "case gather E name fns idem sched (s, c) of (ps, \<sigma>, res) \<Rightarrow>
    fst \<sigma> = s \<and> res \<in> {None, Some (Inr vs)} \<and>
    ((\<forall>i < length fns. 2 \<le> count_list sched i) \<longrightarrow>
       res = Some (Inr vs) \<and> cx_replayed_steps (snd \<sigma>) = cx_replayed_steps c + length fns)"
proof -
  define nms where "nms = map (branch_name name) [0..<length fns]"
  have d: "distinct nms" unfolding nms_def by (rule distinct_names)
  let ?keys = "fresh_keys c nms" and ?c = "count_up c nms" and ?n = "length vs"
  have keys: "?keys ! i = step_key (branch_name name i) (ordinal c (branch_name name i) + 1)" if "i < ?n" for i
    using that assms(1) by (simp add: fresh_keys_def nms_def)
  have "map2 (branch E idem) ?keys fns = map (\<lambda>i. branch_left E idem (?keys ! i) (fns ! i) (vs ! i) 2) [0..<?n]"
    by (rule nth_equalityI) (simp_all add: assms(1) fresh_keys_def nms_def branch_left_def)
  then have "replaying E idem ?keys fns vs (s, ?c) (\<lambda>_. 2) (map2 (branch E idem) ?keys fns, (s, ?c))"
    using assms keys by (simp add: replaying_def)
  from until_replaying [OF this, of sched] obtain left where
    left: "replaying E idem ?keys fns vs (s, ?c) left (until_joined sched (map2 (branch E idem) ?keys fns, (s, ?c)))"
      "(\<forall>i < ?n. 2 \<le> count_list sched i) \<longrightarrow> (\<forall>i < ?n. left i = 0)" by auto
  obtain ps \<sigma> where u: "until_joined sched (map2 (branch E idem) ?keys fns, (s, ?c)) = (ps, \<sigma>)"
    by (cases "until_joined sched (map2 (branch E idem) ?keys fns, (s, ?c))")
  have g: "gather E name fns idem sched (s, c) = (ps, \<sigma>, joined ps)"
    by (simp add: gather_def run_next_keys [OF d] flip: nms_def) (simp add: u)
  have "joined ps = (if \<forall>i < ?n. left i = 0 then Some (Inr vs) else None)"
    using replaying_joined [OF left(1)] by (simp add: u)
  moreover have "fst \<sigma> = s" "cx_replayed_steps (snd \<sigma>) = cx_replayed_steps c + card {i. i < ?n \<and> left i = 0}"
    using left(1) by (simp_all add: replaying_def u)
  moreover have "card {i. i < ?n \<and> left i = 0} = ?n" if "\<forall>i < ?n. left i = 0"
  proof -
    have "{i. i < ?n \<and> left i = 0} = {..<?n}" using that by auto
    then show ?thesis by simp
  qed
  ultimately show ?thesis using left(2) assms(1) by (simp add: g)
qed

lemma gather_replayed_witness:
  "snd (snd (gather demo ''fan'' [broken_fn, broken_fn] AT_LEAST_ONCE [1, 0, 1, 0]
     (demo_sys, demo_ctx\<lparr>cx_completed := [''fan[0]#1'' \<mapsto> PInt 5, ''fan[1]#1'' \<mapsto> PInt 6]\<rparr>))) = Some (Inr [PInt 5, PInt 6])"
proof -
  let ?c = "demo_ctx\<lparr>cx_completed := [''fan[0]#1'' \<mapsto> PInt 5, ''fan[1]#1'' \<mapsto> PInt 6]\<rparr>"
  have dg: "digit 0 = CHR ''0''" "digit (Suc 0) = CHR ''1''" by code_simp+
  have rec: "cx_completed ?c (step_key (branch_name ''fan'' i) (ordinal ?c (branch_name ''fan'' i) + 1)) = Some ([PInt 5, PInt 6] ! i)"
    if "i < length [broken_fn, broken_fn]" for i
    using that by (auto simp: less_Suc_eq branch_name_def step_key_def ordinal_def str_nat.simps dg)
  have "\<forall>i < length [broken_fn, broken_fn]. 2 \<le> count_list [1, 0, 1, 0] i" by (auto simp: less_Suc_eq)
  then show ?thesis
    using gather_replayed [of "[PInt 5, PInt 6]" "[broken_fn, broken_fn]", OF _ rec, where E = demo and idem = AT_LEAST_ONCE and sched = "[1, 0, 1, 0]" and s = demo_sys]
    by (simp split: prod.splits)
qed

end
