(* ===== verification/Tasks.thy ===== *)
theory Tasks
  imports Gather Steps
begin

text \<open>
  Several steps at the same time in one attempt: the branches of a gather of \<open>src/anchor/context.py\<close>, and those
  that run on after one of them has raised, on the context they share. A machine starts steps under new keys,
  lets any of them do its next atom, dies at any moment and begins again from the log, while the rest of the
  system goes on beside it. Every step is disturbed by the others only outside its own key (\<open>elsewhere\<close>), so
  the triples of \<open>Step_Inv\<close> hold for each, and together they keep the step protocol.
\<close>

section \<open>The machine\<close>

text \<open>What a step can call: a function, a tool, the model.\<close>

datatype 'x call =
    Fn_Call "'x pyfn" pydict
  | Tool_Call "'x tool_spec" pydict
  | Model_Call model_request

fun call_body :: "('st, 'x) deps \<Rightarrow> 'x call \<Rightarrow> ('st, 'x) body" where
  "call_body E (Fn_Call fn args) = call_fn fn args"
| "call_body E (Tool_Call spec args) = tool_body spec args"
| "call_body E (Model_Call req) = model_body E req"

definition call_verify :: "('x pyfn \<times> pydict) option \<Rightarrow> ('st, 'x) body option" where
  "call_verify verify = map_option (\<lambda>(v, args). call_fn v args) verify"

text \<open>A function that never raises what the retry loop handles, whoever disturbs it.\<close>

definition sure_fn :: "'x pyfn \<Rightarrow> pydict \<Rightarrow> bool" where
  "sure_fn fn args \<longleftrightarrow> (\<forall>rid token. all_results (body_result (\<lambda>_. True) True) (invoke fn rid token args))"

fun sure_call :: "'x call \<Rightarrow> bool" where
  "sure_call (Fn_Call fn args) = sure_fn fn args"
| "sure_call (Tool_Call spec args) = sure_fn (ts_fn spec) args"
| "sure_call (Model_Call req) = False"

text \<open>What goes on beside the process: requests, the queue, other runs, plain events, the clock, the world.\<close>

inductive beside :: "('st, 'x) deps \<Rightarrow> uuid \<Rightarrow> ('st, 'x) sys \<Rightarrow> ('st, 'x) sys \<Rightarrow> bool" for E r s where
  submit: "beside E r s (s\<lparr>sy_db := fst (st_submit_run (d_store E) (sy_now s) r' wn p k b (sy_db s))\<rparr>)"
| cancel: "beside E r s (s\<lparr>sy_db := fst (st_request_cancel (d_store E) (sy_now s) r' (sy_db s))\<rparr>)"
| claim: "beside E r s (s\<lparr>sy_db := fst (st_claim (d_store E) (sy_now s) w l (sy_db s))\<rparr>)"
| heartbeat: "beside E r s (s\<lparr>sy_db := fst (st_heartbeat (d_store E) (sy_now s) r' w l (sy_db s))\<rparr>)"
| release: "beside E r s (s\<lparr>sy_db := st_release (d_store E) (sy_now s) r' w l (sy_db s)\<rparr>)"
| dequeue: "beside E r s (s\<lparr>sy_db := st_dequeue (d_store E) r' (sy_db s)\<rparr>)"
| bump: "beside E r s (s\<lparr>sy_db := fst (st_bump_attempt (d_store E) (sy_now s) r' (sy_db s))\<rparr>)"
| status: "beside E r s (s\<lparr>sy_db := fst (st_set_status (d_store E) (sy_now s) r' st res err (sy_db s))\<rparr>)"
| usage: "beside E r s (s\<lparr>sy_db := st_save_usage (d_store E) (sy_now s) r' u (sy_db s)\<rparr>)"
| event:
    "r' \<noteq> r \<or> plain_event ty \<Longrightarrow>
     beside E r s (s\<lparr>sy_db := fst (st_append_event (d_store E) (sy_now s) r' ty sk p (sy_db s))\<rparr>)"
| called: "r' \<noteq> r \<Longrightarrow> beside E r s (s\<lparr>sy_calls := sy_calls s @ [(r', key)]\<rparr>)"
| tick: "beside E r s (s\<lparr>sy_now := t\<rparr>)"
| world: "beside E r s (s\<lparr>sy_ext := x\<rparr>)"

text \<open>
  The process: dead, or a context and the steps begun on it, each where it stands. The names in \<open>N\<close> are used
  for at-most-once steps that never raise.
\<close>

text \<open>An attempt has the lease guard of its worker, or none.\<close>

definition attempt_deps :: "('st, 'x) deps \<Rightarrow> string option \<Rightarrow> uuid \<Rightarrow> ('st, 'x) deps" where
  "attempt_deps E w r = (case w of None \<Rightarrow> E\<lparr>d_lease_guard := None\<rparr> | Some w \<Rightarrow> guarded E w r)"

type_synonym ('st, 'x) process = "(ctx \<times> ('st, 'x, (pyval \<times> bool) py_result) ctx_prog list) option"

inductive tasks :: "('st, 'x) deps \<Rightarrow> string set \<Rightarrow> uuid \<Rightarrow> ('st, 'x) sys \<Rightarrow> ('st, 'x) sys \<times> ('st, 'x) process \<Rightarrow> bool"
  for E N r s0 where
  start: "tasks E N r s0 (s0, None)"
| attempt:
    "tasks E N r s0 (s, None) \<Longrightarrow> rr_run_id rr = r \<Longrightarrow>
     tasks E N r s0 (s, Some (new_context rr (st_load_events (d_store E) r (sy_db s)), []))"
| spawn:
    "tasks E N r s0 (s, Some (c, ps)) \<Longrightarrow> nm \<in> N \<longrightarrow> idem = AT_MOST_ONCE \<and> sure_call call \<Longrightarrow>
     run (next_key nm) (s, c) = ((s', c'), key) \<Longrightarrow>
     tasks E N r s0 (s', Some (c', ps @ [step_with_key (attempt_deps E w r) key (call_body E call) idem (call_verify verify) n]))"
| step:
    "tasks E N r s0 (s, Some (c, ps)) \<Longrightarrow> step_at i (ps, (s, c)) = (ps', (s', c')) \<Longrightarrow>
     tasks E N r s0 (s', Some (c', ps'))"
| spent: "tasks E N r s0 (s, Some (c, ps)) \<Longrightarrow> tasks E N r s0 (s, Some (c\<lparr>cx_budget := b\<rparr>, ps))"
| kill: "tasks E N r s0 (s, x) \<Longrightarrow> tasks E N r s0 (s, None)"
| other: "tasks E N r s0 (s, x) \<Longrightarrow> beside E r s s' \<Longrightarrow> tasks E N r s0 (s', x)"

section \<open>Bodies\<close>

lemma results_outside: "all_results A p \<Longrightarrow> all_results A (outside p)"
  unfolding outside_def by (rule results_lift)

lemma results_call_fn: "sure_fn fn args \<Longrightarrow> all_results (body_result (\<lambda>_. True) True) (call_fn fn args token)"
  unfolding call_fn_def sure_fn_def by (auto intro!: results_bind results_outside)

lemma body_result_any: "body_result (\<lambda>_. True) False x"
  by (simp add: body_result_def split: sum.split)

lemma quiet_call_body: "guar quiet (call_body E call token)"
  by (cases call) (simp_all add: quiet_call_fn quiet_tool_body quiet_model_body)

lemma fit_call_body: "(sure \<Longrightarrow> sure_call call) \<Longrightarrow> fit_body R (\<lambda>_. True) sure (call_body E call token)"
proof (rule fit_body_results [OF quiet_call_body])
  assume s: "sure \<Longrightarrow> sure_call call"
  show "all_results (body_result (\<lambda>_. True) sure) (call_body E call token)"
  proof (cases sure)
    case True
    with s show ?thesis
      by (cases call) (auto simp: tool_body_def intro!: results_bind results_call_fn)
  next
    case False
    have "body_result (\<lambda>_. True) False = (\<lambda>_. True)" by (rule ext) (simp add: body_result_any)
    then show ?thesis using False by (simp add: results_True)
  qed
qed

lemma branch_call: "branch E idem key fn = step_with_key E key (call_body E' (Fn_Call fn [])) idem (call_verify None) None"
  by (simp add: branch_def call_verify_def)

context log_store
begin

lemma good_attempt_deps: "d_store E = S \<Longrightarrow> good_deps (attempt_deps E w r)"
  by (cases w) (simp_all add: attempt_deps_def good_deps_guarded good_deps_unguarded)

lemma fit_call_verify: "fit_verifier R (\<lambda>_. True) token (call_verify verify)"
proof -
  have "body_result (\<lambda>v :: pyval. v = PNone \<or> True) False = (\<lambda>_. True)" by (rule ext) (simp add: body_result_any)
  then have "fit_body R (\<lambda>v. v = PNone \<or> True) False (call_fn v args token)" for v args
    by (intro fit_body_results quiet_call_fn) (simp add: results_True)
  then show ?thesis by (auto simp: fit_verifier_def call_verify_def split: prod.splits)
qed

section \<open>A step leaves the other keys alone\<close>

definition leaves :: "uuid \<Rightarrow> string \<Rightarrow> ('st, 'x) sys \<times> ctx \<Rightarrow> ('st, 'x) sys \<times> ctx \<Rightarrow> bool" where
  "leaves r key \<sigma> \<sigma>' \<longleftrightarrow>
     (\<forall>k. k \<noteq> key \<longrightarrow> elsewhere r k \<sigma> \<sigma>') \<and> (\<forall>k. issued (snd \<sigma>) k \<longrightarrow> issued (snd \<sigma>') k)"

lemma elsewhere_db:
  assumes "has_run r (sy_db s) \<Longrightarrow> has_run r d \<and>
      (\<exists>es. st_load_events S r d = st_load_events S r (sy_db s) @ es \<and> (\<forall>e \<in> set es. foreign key e))"
  shows "elsewhere r key (s, c) (s\<lparr>sy_db := d\<rparr>, c)"
  using assms by (auto simp: elsewhere_def log_of_def calls_of_def)

lemma grown_foreign:
  "keyless_growth S r d d' \<Longrightarrow> \<exists>es. st_load_events S r d' = st_load_events S r d @ es \<and> (\<forall>e \<in> set es. foreign key e)"
  by (erule keyless_growthE) (auto intro: foreign_keyless)

lemma appended_foreign:
  assumes "has_run r d" and "r' \<noteq> r \<or> plain_event ty \<or> sk \<noteq> Some key"
  shows "\<exists>es. st_load_events S r (fst (st_append_event S t r' ty sk p d)) = st_load_events S r d @ es \<and>
    (\<forall>e \<in> set es. foreign key e)"
proof (cases "json_ok p")
  case True
  show ?thesis
  proof (cases "r' = r")
    case same: True
    obtain e where e: "ev_type e = ty" "ev_step_key e = sk"
      "st_load_events S r (fst (st_append_event S t r ty sk p d)) = st_load_events S r d @ [e]"
      using load_append [OF assms(1) True] by blast
    then have "foreign key e" using assms(2) same by (auto simp: foreign_def)
    with e(3) same show ?thesis by auto
  next
    case False
    then show ?thesis by (intro grown_foreign load_append_other assms(1))
  qed
next
  case False
  then obtain e where "st_append_event S t r' ty sk p d = (d, Inl e)" using append_bad by blast
  then show ?thesis by simp
qed

lemma quiet_leaves: "quiet \<sigma> \<sigma>' \<Longrightarrow> leaves r key \<sigma> \<sigma>'"
  by (auto simp: quiet_def leaves_def elsewhere_def log_of_def calls_of_def)

lemma admits_leaves:
  assumes E: "good_deps E"
  shows "admits_at E key (leaves r key)"
proof -
  have db: "leaves r key (s, c) (s\<lparr>sy_db := d\<rparr>, c)"
    if "has_run r (sy_db s) \<Longrightarrow> has_run r d \<and> keyless_growth S r (sy_db s) d" for s :: "('st, 'a) sys" and c d
    using that unfolding leaves_def by (auto intro!: elsewhere_db dest: grown_foreign)
  have app: "leaves r key (s, c) (s\<lparr>sy_db := fst (st_append_event S (sy_now s) (cx_run_id c) ty (Some key) p (sy_db s))\<rparr>, c)"
    for s :: "('st, 'a) sys" and c ty p
    unfolding leaves_def by (auto intro!: elsewhere_db has_append appended_foreign)
  have "leaves r key (s, c) (s, c')"
    if "cx_run c' = cx_run c" "cx_ordinals c' = cx_ordinals c"
      "\<forall>k. k \<noteq> key \<longrightarrow> cx_completed c' k = cx_completed c k \<and> cx_unresolved c' k = cx_unresolved c k"
    for s :: "('st, 'a) sys" and c c'
    using that by (auto simp: leaves_def elsewhere_def issued_def ordinal_def cx_run_id_def intro: exI [of _ "[]"])
  moreover have "leaves r key (s, c) (s\<lparr>sy_now := t\<rparr>, c)" for s :: "('st, 'a) sys" and c t
    by (auto simp: leaves_def elsewhere_def log_of_def calls_of_def)
  moreover have "leaves r key (s, c) (s\<lparr>sy_calls := sy_calls s @ [(cx_run_id c, key)]\<rparr>, c)" for s :: "('st, 'a) sys" and c
    by (auto simp: leaves_def elsewhere_def log_of_def calls_of_def)
  moreover have "leaves r key (s, c) (s\<lparr>sy_db := fst (guard (sy_now s) (sy_db s))\<rparr>, c)"
    if "d_lease_guard E = Some guard" for s :: "('st, 'a) sys" and c guard
    by (rule db) (use E that in \<open>auto simp: good_deps_def guard_keeps_def\<close>)
  moreover have "leaves r key (s, c) (s\<lparr>sy_db := st_save_usage S (sy_now s) (cx_run_id c) u (sy_db s)\<rparr>, c)"
    for s :: "('st, 'a) sys" and c u
    by (rule db) (simp add: has_save_usage load_save_usage)
  ultimately show ?thesis
    using E app unfolding admits_at_def good_deps_def by blast
qed

lemma step_leaves:
  assumes "good_deps E"
  shows "guar (leaves r key) (step_with_key E key (call_body E' call) idem (call_verify verify) n)"
proof (rule at_step_with_key [OF admits_leaves [OF assms]])
  show "guar (leaves r key) (call_body E' call tok)" for tok
    by (rule guar_mono [OF quiet_call_body]) (rule quiet_leaves)
  show "guar (leaves r key) (b tok)" if "call_verify verify = Some b" for b tok
    using that by (auto simp: call_verify_def split: prod.splits intro!: guar_mono [OF quiet_call_fn] quiet_leaves)
qed

section \<open>Many steps on one context\<close>

text \<open>A step under its key, where it stands: what it will do, undisturbed in its key, and what it leaves alone.\<close>

definition task_ok ::
  "(string \<Rightarrow> bool) \<Rightarrow> uuid \<Rightarrow> ('st, 'x) sys \<times> ctx \<Rightarrow> string \<Rightarrow> ('st, 'x, (pyval \<times> bool) py_result) ctx_prog \<Rightarrow> bool" where
  "task_ok amo r \<sigma> key p \<longleftrightarrow> issued (snd \<sigma>) key \<and> guar (leaves r key) p \<and>
     mid (elsewhere r key) (ctx_inv amo r) p (steps_to (\<lambda>_. True) amo r key) \<sigma>"

lemma task_moved: "task_ok amo r \<sigma> key p \<Longrightarrow> elsewhere r key \<sigma> \<sigma>' \<Longrightarrow> task_ok amo r \<sigma>' key p"
proof -
  assume t: "task_ok amo r \<sigma> key p" and e: "elsewhere r key \<sigma> \<sigma>'"
  have "mid (elsewhere r key) (ctx_inv amo r) p (steps_to (\<lambda>_. True) amo r key) \<sigma>'"
    by (rule mid_later [where R = "elsewhere r key" and s = \<sigma>])
      (use t e in \<open>auto simp: task_ok_def intro: elsewhere_trans\<close>)
  moreover have "issued (snd \<sigma>') key" using t e by (simp add: task_ok_def elsewhere_def)
  ultimately show ?thesis using t by (simp add: task_ok_def)
qed

lemma task_atom:
  assumes "task_ok amo r \<sigma> key (Atom f)" and "ctx_inv amo r \<sigma>"
  shows "ctx_inv amo r (fst (f \<sigma>)) \<and> task_ok amo r (fst (f \<sigma>)) key (snd (f \<sigma>)) \<and> leaves r key \<sigma> (fst (f \<sigma>))"
proof -
  have "guar (leaves r key) (Atom f)" using assms(1) by (simp add: task_ok_def)
  then have g: "leaves r key \<sigma> (fst (f \<sigma>))" "guar (leaves r key) (snd (f \<sigma>))"
    unfolding guar_Atom by blast+
  have "mid (elsewhere r key) (ctx_inv amo r) (Atom f) (steps_to (\<lambda>_. True) amo r key) \<sigma>"
    using assms(1) by (simp add: task_ok_def)
  then have "ctx_inv amo r (fst (f \<sigma>)) \<and>
      mid (elsewhere r key) (ctx_inv amo r) (snd (f \<sigma>)) (steps_to (\<lambda>_. True) amo r key) (fst (f \<sigma>))"
    unfolding mid_Atom using elsewhere_refl assms(2) by blast
  moreover have "issued (snd (fst (f \<sigma>))) key" using assms(1) g(1) by (simp add: task_ok_def leaves_def)
  ultimately show ?thesis using g by (simp add: task_ok_def)
qed

lemma task_done: "task_ok amo r \<sigma> key (Ret x) \<Longrightarrow> ctx_inv amo r \<sigma> \<Longrightarrow> steps_to (\<lambda>_. True) amo r key x \<sigma>"
  unfolding task_ok_def mid_Ret using elsewhere_refl by blast

definition tasks_ok ::
  "(string \<Rightarrow> bool) \<Rightarrow> uuid \<Rightarrow> string list \<Rightarrow> ('st, 'x, (pyval \<times> bool) py_result) ctx_prog list \<times> (('st, 'x) sys \<times> ctx) \<Rightarrow> bool" where
  "tasks_ok amo r keys pc \<longleftrightarrow>
     ctx_inv amo r (snd pc) \<and> distinct keys \<and> list_all2 (task_ok amo r (snd pc)) keys (fst pc)"

lemma tasks_ok_Nil: "ctx_inv amo r \<sigma> \<Longrightarrow> tasks_ok amo r [] ([], \<sigma>)"
  by (simp add: tasks_ok_def)

lemma tasks_ok_moved:
  "tasks_ok amo r keys (ps, \<sigma>) \<Longrightarrow> ctx_inv amo r \<sigma>' \<Longrightarrow> (\<And>key. key \<in> set keys \<Longrightarrow> elsewhere r key \<sigma> \<sigma>') \<Longrightarrow>
   tasks_ok amo r keys (ps, \<sigma>')"
  by (auto simp: tasks_ok_def list_all2_conv_all_nth intro!: task_moved [of amo r \<sigma> _ _ \<sigma>'])

text \<open>The atom of one step moves every other in what it is prepared for.\<close>

lemma tasks_ok_step: "tasks_ok amo r keys pc \<Longrightarrow> tasks_ok amo r keys (step_at i pc)"
proof (cases "i < length (fst pc) \<and> (\<exists>f. fst pc ! i = Atom f)")
  case True
  assume ok: "tasks_ok amo r keys pc"
  obtain ps \<sigma> where pc: "pc = (ps, \<sigma>)" by (cases pc)
  obtain f where f: "i < length ps" "ps ! i = Atom f" using True by (auto simp: pc)
  have len: "length keys = length ps" and d: "distinct keys" and inv: "ctx_inv amo r \<sigma>"
    and each: "\<And>j. j < length ps \<Longrightarrow> task_ok amo r \<sigma> (keys ! j) (ps ! j)"
    using ok by (auto simp: tasks_ok_def pc list_all2_conv_all_nth)
  note atom = task_atom [OF each [OF f(1), unfolded f(2)] inv]
  have "task_ok amo r (fst (f \<sigma>)) (keys ! j) (ps[i := snd (f \<sigma>)] ! j)" if "j < length ps" for j
  proof (cases "j = i")
    case False
    then have "keys ! j \<noteq> keys ! i" using d len that f(1) by (simp add: nth_eq_iff_index_eq)
    then have "elsewhere r (keys ! j) \<sigma> (fst (f \<sigma>))" using atom by (simp add: leaves_def)
    then show ?thesis using task_moved [OF each [OF that]] False by simp
  qed (use atom f(1) in simp)
  then show ?thesis
    using atom d len f by (simp add: tasks_ok_def pc step_at_def list_all2_conv_all_nth)
next
  case False
  assume "tasks_ok amo r keys pc"
  moreover have "step_at i pc = pc" using False by (auto simp: step_at_def split: prog.splits)
  ultimately show ?thesis by simp
qed

lemma tasks_ok_joined: "tasks_ok amo r keys pc \<Longrightarrow> tasks_ok amo r keys (until_joined sched pc)"
  by (induction sched arbitrary: pc) (simp_all add: tasks_ok_step)

text \<open>A step under a new key.\<close>

lemma tasks_ok_spawn:
  assumes ok: "tasks_ok (keys_of N) r keys (ps, (s, c))" and E: "good_deps E"
    and nm: "nm \<in> N \<Longrightarrow> idem = AT_MOST_ONCE \<and> sure_call call" and k: "run (next_key nm) (s, c) = (\<sigma>, key)"
  shows "tasks_ok (keys_of N) r (keys @ [key])
    (ps @ [step_with_key E key (call_body E' call) idem (call_verify verify) n], \<sigma>)"
proof -
  let ?c = "c\<lparr>cx_ordinals := (cx_ordinals c)(nm \<mapsto> ordinal c nm + 1)\<rparr>"
  have inv: "ctx_inv (keys_of N) r (s, c)" using ok by (simp add: tasks_ok_def)
  have key: "key = step_key nm (ordinal c nm + 1)" and \<sigma>: "\<sigma> = (s, ?c)"
    using k by (simp_all add: next_key_def Let_def)
  have at: "at_key (keys_of N) r key UNIV False \<sigma>" "agrees (log_of r (fst \<sigma>)) (snd \<sigma>) key"
    using triple_run [OF triple_next_key inv, of nm] k by simp_all
  have iss: "issued (snd \<sigma>) k \<longleftrightarrow> issued c k \<or> k = key" for k
    using issued_next [of c nm k] by (simp add: \<sigma> key)
  have new: "key \<notin> set keys"
    using ok next_key_fresh [of c nm] by (auto simp: tasks_ok_def list_all2_conv_all_nth task_ok_def key in_set_conv_nth)
  have else: "elsewhere r k (s, c) \<sigma>" for k
    using iss [of k] by (auto simp: elsewhere_def \<sigma>)
  have "amid (elsewhere r key) (ctx_inv (keys_of N) r)
      (\<lambda>\<sigma>. at_key (keys_of N) r key UNIV False \<sigma> \<and> agrees (log_of r (fst \<sigma>)) (snd \<sigma>) key)
      (step_with_key E key (call_body E' call) idem (call_verify verify) n) (steps_to (\<lambda>_. True) (keys_of N) r key)"
    by (rule during_step_with_key [OF rely_elsewhere E])
      (use nm key in \<open>auto intro: fit_call_body fit_call_verify\<close>)
  then have "mid (elsewhere r key) (ctx_inv (keys_of N) r)
      (step_with_key E key (call_body E' call) idem (call_verify verify) n) (steps_to (\<lambda>_. True) (keys_of N) r key) \<sigma>"
    using at at_key_ctx unfolding amid_def by blast
  then have "task_ok (keys_of N) r \<sigma> key (step_with_key E key (call_body E' call) idem (call_verify verify) n)"
    using iss step_leaves [OF E] by (simp add: task_ok_def)
  moreover have "tasks_ok (keys_of N) r keys (ps, \<sigma>)"
    by (rule tasks_ok_moved [OF ok at_key_ctx [OF at(1)] else])
  ultimately show ?thesis using new by (auto simp: tasks_ok_def intro!: list_all2_appendI)
qed

section \<open>What goes on beside them\<close>

lemma ctx_inv_beside:
  assumes "ctx_inv amo r (s, c)" and "log_inv amo r s'" and "\<And>key. elsewhere r key (s, c) (s', c)"
  shows "ctx_inv amo r (s', c)"
proof -
  have "agrees (log_of r s') c key" if "\<not> issued c key" for key
  proof -
    have a: "agrees (log_of r s) c key" using assms(1) that by (simp add: ctx_inv_def)
    show ?thesis
      using keptD [OF kept_agrees [OF rely_elsewhere, of r key "\<lambda>_. False"]] a
        elsewhereE [OF rely_elsewhere assms(3), of key] ctx_inv_has [OF assms(1)]
      by (simp add: agrees_def)
  qed
  then show ?thesis using assms(1,2) by (simp add: ctx_inv_def)
qed

text \<open>Moves that leave every key alone.\<close>

definition aside :: "uuid \<Rightarrow> ('st, 'x) sys \<Rightarrow> ('st, 'x) sys \<Rightarrow> bool" where
  "aside r s s' \<longleftrightarrow> (\<forall>amo. log_inv amo r s \<longrightarrow> log_inv amo r s') \<and> (\<forall>c key. elsewhere r key (s, c) (s', c))"

lemma aside_op:
  assumes "\<And>d. has_run r d \<Longrightarrow> has_run r (f d) \<and> keyless_growth S r d (f d)"
  shows "aside r s (s\<lparr>sy_db := f (sy_db s)\<rparr>)"
proof -
  have "elsewhere r key (s, c) (s\<lparr>sy_db := f (sy_db s)\<rparr>, c)" for c key
    by (rule elsewhere_db) (use assms [of "sy_db s"] grown_foreign in blast)
  then show ?thesis using spares_op [where f = f, OF assms] by (auto simp: aside_def spares_def)
qed

lemma aside_append:
  assumes "r' \<noteq> r \<or> plain_event ty"
  shows "aside r s (s\<lparr>sy_db := fst (st_append_event S t r' ty sk p (sy_db s))\<rparr>)"
proof (cases "r' = r")
  case True
  with assms have ty: "plain_event ty" by simp
  have "elsewhere r key (s, c) (s\<lparr>sy_db := fst (st_append_event S t r ty sk p (sy_db s))\<rparr>, c)" for c key
    by (rule elsewhere_db) (simp add: has_append appended_foreign ty)
  then show ?thesis using True ty by (simp add: aside_def log_inv_append)
qed (intro aside_op, simp add: has_append load_append_other)

lemma beside_aside:
  assumes E: "d_store E = S" and "beside E r s s'"
    and sub: "\<And>t r' wn p k b d. has_run r d \<Longrightarrow>
        has_run r (fst (st_submit_run S t r' wn p k b d)) \<and>
        keyless_growth S r d (fst (st_submit_run S t r' wn p k b d))"
  shows "aside r s s'"
  using assms(2)
proof cases
  case (event r' ty sk p)
  then show ?thesis by (simp add: E aside_append)
next
  case (called r' key)
  then show ?thesis by (simp add: aside_def log_inv_def log_of_def elsewhere_def calls_of_def)
next
  case (tick t)
  then show ?thesis by (simp add: aside_def log_inv_def log_of_def elsewhere_def calls_of_def)
next
  case (world x)
  then show ?thesis by (simp add: aside_def log_inv_def log_of_def elsewhere_def calls_of_def)
qed (simp_all only: E, (intro aside_op conjI; simp add: sub has_request_cancel load_request_cancel has_claim load_claim
    has_heartbeat load_heartbeat has_release load_release has_dequeue load_dequeue has_bump load_bump
    has_set_status load_set_status has_save_usage load_save_usage)+)

section \<open>The invariant of the machine\<close>

definition process_ok :: "(string \<Rightarrow> bool) \<Rightarrow> uuid \<Rightarrow> ('st, 'x) sys \<Rightarrow> ('st, 'x) process \<Rightarrow> bool" where
  "process_ok amo r s x \<longleftrightarrow> log_inv amo r s \<and>
     (case x of None \<Rightarrow> True | Some (c, ps) \<Rightarrow> \<exists>keys. tasks_ok amo r keys (ps, (s, c)))"

lemma process_ok_Some: "process_ok amo r s (Some (c, ps)) \<longleftrightarrow> (\<exists>keys. tasks_ok amo r keys (ps, (s, c)))"
  by (auto simp: process_ok_def tasks_ok_def dest: ctx_inv_log)

theorem tasks_inv:
  assumes E: "d_store E = S" and s0: "log_inv (keys_of N) r s0"
    and sub: "\<And>t r' wn p k b d. has_run r d \<Longrightarrow>
        has_run r (fst (st_submit_run S t r' wn p k b d)) \<and>
        keyless_growth S r d (fst (st_submit_run S t r' wn p k b d))"
    and t: "tasks E N r s0 (s, x)"
  shows "process_ok (keys_of N) r s x"
proof -
  have "process_ok (keys_of N) r (fst y) (snd y)" if "tasks E N r s0 y" for y
    using that
  proof (induction rule: tasks.induct)
    case (attempt s rr)
    then have "ctx_inv (keys_of N) r (s, new_context rr (log_of r s))"
      by (intro new_context_inv) (simp_all add: process_ok_def)
    from tasks_ok_Nil [OF this] show ?case by (auto simp: process_ok_Some E log_of_def simp del: split_paired_Ex)
  next
    case (spawn s c ps nm idem call s' c' key w verify n)
    then obtain keys where "tasks_ok (keys_of N) r keys (ps, (s, c))" by (auto simp: process_ok_Some)
    then have "tasks_ok (keys_of N) r (keys @ [key])
        (ps @ [step_with_key (attempt_deps E w r) key (call_body E call) idem (call_verify verify) n], (s', c'))"
      by (rule tasks_ok_spawn [OF _ good_attempt_deps [OF E] _ spawn.hyps(3)]) (use spawn.hyps(2) in blast)
    then show ?case unfolding fst_conv snd_conv process_ok_Some by blast
  next
    case (step s c ps i ps' s' c')
    then obtain keys where "tasks_ok (keys_of N) r keys (ps, (s, c))" by (auto simp: process_ok_Some)
    from tasks_ok_step [OF this, of i] show ?case
      unfolding step.hyps(2) fst_conv snd_conv process_ok_Some by blast
  next
    case (spent s c ps b)
    then obtain keys where ok: "tasks_ok (keys_of N) r keys (ps, (s, c))" by (auto simp: process_ok_Some)
    then have "ctx_inv (keys_of N) r (s, c\<lparr>cx_budget := b\<rparr>)" by (simp add: tasks_ok_def ctx_inv_def)
    then have "tasks_ok (keys_of N) r keys (ps, (s, c\<lparr>cx_budget := b\<rparr>))"
      by (rule tasks_ok_moved [OF ok]) (simp add: elsewhere_def)
    then show ?case by (auto simp: process_ok_Some)
  next
    case (kill s x)
    then show ?case by (simp add: process_ok_def)
  next
    case (other s x s')
    have a: "aside r s s'" by (rule beside_aside [OF E other.hyps(2) sub])
    then have l: "log_inv (keys_of N) r s'" using other.IH by (simp add: aside_def process_ok_def)
    show ?case
    proof (cases x)
      case (Some cps)
      obtain c ps where x: "x = Some (c, ps)" using Some by (cases cps) simp
      then obtain keys where ok: "tasks_ok (keys_of N) r keys (ps, (s, c))" using other.IH by (auto simp: process_ok_Some)
      have "ctx_inv (keys_of N) r (s', c)"
        by (rule ctx_inv_beside [where s = s, OF _ l]) (use ok a in \<open>simp_all add: tasks_ok_def aside_def\<close>)
      then have "tasks_ok (keys_of N) r keys (ps, (s', c))"
        by (rule tasks_ok_moved [OF ok]) (use a in \<open>simp add: aside_def\<close>)
      then show ?thesis by (auto simp: x process_ok_Some)
    qed (use l in \<open>simp add: process_ok_def\<close>)
  qed (use s0 in \<open>simp add: process_ok_def\<close>)
  from this [OF t] show ?thesis by simp
qed

section \<open>A gather among them\<close>

lemma tasks_ok_keys:
  assumes "tasks_ok (keys_of N) r keys (ps, \<sigma>)" and E: "good_deps E" and "length nms = length fns"
    and "\<And>i. i < length fns \<Longrightarrow> nms ! i \<in> N \<Longrightarrow> idem = AT_MOST_ONCE \<and> sure_fn (fns ! i) []"
  shows "tasks_ok (keys_of N) r (keys @ snd (run (next_keys nms) \<sigma>))
    (ps @ map2 (branch E idem) (snd (run (next_keys nms) \<sigma>)) fns, fst (run (next_keys nms) \<sigma>))"
  using assms(1,3,4)
proof (induction nms arbitrary: fns keys ps \<sigma>)
  case (Cons nm nms)
  then obtain fn fns' where fns: "fns = fn # fns'" by (cases fns) auto
  obtain s c where \<sigma>: "\<sigma> = (s, c)" by (cases \<sigma>)
  obtain \<sigma>' key where k: "run (next_key nm) (s, c) = (\<sigma>', key)" by (metis surj_pair)
  have nm: "nm \<in> N \<Longrightarrow> idem = AT_MOST_ONCE \<and> sure_call (Fn_Call fn [])"
    using Cons.prems(3) [of 0] by (simp add: fns)
  have "tasks_ok (keys_of N) r (keys @ [key]) (ps @ [branch E idem key fn], \<sigma>')"
    using tasks_ok_spawn [OF Cons.prems(1) [unfolded \<sigma>] E nm k, of E None None] by (simp add: branch_call [of E idem key fn E])
  moreover have "nms ! i \<in> N \<Longrightarrow> idem = AT_MOST_ONCE \<and> sure_fn (fns' ! i) []" if "i < length fns'" for i
    using Cons.prems(3) [of "Suc i"] that by (simp add: fns)
  ultimately have "tasks_ok (keys_of N) r ((keys @ [key]) @ snd (run (next_keys nms) \<sigma>'))
      ((ps @ [branch E idem key fn]) @ map2 (branch E idem) (snd (run (next_keys nms) \<sigma>')) fns', fst (run (next_keys nms) \<sigma>'))"
    using Cons.prems(2) by (intro Cons.IH) (simp_all add: fns)
  then show ?case by (simp add: \<sigma> k fns)
qed simp

text \<open>What the branches of a gather satisfy, wherever the schedule leaves them.\<close>

lemma gather_ok:
  assumes inv: "ctx_inv (keys_of N) r (s, c)" and E: "good_deps E"
    and N: "\<And>i. i < length fns \<Longrightarrow> branch_name name i \<in> N \<Longrightarrow> idem = AT_MOST_ONCE \<and> sure_fn (fns ! i) []"
    and g: "gather E name fns idem sched (s, c) = (ps, \<sigma>', res)"
  shows "tasks_ok (keys_of N) r (map (\<lambda>i. step_key (branch_name name i) (ordinal c (branch_name name i) + 1)) [0..<length fns])
    (ps, \<sigma>') \<and> res = joined ps"
proof -
  let ?nms = "map (branch_name name) [0..<length fns]"
  note keys = run_next_keys [OF distinct_names, where s = s and c = c, of name "length fns"]
  have "tasks_ok (keys_of N) r (fresh_keys c ?nms) (map2 (branch E idem) (fresh_keys c ?nms) fns, (s, count_up c ?nms))"
    using tasks_ok_keys [OF tasks_ok_Nil [OF inv] E, of ?nms fns idem] N by (simp add: keys)
  from tasks_ok_joined [OF this, of sched] g show ?thesis
    by (auto simp: gather_def keys fresh_keys_def comp_def split: prod.splits)
qed

end

lemma joined_values:
  "joined ps = Some (Inr vs) \<Longrightarrow> length vs = length ps \<and> (\<forall>i < length ps. \<exists>b. ps ! i = Ret (Inr (vs ! i, b)))"
  by (induction ps arbitrary: vs rule: joined.induct)
    (auto split: option.splits sum.splits simp: nth_Cons' less_Suc_eq_0_disj)

text \<open>The machine can do what a gather does, on a context on which other steps may have been left.\<close>

lemma step_at_right: "step_at (length ps + i) (ps @ qs, \<sigma>) = (ps @ fst (step_at i (qs, \<sigma>)), snd (step_at i (qs, \<sigma>)))"
  by (simp add: step_at_def list_update_append split: prog.split)

lemma tasks_until_joined:
  "tasks E N r s0 (fst (snd qc), Some (snd (snd qc), ps @ fst qc)) \<Longrightarrow>
   tasks E N r s0 (fst (snd (until_joined sched qc)), Some (snd (snd (until_joined sched qc)), ps @ fst (until_joined sched qc)))"
proof (induction sched arbitrary: qc)
  case (Cons i sched)
  obtain qs s c where qc: "qc = (qs, (s, c))" by (metis surj_pair)
  obtain qs' s' c' where st: "step_at i (qs, (s, c)) = (qs', (s', c'))" by (metis surj_pair)
  have "tasks E N r s0 (s', Some (c', ps @ qs'))"
    by (rule tasks.step [of E N r s0 s c "ps @ qs" "length ps + i"]) (use Cons.prems in \<open>simp_all add: qc step_at_right st\<close>)
  then show ?case using Cons.IH [of "step_at i qc"] Cons.prems by (simp add: qc st)
qed simp

lemma tasks_next_keys:
  assumes "tasks E N r s0 (fst \<sigma>, Some (snd \<sigma>, ps))" and "length nms = length fns"
    and "\<And>i. i < length fns \<Longrightarrow> nms ! i \<in> N \<Longrightarrow> idem = AT_MOST_ONCE \<and> sure_fn (fns ! i) []"
  shows "tasks E N r s0 (fst (fst (run (next_keys nms) \<sigma>)), Some (snd (fst (run (next_keys nms) \<sigma>)),
    ps @ map2 (branch (attempt_deps E w r) idem) (snd (run (next_keys nms) \<sigma>)) fns))"
  using assms
proof (induction nms arbitrary: fns ps \<sigma>)
  case (Cons nm nms)
  then obtain fn fns' where fns: "fns = fn # fns'" by (cases fns) auto
  obtain s c where \<sigma>: "\<sigma> = (s, c)" by (cases \<sigma>)
  obtain s' c' key where k: "run (next_key nm) (s, c) = ((s', c'), key)" by (metis surj_pair)
  have "tasks E N r s0 (s', Some (c', ps @ [branch (attempt_deps E w r) idem key fn]))"
    unfolding branch_call [of "attempt_deps E w r" idem key fn E]
    by (rule tasks.spawn [OF _ _ k]) (use Cons.prems(1) Cons.prems(3) [of 0] in \<open>simp_all add: \<sigma> fns\<close>)
  moreover have "nms ! i \<in> N \<Longrightarrow> idem = AT_MOST_ONCE \<and> sure_fn (fns' ! i) []" if "i < length fns'" for i
    using Cons.prems(3) [of "Suc i"] that by (simp add: fns)
  ultimately show ?case
    using Cons.IH [of "(s', c')" "ps @ [branch (attempt_deps E w r) idem key fn]" fns'] Cons.prems(2)
    by (simp add: \<sigma> k fns)
qed simp

theorem gather_tasks:
  assumes "tasks E N r s0 (s, Some (c, ps))"
    and "\<And>i. i < length fns \<Longrightarrow> branch_name name i \<in> N \<Longrightarrow> idem = AT_MOST_ONCE \<and> sure_fn (fns ! i) []"
    and "gather (attempt_deps E w r) name fns idem sched (s, c) = (qs, (s', c'), res)"
  shows "tasks E N r s0 (s', Some (c', ps @ qs))"
proof -
  let ?nms = "map (branch_name name) [0..<length fns]"
  obtain \<sigma>1 keys where k: "run (next_keys ?nms) (s, c) = (\<sigma>1, keys)" by (metis surj_pair)
  let ?qc = "(map2 (branch (attempt_deps E w r) idem) keys fns, \<sigma>1)"
  have "tasks E N r s0 (fst \<sigma>1, Some (snd \<sigma>1, ps @ map2 (branch (attempt_deps E w r) idem) keys fns))"
    using tasks_next_keys [of E N r s0 "(s, c)" ps ?nms fns idem w] assms(1,2) by (simp add: k)
  then have "tasks E N r s0 (fst (snd (until_joined sched ?qc)),
      Some (snd (snd (until_joined sched ?qc)), ps @ fst (until_joined sched ?qc)))"
    using tasks_until_joined [where qc = ?qc] by simp
  then show ?thesis using assms(3) by (auto simp: gather_def k split: prod.splits)
qed

section \<open>The properties\<close>

lemma pg_tasks_inv:
  assumes "d_store E = pg_store" and "pg_has_run r (sy_db s0)"
    and "\<forall>e \<in> set (pg_load_events r (sy_db s0)). ev_step_key e = None"
    and "r \<notin> fst ` set (sy_calls s0)" and "tasks E N r s0 (s, x)"
  shows "pg_log.process_ok (keys_of N) r s x"
proof (rule pg_log.tasks_inv [OF assms(1) _ _ assms(5)])
  show "pg_log.log_inv (keys_of N) r s0" using assms(2-4) by (intro pg_log.log_inv_start) simp_all
qed (rule pg_grow_submit)

lemma pg_tasks_key:
  assumes "pg_log.log_inv amo r s"
  shows "key_inv amo (pg_load_events r (sy_db s)) (calls_of s r key) key"
  using assms by (simp add: pg_log.log_inv_def pg_log.log_of_def)


text \<open>
  C19. A gather returns what the log records. On a context on which anything of the above may have happened,
  a gather that gets all its results, under whatever schedule, returns one for every branch in the order of
  the list; each branch's key is recorded exactly once, with the value returned or with what JSON makes of
  it, which is what a replay gives back.
\<close>

theorem gather_recorded:
  assumes "d_store E = pg_store" and "pg_has_run r (sy_db s0)"
    and "\<forall>e \<in> set (pg_load_events r (sy_db s0)). ev_step_key e = None"
    and "r \<notin> fst ` set (sy_calls s0)" and "tasks E {} r s0 (s, Some (c, qs))"
    and g: "gather (attempt_deps E w r) name fns idem sched (s, c) = (ps, (s', c'), Some (Inr vs))" and i: "i < length fns"
  shows "length vs = length fns \<and>
    count_events (pg_load_events r (sy_db s')) (step_key (branch_name name i) (ordinal c (branch_name name i) + 1)) STEP_COMPLETED = 1 \<and>
    (let v = fst (build_replay_state (pg_load_events r (sy_db s'))) (step_key (branch_name name i) (ordinal c (branch_name name i) + 1))
     in v = Some (vs ! i) \<or> v = Some (json_norm (vs ! i)))"
proof -
  let ?keys = "map (\<lambda>i. step_key (branch_name name i) (ordinal c (branch_name name i) + 1)) [0..<length fns]"
  let ?l = "pg_load_events r (sy_db s')" and ?key = "?keys ! i"
  have "pg_log.ctx_inv (keys_of {}) r (s, c)"
    using pg_tasks_inv [OF assms(1-5)] by (auto simp: pg_log.process_ok_Some pg_log.tasks_ok_def)
  from pg_log.gather_ok [OF this pg_log.good_attempt_deps [OF assms(1)] _ g]
  have ok: "pg_log.tasks_ok (keys_of {}) r ?keys (ps, (s', c'))" and j: "joined ps = Some (Inr vs)" by simp_all
  have len: "length ps = length fns" using ok by (auto simp: pg_log.tasks_ok_def dest: list_all2_lengthD)
  obtain b where b: "ps ! i = Ret (Inr (vs ! i, b))" using joined_values [OF j] i len by auto
  have "pg_log.task_ok (keys_of {}) r (s', c') ?key (Ret (Inr (vs ! i, b)))"
    using ok i len b by (auto simp: pg_log.tasks_ok_def list_all2_conv_all_nth simp del: nth_map)
  then have "pg_log.steps_to (\<lambda>_. True) (keys_of {}) r ?key (Inr (vs ! i, b)) (s', c')"
    using ok by (intro pg_log.task_done) (simp_all add: pg_log.tasks_ok_def)
  then have v: "fst (build_replay_state ?l) ?key = Some (vs ! i) \<or> fst (build_replay_state ?l) ?key = Some (json_norm (vs ! i))"
    and ph: "phase ?l ?key \<noteq> Violated"
    using pg_log.log_inv_key [of "keys_of {}" r s' ?key] pg_log.at_key_log
    by (fastforce simp: pg_log.steps_to_def pg_log.known_def pg_log.recorded_as_def pg_log.log_of_def)+
  then have "phase ?l ?key = Recorded" using replay_phase [OF ph] by auto
  then have "count_events ?l ?key STEP_COMPLETED = 1" using count_completed [OF ph] by simp
  then show ?thesis using v joined_values [OF j] len i by (auto simp: Let_def)
qed

section \<open>The hypotheses hold\<close>

text \<open>Two payments at the same time, on a first attempt that is killed and on a second one.\<close>

definition demo_fan :: "nat list \<Rightarrow> (pg, uuid list) sys \<Rightarrow> (pg, uuid list) sys" where
  "demo_fan sched s = fst (fst (snd (gather demo ''fan'' [pay_fn, pay_fn] AT_MOST_ONCE sched
     (s, new_context demo_run (pg_load_events 7 (sy_db s))))))"

lemma demo_attempt [simp]: "attempt_deps demo None r = demo"
  by (simp add: attempt_deps_def demo_def)

lemma sure_pay: "sure_fn pay_fn []"
  by (simp add: sure_fn_def invoke_def pay_fn_def body_result_def atom_def)

lemma tasks_demo_fan:
  assumes "tasks demo N 7 demo_sys (s, None)"
  shows "tasks demo N 7 demo_sys (demo_fan sched s, None)"
proof -
  have a: "tasks demo N 7 demo_sys (s, Some (new_context demo_run (pg_load_events 7 (sy_db s)), []))"
    using tasks.attempt [OF assms, of demo_run] by (simp add: demo_run_def to_run_def new_run_row_def)
  obtain qs s' c' res where g: "gather (attempt_deps demo None 7) ''fan'' [pay_fn, pay_fn] AT_MOST_ONCE sched
      (s, new_context demo_run (pg_load_events 7 (sy_db s))) = (qs, (s', c'), res)" by (metis surj_pair)
  have "tasks demo N 7 demo_sys (s', Some (c', [] @ qs))"
    by (rule gather_tasks [OF a _ g]) (auto simp: less_Suc_eq sure_pay)
  then have "tasks demo N 7 demo_sys (s', None)" by (rule tasks.kill)
  moreover have "demo_fan sched s = s'" using g by (simp add: demo_fan_def)
  ultimately show ?thesis by simp
qed


text \<open>One branch, run to its end.\<close>

lemma until_alone: "\<exists>n. until_joined (replicate n 0) ([p], \<sigma>) = ([Ret (snd (run p \<sigma>))], fst (run p \<sigma>))"
proof (induction p arbitrary: \<sigma>)
  case (Ret x)
  show ?case by (rule exI [of _ 0]) simp
next
  case (Atom f)
  obtain n where "until_joined (replicate n 0) ([snd (f \<sigma>)], fst (f \<sigma>)) =
      ([Ret (snd (run (snd (f \<sigma>)) (fst (f \<sigma>))))], fst (run (snd (f \<sigma>)) (fst (f \<sigma>))))"
    using Atom by blast
  then have "until_joined (replicate (Suc n) 0) ([Atom f], \<sigma>) = ([Ret (snd (run (Atom f) \<sigma>))], fst (run (Atom f) \<sigma>))"
    by (simp add: step_at_def)
  then show ?case by blast
qed

lemma gather_recorded_witness:
  "\<exists>n ps s' c' b. gather demo ''fan'' [pay_fn] AT_MOST_ONCE (replicate n 0) (demo_sys, demo_ctx) =
      (ps, (s', c'), Some (Inr [PStr ''paid''])) \<and>
    count_events (pg_load_events 7 (sy_db s')) (step_key (branch_name ''fan'' 0) 1) STEP_COMPLETED = 1"
proof -
  let ?key = "step_key (branch_name ''fan'' 0) 1" and ?c = "count_up demo_ctx [branch_name ''fan'' 0]"
  have c: "cx_run_id ?c = 7" "bt_budget (cx_budget ?c) = no_budget" "cx_completed ?c ?key = None" "cx_unresolved ?c ?key = None"
    by (simp_all add: count_up_def)
  have ord: "ordinal demo_ctx nm = 0" for nm by (simp add: ordinal_def)
  have "\<forall>t x. snd (run (invoke pay_fn 7 (token_of ?c ?key) []) (t, x)) = Inr (PStr ''paid'')"
    by (simp add: invoke_def pay_fn_def)
  then have "\<exists>s' c'. run (branch demo AT_MOST_ONCE ?key pay_fn) (demo_sys, ?c) = ((s', c'), Inr (PStr ''paid'', True))"
    using fresh_step_run [of demo ?c ?key demo_sys pay_fn "[]" "PStr ''paid''" None AT_MOST_ONCE None] c demo_has_run
    by (auto simp: demo_checkpoint max_step_attempts_def branch_def)
  then obtain s' c' where run: "run (branch demo AT_MOST_ONCE ?key pay_fn) (demo_sys, ?c) = ((s', c'), Inr (PStr ''paid'', True))"
    by blast
  from until_alone [of "branch demo AT_MOST_ONCE ?key pay_fn" "(demo_sys, ?c)"] obtain n where
    n: "until_joined (replicate n 0) ([branch demo AT_MOST_ONCE ?key pay_fn], (demo_sys, ?c)) =
      ([Ret (Inr (PStr ''paid'', True))], (s', c'))" using run by auto
  have g: "gather demo ''fan'' [pay_fn] AT_MOST_ONCE (replicate n 0) (demo_sys, demo_ctx) =
      ([Ret (Inr (PStr ''paid'', True))], (s', c'), Some (Inr [PStr ''paid'']))"
    using n run_next_keys [of "[branch_name ''fan'' 0]" demo_sys demo_ctx] by (simp add: gather_def fresh_keys_def ord)
  have t: "tasks demo {} 7 demo_sys (demo_sys, Some (demo_ctx, []))"
    using tasks.attempt [OF tasks.start [of demo "{}" 7 demo_sys], of demo_run] replay_keyless [of "pg_load_events 7 demo_db" "[]"]
      demo_log by (auto simp: demo_ctx_def demo_run_def to_run_def new_run_row_def new_context_def)
  have "count_events (pg_load_events 7 (sy_db s')) ?key STEP_COMPLETED = 1"
    using gather_recorded [OF _ _ _ _ t, where w = None and i = 0 and name = "''fan''" and fns = "[pay_fn]"] g demo_has_run demo_log
    by (simp add: ord)
  then show ?thesis using g by blast
qed

end
