(* ===== verification/Worker_Loop.thy ===== *)
theory Worker_Loop
  imports Safety "HOL-Library.Multiset"
begin

text \<open>
  \<open>Worker.run_forever\<close> of \<open>src/anchor/worker.py\<close>: the loop that claims runs and starts a task for each, up
  to a bound, until it is told to shut down; then it waits for the tasks that are left. The coroutine of
  the loop gives way only where it awaits; there its own tasks go on, and the signal may come. Other
  workers, requests and the clock (the cluster \<open>wl_rest\<close>) go on all the time.
\<close>

section \<open>The loop\<close>

datatype phase = Top | Claiming | Sleeping | Waiting | Draining | Down

record 'x worker_loop =
  wl_phase :: phase
  wl_inflight :: "(pg, 'x) worker_prog list"
  wl_freed :: bool \<comment> \<open>a task has ended since the loop began to wait for a slot\<close>
  wl_shutdown :: bool
  wl_claimed :: nat
  wl_ended :: nat \<comment> \<open>a history variable: the tasks that have ended\<close>
  wl_rest :: "'x cluster"

definition wl_sys :: "'x worker_loop \<Rightarrow> (pg, 'x) sys" where
  "wl_sys l = cs_sys (wl_rest l)"

definition with_sys :: "(pg, 'x) sys \<Rightarrow> 'x worker_loop \<Rightarrow> 'x worker_loop" where
  "with_sys s l = l\<lparr>wl_rest := (wl_rest l)\<lparr>cs_sys := s\<rparr>\<rparr>"

definition new_loop :: "'x cluster \<Rightarrow> 'x worker_loop" where
  "new_loop c = \<lparr>wl_phase = Top, wl_inflight = [], wl_freed = False, wl_shutdown = False, wl_claimed = 0, wl_ended = 0, wl_rest = c\<rparr>"

definition awaiting :: "phase \<Rightarrow> bool" where
  "awaiting ph \<longleftrightarrow> ph \<in> {Claiming, Sleeping, Waiting, Draining}"

definition slots :: "('st, 'x) deps \<Rightarrow> int" where
  "slots E = se_worker_concurrency (d_settings E)"

text \<open>The task of a claimed run, with statistics of its own.\<close>

definition claimed_task :: "('st, 'x) deps \<Rightarrow> string \<Rightarrow> claim \<Rightarrow> ('st, 'x) worker_prog" where
  "claimed_task E w cl = process E w (cl_run_id cl) (new_stats\<lparr>ws_claimed := 1\<rparr>)"

definition try_claim :: "('st, 'x) deps \<Rightarrow> string \<Rightarrow> ('st, 'x) sys \<Rightarrow> ('st, 'x) sys \<times> claim option" where
  "try_claim E w s = run (db_op (\<lambda>t. st_claim (d_store E) t w (lease_seconds E))) s"

text \<open>
  \<open>spin\<close>: without any task to wait for, \<open>_wait_for_slot\<close> returns without awaiting, and the loop goes round.
\<close>

inductive loop_step :: "(pg, 'x) deps \<Rightarrow> string \<Rightarrow> 'x worker_loop \<Rightarrow> 'x worker_loop \<Rightarrow> bool" for E w where
  drain: "wl_phase l = Top \<Longrightarrow> wl_shutdown l \<Longrightarrow> loop_step E w l (l\<lparr>wl_phase := Draining\<rparr>)"
| full:
    "wl_phase l = Top \<Longrightarrow> \<not> wl_shutdown l \<Longrightarrow> slots E \<le> int (length (wl_inflight l)) \<Longrightarrow> wl_inflight l \<noteq> [] \<Longrightarrow>
     loop_step E w l (l\<lparr>wl_phase := Waiting, wl_freed := False\<rparr>)"
| spin:
    "wl_phase l = Top \<Longrightarrow> \<not> wl_shutdown l \<Longrightarrow> slots E \<le> int (length (wl_inflight l)) \<Longrightarrow> wl_inflight l = [] \<Longrightarrow>
     loop_step E w l l"
| begin_claim:
    "wl_phase l = Top \<Longrightarrow> \<not> wl_shutdown l \<Longrightarrow> int (length (wl_inflight l)) < slots E \<Longrightarrow>
     loop_step E w l (l\<lparr>wl_phase := Claiming\<rparr>)"
| claim_none:
    "wl_phase l = Claiming \<Longrightarrow> try_claim E w (wl_sys l) = (s, None) \<Longrightarrow>
     loop_step E w l (with_sys s (l\<lparr>wl_phase := Sleeping\<rparr>))"
| claim_some:
    "wl_phase l = Claiming \<Longrightarrow> try_claim E w (wl_sys l) = (s, Some cl) \<Longrightarrow>
     loop_step E w l (with_sys s (l\<lparr>wl_phase := Top, wl_claimed := wl_claimed l + 1,
                                    wl_inflight := wl_inflight l @ [claimed_task E w cl]\<rparr>))"
| awake: "wl_phase l = Sleeping \<Longrightarrow> loop_step E w l (l\<lparr>wl_phase := Top\<rparr>)"
| slot: "wl_phase l = Waiting \<Longrightarrow> wl_freed l \<Longrightarrow> loop_step E w l (l\<lparr>wl_phase := Top\<rparr>)"
| task:
    "awaiting (wl_phase l) \<Longrightarrow> i < length (wl_inflight l) \<Longrightarrow> wl_inflight l ! i = Atom f \<Longrightarrow>
     loop_step E w l (with_sys (fst (f (wl_sys l))) (l\<lparr>wl_inflight := (wl_inflight l)[i := snd (f (wl_sys l))]\<rparr>))"
| task_end:
    "awaiting (wl_phase l) \<Longrightarrow> i < length (wl_inflight l) \<Longrightarrow> wl_inflight l ! i = Ret x \<Longrightarrow>
     loop_step E w l (l\<lparr>wl_inflight := take i (wl_inflight l) @ drop (Suc i) (wl_inflight l),
                        wl_freed := True, wl_ended := wl_ended l + 1\<rparr>)"
| signal: "awaiting (wl_phase l) \<Longrightarrow> loop_step E w l (l\<lparr>wl_shutdown := True\<rparr>)"
| others: "cluster_step E (wl_rest l) c \<Longrightarrow> loop_step E w l (l\<lparr>wl_rest := c\<rparr>)"
| down: "wl_phase l = Draining \<Longrightarrow> wl_inflight l = [] \<Longrightarrow> loop_step E w l (l\<lparr>wl_phase := Down\<rparr>)"

inductive loop_reach :: "(pg, 'x) deps \<Rightarrow> string \<Rightarrow> 'x worker_loop \<Rightarrow> 'x worker_loop \<Rightarrow> bool" for E w l0 where
  start: "loop_reach E w l0 l0"
| step: "loop_reach E w l0 l \<Longrightarrow> loop_step E w l l' \<Longrightarrow> loop_reach E w l0 l'"

lemma with_sys_simps [simp]:
  "wl_phase (with_sys s l) = wl_phase l" "wl_inflight (with_sys s l) = wl_inflight l"
  "wl_shutdown (with_sys s l) = wl_shutdown l" "wl_claimed (with_sys s l) = wl_claimed l"
  "wl_ended (with_sys s l) = wl_ended l" "wl_freed (with_sys s l) = wl_freed l"
  by (simp_all add: with_sys_def)

section \<open>Bounds\<close>

definition loop_ok :: "('st, 'x) deps \<Rightarrow> 'y worker_loop \<Rightarrow> bool" where
  "loop_ok E l \<longleftrightarrow>
     int (length (wl_inflight l)) \<le> max 0 (slots E) \<and>
     (wl_phase l = Claiming \<longrightarrow> int (length (wl_inflight l)) < slots E) \<and>
     wl_claimed l = length (wl_inflight l) + wl_ended l \<and>
     (wl_phase l = Draining \<longrightarrow> wl_shutdown l) \<and>
     (wl_phase l = Down \<longrightarrow> wl_shutdown l \<and> wl_inflight l = [])"

lemma length_remove: "i < length xs \<Longrightarrow> Suc (length (take i xs @ drop (Suc i) xs)) = length xs"
  by simp

lemma loop_ok_step: "loop_step E w l l' \<Longrightarrow> loop_ok E l \<Longrightarrow> loop_ok E l'"
proof (induction rule: loop_step.induct)
  case (task_end l i x)
  then show ?case using length_remove [of i "wl_inflight l"] by (auto simp: loop_ok_def awaiting_def)
qed (auto simp: loop_ok_def awaiting_def)

lemma loop_ok_reach: "loop_reach E w l0 l \<Longrightarrow> loop_ok E l0 \<Longrightarrow> loop_ok E l"
  by (induction rule: loop_reach.induct) (auto intro: loop_ok_step)

lemma loop_ok_new: "loop_ok E (new_loop c)"
  by (simp add: loop_ok_def new_loop_def)

text \<open>After the signal only a claim that is under way can still get a run.\<close>

definition may_claim :: "'x worker_loop \<Rightarrow> nat" where
  "may_claim l = wl_claimed l + (if wl_phase l = Claiming then 1 else 0)"

lemma shutdown_step:
  "loop_step E w l l' \<Longrightarrow> wl_shutdown l \<Longrightarrow> wl_shutdown l' \<and> may_claim l' \<le> may_claim l"
  by (induction rule: loop_step.induct) (auto simp: may_claim_def)

lemma shutdown_reach:
  "loop_reach E w l l' \<Longrightarrow> wl_shutdown l \<Longrightarrow> wl_shutdown l' \<and> may_claim l' \<le> may_claim l"
  by (induction rule: loop_reach.induct) (use shutdown_step in \<open>fastforce+\<close>)


text \<open>
  C27. A worker without slots hangs. Its loop never awaits: whatever the rest of the system does, it claims
  nothing, and the signal to shut down is never seen.
\<close>

theorem worker_loop_spins:
  assumes "loop_reach E w (new_loop c) l" and "slots E \<le> 0"
  shows "wl_phase l = Top \<and> wl_inflight l = [] \<and> wl_claimed l = 0 \<and> \<not> wl_shutdown l"
  using assms(1)
proof (induction rule: loop_reach.induct)
  case start
  show ?case by (simp add: new_loop_def)
next
  case (step l l')
  from step.hyps(2) step.IH assms(2) show ?case by cases (auto simp: awaiting_def)
qed

section \<open>The loop is a cluster\<close>

text \<open>A step of some threads is a step of more threads, in whatever order they are listed.\<close>

definition clus :: "(pg, 'x) sys \<Rightarrow> (pg, 'x) worker_prog list \<Rightarrow> 'x cluster" where
  "clus s us = \<lparr>cs_sys = s, cs_threads = us\<rparr>"

lemma clus_simps [simp]: "cs_sys (clus s us) = s" "cs_threads (clus s us) = us"
  "(clus s us)\<lparr>cs_sys := s'\<rparr> = clus s' us" "(clus s us)\<lparr>cs_threads := us'\<rparr> = clus s us'"
  by (simp_all add: clus_def)

lemma mset_remove: "i < length xs \<Longrightarrow> mset (take i xs @ drop (Suc i) xs) = mset xs - {#xs ! i#}"
  by (metis Cons_nth_drop_Suc add_mset_remove_trivial append_take_drop_id mset.simps(2) mset_append
      union_mset_add_mset_right)

text \<open>An atom of any of the threads, and the end of any of them, wherever it stands in the list.\<close>

lemma clus_atom:
  assumes "Atom f \<in># mset us"
  shows "\<exists>us'. cluster_step E (clus s us) (clus (fst (f s)) us') \<and> mset us' = add_mset (snd (f s)) (mset us - {#Atom f#})"
proof -
  obtain j where j: "j < length us" "us ! j = Atom f" using assms by (auto simp: in_set_conv_nth)
  have "cluster_step E (clus s us) ((clus s us)\<lparr>cs_sys := fst (f (cs_sys (clus s us))),
      cs_threads := (cs_threads (clus s us))[j := snd (f (cs_sys (clus s us)))]\<rparr>)"
    by (rule cluster_step.atom) (simp_all add: j)
  then have "cluster_step E (clus s us) (clus (fst (f s)) (us[j := snd (f s)]))" by simp
  moreover have "mset (us[j := snd (f s)]) = add_mset (snd (f s)) (mset us - {#Atom f#})"
    using mset_update [OF j(1), of "snd (f s)"] by (simp add: j(2))
  ultimately show ?thesis by blast
qed

lemma clus_kill:
  assumes "p \<in># mset us"
  shows "\<exists>us'. cluster_step E (clus s us) (clus s us') \<and> mset us' = mset us - {#p#}"
proof -
  obtain j where j: "j < length us" "us ! j = p" using assms by (auto simp: in_set_conv_nth)
  have "cluster_step E (clus s us) ((clus s us)\<lparr>cs_threads := take j (cs_threads (clus s us)) @ drop (Suc j) (cs_threads (clus s us))\<rparr>)"
    by (rule cluster_step.kill)
  then show ?thesis using mset_remove [OF j(1)] j(2) by auto
qed

lemma clus_spawn: "cluster_step E (clus s us) (clus s (us @ [run_once E w st]))"
  using cluster_step.spawn [of E "clus s us" w st] by simp

lemma cluster_step_more:
  assumes "cluster_step E c c'" and "mset us = mset (cs_threads c) + X"
  shows "\<exists>us'. cluster_step E (clus (cs_sys c) us) (clus (cs_sys c') us') \<and> mset us' = mset (cs_threads c') + X"
  using assms(1)
proof cases
  case (submit r wn p k b)
  then show ?thesis using cluster_step.submit [of E "clus (cs_sys c) us" r wn p k b] assms(2) by auto
next
  case (cancel r)
  then show ?thesis using cluster_step.cancel [of E "clus (cs_sys c) us" r] assms(2) by auto
next
  case (tick dt)
  then show ?thesis using cluster_step.tick [of dt E "clus (cs_sys c) us"] assms(2) by auto
next
  case (world x)
  then show ?thesis using cluster_step.world [of E "clus (cs_sys c) us" x] assms(2) by auto
next
  case (heartbeat w r)
  then show ?thesis using cluster_step.heartbeat [of E "clus (cs_sys c) us" w r] assms(2) by auto
next
  case (spawn w st)
  then show ?thesis using clus_spawn [of E "cs_sys c" us w st] assms(2) by (intro exI conjI) auto
next
  case (kill i)
  show ?thesis
  proof (cases "i < length (cs_threads c)")
    case True
    then have "cs_threads c ! i \<in># mset us" using assms(2) by simp
    from clus_kill [OF this] show ?thesis using kill True assms(2) mset_remove [OF True] by auto
  next
    case False
    then show ?thesis using cluster_step.kill [of E "clus (cs_sys c) us" "length us"] kill assms(2) by (intro exI conjI) auto
  qed
next
  case (atom i f)
  then have m: "Atom f \<in># mset (cs_threads c)" by (metis nth_mem set_mset_mset)
  then have "Atom f \<in># mset us" by (simp add: assms(2))
  from clus_atom [OF this, of E "cs_sys c"] obtain us' where us':
    "cluster_step E (clus (cs_sys c) us) (clus (fst (f (cs_sys c))) us')"
    "mset us' = add_mset (snd (f (cs_sys c))) (mset us - {#Atom f#})" by blast
  moreover have "mset us - {#Atom f#} = mset (cs_threads c) - {#Atom f#} + X"
    using diff_union_single_conv [OF m, of X] by (simp add: assms(2) add.commute)
  ultimately show ?thesis using atom mset_update [OF atom(2), of "snd (f (cs_sys c))"] by auto
qed

lemma cluster_reach_trans: "cluster_reach E b c \<Longrightarrow> cluster_reach E a b \<Longrightarrow> cluster_reach E a c"
  by (induction rule: cluster_reach.induct) (auto intro: cluster_reach.intros)

text \<open>A claim is a worker that is spawned, does the first atom of \<open>run_once\<close>, and goes on as the task, or ends.\<close>

lemma cluster_reach_one: "cluster_step E a b \<Longrightarrow> cluster_reach E a b"
  by (blast intro: cluster_reach.intros)

lemma clus_claim:
  fixes s :: "(pg, 'x) sys"
  assumes "try_claim E w s = (s', x)"
  shows "\<exists>us'. cluster_reach E (clus s us) (clus s' us') \<and>
    mset us' = mset us + (case x of None \<Rightarrow> {#} | Some cl \<Rightarrow> {#claimed_task E w cl#})"
proof -
  define k where "k = (\<lambda>c :: claim option. case c of None \<Rightarrow> Ret (new_stats, None) |
    Some cl \<Rightarrow> process E w (cl_run_id cl) (new_stats\<lparr>ws_claimed := ws_claimed new_stats + 1\<rparr>))"
  define f where "f = (\<lambda>s :: (pg, 'x) sys. map_prod id k (run (db_op (\<lambda>t. st_claim (d_store E) t w (lease_seconds E))) s))"
  have ro: "run_once E w new_stats = Atom f"
    by (simp add: run_once_def db_op_def atom_def f_def k_def [symmetric] fun_eq_iff map_prod_def split_def Let_def)
  have f: "f s = (s', k x)" using assms by (simp add: f_def try_claim_def)
  have "Atom f \<in># mset (us @ [run_once E w new_stats])" by (simp add: ro)
  from clus_atom [OF this, of E s] obtain us' where
    us': "cluster_step E (clus s (us @ [run_once E w new_stats])) (clus s' us')" "mset us' = add_mset (k x) (mset us)"
    by (auto simp: f ro)
  have reach: "cluster_reach E (clus s us) (clus s' us')"
    using clus_spawn us'(1) by (blast intro: cluster_reach.intros)
  show ?thesis
  proof (cases x)
    case None
    have "k x \<in># mset us'" by (simp add: us'(2))
    from clus_kill [OF this, of E s'] obtain vs where "cluster_step E (clus s' us') (clus s' vs)" "mset vs = mset us"
      by (auto simp: us'(2))
    then show ?thesis using reach None by (auto intro: cluster_reach.intros)
  next
    case (Some cl)
    then show ?thesis using reach us'(2) by (auto simp: k_def claimed_task_def new_stats_def)
  qed
qed

definition all_threads :: "'x worker_loop \<Rightarrow> (pg, 'x) worker_prog multiset" where
  "all_threads l = mset (cs_threads (wl_rest l)) + mset (wl_inflight l)"

lemma loop_step_cluster:
  assumes "loop_step E w l l'" and "mset us = all_threads l"
  shows "\<exists>us'. cluster_reach E (clus (wl_sys l) us) (clus (wl_sys l') us') \<and> mset us' = all_threads l'"
  using assms(1)
proof cases
  case (claim_none s)
  then show ?thesis using clus_claim [of E w "wl_sys l" s None us] assms(2) by (simp add: all_threads_def wl_sys_def with_sys_def)
next
  case (claim_some s cl)
  then show ?thesis using clus_claim [of E w "wl_sys l" s "Some cl" us] assms(2) by (simp add: all_threads_def wl_sys_def with_sys_def)
next
  case (task i f)
  then have m: "Atom f \<in># mset (wl_inflight l)" by (metis nth_mem set_mset_mset)
  then have "Atom f \<in># mset us" by (simp add: assms(2) all_threads_def)
  from clus_atom [OF this, of E "wl_sys l"] obtain us' where
    "cluster_step E (clus (wl_sys l) us) (clus (fst (f (wl_sys l))) us')" "mset us' = add_mset (snd (f (wl_sys l))) (mset us - {#Atom f#})"
    by blast
  moreover have "add_mset (snd (f (wl_sys l))) (mset us - {#Atom f#}) = all_threads l'"
    using task assms(2) mset_update [OF task(3), of "snd (f (wl_sys l))"]
    by (simp add: all_threads_def with_sys_def diff_union_single_conv [OF m])
  moreover have "wl_sys l' = fst (f (wl_sys l))" using task by (simp add: wl_sys_def with_sys_def)
  ultimately have "cluster_step E (clus (wl_sys l) us) (clus (wl_sys l') us') \<and> mset us' = all_threads l'" by simp
  then show ?thesis using cluster_reach_one by blast
next
  case (task_end i x)
  then have m: "Ret x \<in># mset (wl_inflight l)" by (metis nth_mem set_mset_mset)
  then have "Ret x \<in># mset us" by (simp add: assms(2) all_threads_def)
  from clus_kill [OF this, of E "wl_sys l"] obtain us' where
    "cluster_step E (clus (wl_sys l) us) (clus (wl_sys l) us')" "mset us' = mset us - {#Ret x#}" by blast
  then show ?thesis
    using task_end assms(2) mset_remove [OF task_end(3)]
    by (auto simp: all_threads_def wl_sys_def diff_union_single_conv [OF m] intro: cluster_reach.intros)
next
  case (others c)
  then obtain us' where "cluster_step E (clus (cs_sys (wl_rest l)) us) (clus (cs_sys c) us')" "mset us' = mset (cs_threads c) + mset (wl_inflight l)"
    using cluster_step_more [of E "wl_rest l" c us "mset (wl_inflight l)"] assms(2) by (auto simp: all_threads_def)
  then show ?thesis using others by (auto simp: all_threads_def wl_sys_def dest: cluster_reach_one)
qed (use assms(2) in \<open>auto simp: all_threads_def wl_sys_def intro: cluster_reach.intros\<close>)

text \<open>
  C9. The loop refines the cluster: whatever a worker with its tasks does, together with everything around
  it, the workers of a cluster can do that handle one run each, with the same effect on the system. So what
  is proved for every cluster holds for workers that handle many runs at the same time.
\<close>

theorem worker_loop_refines:
  assumes "loop_reach E w (new_loop c) l"
  shows "\<exists>us. cluster_reach E c \<lparr>cs_sys = wl_sys l, cs_threads = us\<rparr> \<and>
    mset us = mset (cs_threads (wl_rest l)) + mset (wl_inflight l)"
proof -
  have "\<exists>us. cluster_reach E c (clus (wl_sys l) us) \<and> mset us = all_threads l"
    using assms
  proof (induction rule: loop_reach.induct)
    case start
    have "c = clus (wl_sys (new_loop c)) (cs_threads c)" by (cases c) (simp add: clus_def wl_sys_def new_loop_def)
    then have "cluster_reach E c (clus (wl_sys (new_loop c)) (cs_threads c))" by (metis cluster_reach.start)
    then show ?case by (auto simp: all_threads_def new_loop_def)
  next
    case (step l l')
    then show ?case using loop_step_cluster [OF step.hyps(2)] by (blast intro: cluster_reach_trans)
  qed
  then show ?thesis by (simp add: clus_def all_threads_def)
qed

section \<open>A loop at work\<close>

definition demo_loop :: "uuid list worker_loop" where
  "demo_loop = (new_loop demo_cluster)\<lparr>wl_phase := Claiming\<rparr>"

lemma demo_claiming: "loop_reach demo ''w1'' (new_loop demo_cluster) demo_loop"
proof -
  have "loop_step demo ''w1'' (new_loop demo_cluster) demo_loop"
    unfolding demo_loop_def by (rule loop_step.begin_claim) (simp_all add: new_loop_def slots_def demo_def)
  then show ?thesis by (blast intro: loop_reach.intros)
qed


lemma worker_loop_spins_witness:
  "wl_claimed (new_loop demo_cluster) = 0"
  using worker_loop_spins [OF loop_reach.start, of "demo\<lparr>d_settings := default_settings\<lparr>se_worker_concurrency := 0\<rparr>\<rparr>" ]
  by (simp add: slots_def)

lemma worker_loop_refines_witness:
  "\<exists>us. cluster_reach demo demo_cluster \<lparr>cs_sys = wl_sys demo_loop, cs_threads = us\<rparr>"
  using worker_loop_refines [OF demo_claiming] by blast

end
