(* ===== verification/Rely.thy ===== *)
theory Rely
  imports Interleave
begin

text \<open>
  Rely and guarantee for coroutines. \<open>R\<close> is what any atom of anybody may do to the shared state, and at
  the same time what every atom of the coroutine has to keep to. \<open>relies R p Q s\<close>: from \<open>s\<close> on, however
  others move the state in \<open>R\<close> between the atoms of \<open>p\<close>, each atom of \<open>p\<close> moves it in \<open>R\<close>, and if \<open>p\<close> ends,
  \<open>Q\<close> holds of its result and of every state from then on. \<open>rg\<close> says so of a program over a shared and a
  private component, from all states with a precondition.
\<close>

named_theorems stable_intros \<open>what stays true whatever others do\<close>

section \<open>Programs among others\<close>

primrec relies :: "('s \<Rightarrow> 's \<Rightarrow> bool) \<Rightarrow> ('s, 'r) prog \<Rightarrow> ('r \<Rightarrow> 's \<Rightarrow> bool) \<Rightarrow> 's \<Rightarrow> bool" where
  "relies R (Ret r) = (\<lambda>Q s. \<forall>s'. R s s' \<longrightarrow> Q r s')"
| "relies R (Atom f) = (\<lambda>Q s. \<forall>s'. R s s' \<longrightarrow>
     (case (map_prod id (relies R) \<circ> f) s' of (s'', g) \<Rightarrow> R s' s'' \<and> g Q s''))"

lemma relies_Ret: "relies R (Ret r) Q s \<longleftrightarrow> (\<forall>s'. R s s' \<longrightarrow> Q r s')"
  by simp

lemma relies_Atom:
  "relies R (Atom f) Q s \<longleftrightarrow> (\<forall>s'. R s s' \<longrightarrow> R s' (fst (f s')) \<and> relies R (snd (f s')) Q (fst (f s')))"
  by (simp add: map_prod_def split_def)

declare relies.simps [simp del]

lemma local_bind: "local (bind p k) c = bind (local p c) (\<lambda>(r, c'). local (k r) c')"
  by (induction p arbitrary: c) (simp_all add: split_def)

lemma relies_mono: "relies R p Q s \<Longrightarrow> (\<And>r s. Q r s \<Longrightarrow> Q' r s) \<Longrightarrow> relies R p Q' s"
  by (induction p arbitrary: s) (auto simp: relies_Ret relies_Atom)

lemma relies_conj: "relies R p Q s \<Longrightarrow> relies R p Q' s \<Longrightarrow> relies R p (\<lambda>r s. Q r s \<and> Q' r s) s"
  by (induction p arbitrary: s) (auto simp: relies_Ret relies_Atom)

lemma relies_frame:
  "relies R p Q s \<Longrightarrow> F s \<Longrightarrow> (\<And>s s'. R s s' \<Longrightarrow> F s \<Longrightarrow> F s') \<Longrightarrow> relies R p (\<lambda>r s. Q r s \<and> F s) s"
proof (induction p arbitrary: s)
  case (Atom f)
  have "R s' (fst (f s')) \<and> relies R (snd (f s')) (\<lambda>r s. Q r s \<and> F s) (fst (f s'))" if s: "R s s'" for s'
  proof -
    have f: "R s' (fst (f s'))" "relies R (snd (f s')) Q (fst (f s'))"
      using Atom.prems(1) s by (simp_all add: relies_Atom)
    moreover have "F (fst (f s'))" using Atom.prems(2,3) s f(1) by blast
    ultimately show ?thesis using Atom.IH [OF f(2)] Atom.prems(3) by blast
  qed
  then show ?case by (simp add: relies_Atom)
qed (simp add: relies_Ret)

text \<open>A program that ends knows its result where it stands.\<close>

lemma relies_result: "relies R (Ret r) Q s \<Longrightarrow> R s s \<Longrightarrow> Q r s"
  by (simp add: relies_Ret)

definition undisturbed :: "('s \<Rightarrow> 's \<Rightarrow> bool) \<Rightarrow> ('s \<times> 'c \<Rightarrow> bool) \<Rightarrow> bool" where
  "undisturbed R P \<longleftrightarrow> (\<forall>s s' c. P (s, c) \<longrightarrow> R s s' \<longrightarrow> P (s', c))"

definition rg ::
  "('s \<Rightarrow> 's \<Rightarrow> bool) \<Rightarrow> ('s \<times> 'c \<Rightarrow> bool) \<Rightarrow> ('s \<times> 'c, 'r) prog \<Rightarrow> ('r \<Rightarrow> 's \<times> 'c \<Rightarrow> bool) \<Rightarrow> bool" where
  "rg R P p Q \<longleftrightarrow> (\<forall>s c. P (s, c) \<longrightarrow> relies R (local p c) (\<lambda>(r, c') s'. Q r (s', c')) s)"

lemma rg_pre: "rg R P p Q \<Longrightarrow> (\<And>\<sigma>. P' \<sigma> \<Longrightarrow> P \<sigma>) \<Longrightarrow> rg R P' p Q"
  by (simp add: rg_def)

lemma rg_post: "rg R P p Q \<Longrightarrow> (\<And>r \<sigma>. Q r \<sigma> \<Longrightarrow> Q' r \<sigma>) \<Longrightarrow> rg R P p Q'"
  unfolding rg_def
proof (intro allI impI)
  fix s c
  assume "\<forall>s c. P (s, c) \<longrightarrow> relies R (local p c) (\<lambda>(r, c') s'. Q r (s', c')) s" and "P (s, c)"
    and Q: "\<And>r \<sigma>. Q r \<sigma> \<Longrightarrow> Q' r \<sigma>"
  then have "relies R (local p c) (\<lambda>(r, c') s'. Q r (s', c')) s" by simp
  then show "relies R (local p c) (\<lambda>(r, c') s'. Q' r (s', c')) s"
    by (rule relies_mono) (auto dest: Q)
qed

lemma rg_conj: "rg R P p Q \<Longrightarrow> rg R P' p Q' \<Longrightarrow> rg R (\<lambda>\<sigma>. P \<sigma> \<and> P' \<sigma>) p (\<lambda>r \<sigma>. Q r \<sigma> \<and> Q' r \<sigma>)"
  unfolding rg_def
proof (intro allI impI)
  fix s c
  assume "\<forall>s c. P (s, c) \<longrightarrow> relies R (local p c) (\<lambda>(r, c') s'. Q r (s', c')) s"
    and "\<forall>s c. P' (s, c) \<longrightarrow> relies R (local p c) (\<lambda>(r, c') s'. Q' r (s', c')) s" and "P (s, c) \<and> P' (s, c)"
  then have "relies R (local p c) (\<lambda>(r, c') s'. Q r (s', c')) s" "relies R (local p c) (\<lambda>(r, c') s'. Q' r (s', c')) s"
    by simp_all
  from relies_conj [OF this] show "relies R (local p c) (\<lambda>(r, c') s'. Q r (s', c') \<and> Q' r (s', c')) s"
    by (simp add: split_def)
qed

lemma rg_frame:
  assumes "rg R P p Q" and F: "\<And>s s'. F s \<Longrightarrow> R s s' \<Longrightarrow> F s'"
  shows "rg R (\<lambda>\<sigma>. P \<sigma> \<and> F (fst \<sigma>)) p (\<lambda>r \<sigma>. Q r \<sigma> \<and> F (fst \<sigma>))"
  unfolding rg_def
proof (intro allI impI)
  fix s c
  assume "P (s, c) \<and> F (fst (s, c))"
  then have pre: "relies R (local p c) (\<lambda>(r, c') s'. Q r (s', c')) s" "F s" using assms(1) by (simp_all add: rg_def)
  have "relies R (local p c) (\<lambda>x s'. (case x of (r, c') \<Rightarrow> (\<lambda>s'. Q r (s', c'))) s' \<and> F s') s"
    by (rule relies_frame [where F = F, OF pre]) (rule F)
  then show "relies R (local p c) (\<lambda>(r, c') s'. Q r (s', c') \<and> F (fst (s', c'))) s"
    by (rule relies_mono) auto
qed

lemma rg_ex: "(\<And>u. rg R (P u) p Q) \<Longrightarrow> rg R (\<lambda>\<sigma>. \<exists>u. P u \<sigma>) p Q"
  unfolding rg_def by blast

text \<open>A precondition that does not speak of the state is an assumption.\<close>

lemma rg_assume: "(A \<Longrightarrow> rg R P p Q) \<Longrightarrow> rg R (\<lambda>\<sigma>. A \<and> P \<sigma>) p Q"
  unfolding rg_def by blast

lemma stable_private [stable_intros]: "undisturbed R (\<lambda>\<sigma>. P (snd \<sigma>))"
  by (simp add: undisturbed_def)

lemma stable_const [stable_intros]: "undisturbed R (\<lambda>\<sigma>. P)"
  by (simp add: undisturbed_def)

lemma stable_conj [stable_intros]: "undisturbed R P \<Longrightarrow> undisturbed R Q \<Longrightarrow> undisturbed R (\<lambda>\<sigma>. P \<sigma> \<and> Q \<sigma>)"
  unfolding undisturbed_def by blast

lemma stable_all [stable_intros]: "(\<And>x. undisturbed R (P x)) \<Longrightarrow> undisturbed R (\<lambda>\<sigma>. \<forall>x. P x \<sigma>)"
  unfolding undisturbed_def by blast

lemma stable_imp [stable_intros]: "undisturbed R Q \<Longrightarrow> undisturbed R (\<lambda>\<sigma>. A (snd \<sigma>) \<longrightarrow> Q \<sigma>)"
  unfolding undisturbed_def snd_conv by blast

lemma undisturbedD: "undisturbed R P \<Longrightarrow> P (s, c) \<Longrightarrow> R s s' \<Longrightarrow> P (s', c)"
  unfolding undisturbed_def by blast

section \<open>Rules\<close>

text \<open>Whatever may happen may happen in several steps, and nothing may happen.\<close>

locale preorder_rel =
  fixes R :: "'s \<Rightarrow> 's \<Rightarrow> bool"
  assumes R_refl: "R s s" and R_trans: "R s t \<Longrightarrow> R t u \<Longrightarrow> R s u"
begin

lemma relies_later: "relies R p Q s \<Longrightarrow> R s s' \<Longrightarrow> relies R p Q s'"
  by (cases p) (auto simp: relies_Ret relies_Atom intro: R_trans)

lemma relies_bind:
  assumes "relies R p M s" and "\<And>r s. M r s \<Longrightarrow> relies R (k r) Q s"
  shows "relies R (bind p k) Q s"
  using assms(1)
proof (induction p arbitrary: s)
  case (Ret r)
  then show ?case using assms(2) R_refl by (simp add: relies_Ret)
next
  case (Atom f)
  then show ?case by (simp add: relies_Atom)
qed

lemma relies_gets: "(\<And>s'. R s s' \<Longrightarrow> relies R (k (f s')) Q s') \<Longrightarrow> relies R (bind (gets f) k) Q s"
  by (simp add: gets_def atom_def relies_Atom R_refl map_prod_def)

text \<open>A guarantee is enough where nothing is to be known of the result.\<close>

lemma relies_guar: "guar R p \<Longrightarrow> relies R p (\<lambda>_ _. True) s"
  by (induction p arbitrary: s) (simp_all add: relies_Ret relies_Atom)

lemma rg_Ret:
  assumes "undisturbed R P" and "\<And>\<sigma>. P \<sigma> \<Longrightarrow> Q r \<sigma>"
  shows "rg R P (Ret r) Q"
  using assms by (auto simp: rg_def relies_Ret dest: undisturbedD)

lemma rg_atom:
  assumes "undisturbed R P" and "\<And>r. undisturbed R (Q r)"
    and "\<And>s c. P (s, c) \<Longrightarrow> R s (fst (fst (f (s, c)))) \<and> Q (snd (f (s, c))) (fst (f (s, c)))"
  shows "rg R P (atom f) Q"
proof -
  have "Q (snd (f (s, c))) (s', snd (fst (f (s, c))))" if "P (s, c)" "R (fst (fst (f (s, c)))) s'" for s c s'
    using assms(3) [OF that(1)] that(2) undisturbedD [OF assms(2), of "snd (f (s, c))" "fst (fst (f (s, c)))"] by simp
  then show ?thesis
    using assms(1,3) by (auto simp: rg_def atom_def map_prod_def split_def relies_Ret relies_Atom dest: undisturbedD)
qed

lemma rg_bind:
  assumes "rg R P p M" and "\<And>r. rg R (M r) (k r) Q"
  shows "rg R P (bind p k) Q"
  unfolding rg_def local_bind
  using assms(2) by (auto intro!: relies_bind [OF assms(1) [unfolded rg_def, rule_format]] simp: rg_def)

lemma rg_ebind:
  assumes "rg R P p M" and "\<And>a. rg R (M (Inr a)) (k a) Q" and "\<And>e. undisturbed R (M (Inl e))"
    and "\<And>e \<sigma>. M (Inl e) \<sigma> \<Longrightarrow> Q (Inl e) \<sigma>"
  shows "rg R P (ebind p k) Q"
  unfolding ebind_def
  by (rule rg_bind [OF assms(1)]) (use assms(2-4) in \<open>auto split: sum.splits intro: rg_Ret\<close>)

lemma rg_modify:
  assumes "undisturbed R P" and "undisturbed R (Q ())" and "\<And>s c. P (s, c) \<Longrightarrow> R s (fst (f (s, c))) \<and> Q () (f (s, c))"
  shows "rg R P (modify f) Q"
  unfolding modify_def using assms by (intro rg_atom) auto

lemma rg_gets:
  assumes "undisturbed R P" and "\<And>r. undisturbed R (Q r)" and "\<And>\<sigma>. P \<sigma> \<Longrightarrow> Q (f \<sigma>) \<sigma>"
  shows "rg R P (gets f) Q"
  unfolding gets_def using assms R_refl by (intro rg_atom) auto

text \<open>What every atom keeps of the private part, and what it guarantees.\<close>

lemma rg_guar:
  assumes "guar (\<lambda>\<sigma> \<sigma>'. J (snd \<sigma>) \<longrightarrow> R (fst \<sigma>) (fst \<sigma>') \<and> J (snd \<sigma>')) p"
  shows "rg R (\<lambda>\<sigma>. J (snd \<sigma>)) p (\<lambda>r \<sigma>. J (snd \<sigma>))"
proof -
  have "J c \<Longrightarrow> relies R (local p c) (\<lambda>(r, c') s'. J c') s" for s c
    using assms by (induction p arbitrary: s c) (auto simp: relies_Ret relies_Atom)
  then show ?thesis by (simp add: rg_def)
qed

text \<open>Running a private component to its end.\<close>

lemma relies_local:
  assumes "rg R P p Q" and "P (s, c)" and "\<And>r c' s'. Q r (s', c') \<Longrightarrow> relies R (k (r, c')) T s'"
  shows "relies R (bind (local p c) k) T s"
  using assms by (auto intro!: relies_bind simp: rg_def)

text \<open>The same when nothing in the private part that \<open>eq\<close> looks at changes.\<close>

lemma rg_keeps:
  assumes "guar (\<lambda>\<sigma> \<sigma>'. R (fst \<sigma>) (fst \<sigma>') \<and> eq (snd \<sigma>') = eq (snd \<sigma>)) p"
    and "undisturbed R P" and "\<And>s c c'. P (s, c) \<Longrightarrow> eq c' = eq c \<Longrightarrow> P (s, c')"
  shows "rg R P p (\<lambda>r. P)"
proof -
  have "relies R (local p c) (\<lambda>(r, c') s'. P (s', c')) s" if "P (s, c)" for s c
    using assms(1) that
  proof (induction p arbitrary: s c)
    case (Ret r)
    then show ?case using assms(2) by (auto simp: relies_Ret dest: undisturbedD)
  next
    case (Atom f)
    have "R s' (fst (fst (f (s', c)))) \<and> relies R (local (snd (f (s', c))) (snd (fst (f (s', c)))))
        (\<lambda>(r, c') s'. P (s', c')) (fst (fst (f (s', c))))" if s: "R s s'" for s'
    proof -
      have g: "R s' (fst (fst (f (s', c))))" "eq (snd (fst (f (s', c)))) = eq c"
        "guar (\<lambda>\<sigma> \<sigma>'. R (fst \<sigma>) (fst \<sigma>') \<and> eq (snd \<sigma>') = eq (snd \<sigma>)) (snd (f (s', c)))"
        using Atom.prems(1) by simp_all
      have "P (s', c)" using Atom.prems(2) s assms(2) by (blast dest: undisturbedD)
      then have "P (fst (fst (f (s', c))), c)" using g(1) assms(2) by (blast dest: undisturbedD)
      then have "P (fst (fst (f (s', c))), snd (fst (f (s', c))))" using g(2) by (rule assms(3))
      then show ?thesis using Atom.IH [OF g(3)] g(1) by simp
    qed
    then show ?case by (simp add: relies_Atom)
  qed
  then show ?thesis by (simp add: rg_def)
qed

lemma relies_ebind:
  assumes "relies R p M s" and "\<And>a s. M (Inr a) s \<Longrightarrow> relies R (k a) Q s"
    and "\<And>e s s'. M (Inl e) s \<Longrightarrow> R s s' \<Longrightarrow> Q (Inl e) s'"
  shows "relies R (ebind p k) Q s"
  unfolding ebind_def
  by (rule relies_bind [OF assms(1)]) (use assms(2,3) in \<open>auto split: sum.splits simp: relies_Ret\<close>)

lemma relies_atom:
  assumes "\<And>s'. R s s' \<Longrightarrow> R s' (fst (f s'))" and "\<And>s' s''. R s s' \<Longrightarrow> R (fst (f s')) s'' \<Longrightarrow> Q (snd (f s')) s''"
  shows "relies R (atom f) Q s"
  using assms by (auto simp: atom_def map_prod_def split_def relies_Atom relies_Ret)

text \<open>Running alone is one of the things that may happen.\<close>

lemma relies_run: "relies R p Q s \<Longrightarrow> R s (fst (run p s)) \<and> Q (snd (run p s)) (fst (run p s))"
proof (induction p arbitrary: s)
  case (Atom f)
  then have "R s (fst (f s))" "relies R (snd (f s)) Q (fst (f s))" using R_refl by (simp_all add: relies_Atom)
  then show ?case using Atom.IH [of s "fst (f s)"] R_trans by auto
qed (simp add: relies_Ret R_refl)

section \<open>Many at the same time\<close>

theorem interleave_relies:
  assumes "\<forall>p \<in> set ps. relies R p Q s"
  shows "R s (snd (interleave sched (ps, s))) \<and>
    (\<forall>p \<in> set (fst (interleave sched (ps, s))). relies R p Q (snd (interleave sched (ps, s))))"
proof -
  let ?I = "\<lambda>(ps, s'). R s s' \<and> (\<forall>p \<in> set ps. relies R p Q s')"
  have "?I (interleave sched (ps, s))"
  proof (rule interleave_inv)
    fix ps s' i f
    assume I: "?I (ps, s')" and i: "i < length ps" "ps ! i = Atom f"
    then have "relies R (Atom f) Q s'" by (metis (mono_tags, lifting) case_prod_conv nth_mem)
    then have f: "R s' (fst (f s'))" "relies R (snd (f s')) Q (fst (f s'))"
      using R_refl by (simp_all add: relies_Atom)
    then have "R s (fst (f s'))" using I R_trans by blast
    moreover have "\<forall>p \<in> set (ps[i := snd (f s')]). relies R p Q (fst (f s'))"
      using I f by (auto dest!: set_update_subset_insert [THEN subsetD] intro: relies_later)
    ultimately show "?I (ps[i := snd (f s')], fst (f s'))" by simp
  qed (use assms R_refl in simp)
  then show ?thesis by (simp add: split_def)
qed

end

end
