(* ===== verification/Genuine.thy ===== *)
theory Genuine
  imports Rely System
begin

text \<open>
  What the log can be trusted for. \<open>V r key v x\<close> is what the recorded value \<open>v\<close> of a step of run \<open>r\<close> says
  of the outside world \<open>x\<close>, \<open>G r x\<close> what the completion of the run says of it. When every body that a
  workflow calls delivers what is said of its value, then under any interleaving and any crashes every
  recorded value and every completed run says what is the case. The contract between the runtime and the
  code it runs is a locale; the runtime's half is proved in it once.
\<close>

section \<open>Statements that record nothing\<close>

definition unrecorded :: "pg \<Rightarrow> pg \<Rightarrow> bool" where
  "unrecorded d d' \<longleftrightarrow>
     (\<forall>e \<in> set (pg_events d'). e \<in> set (pg_events d) \<or> ev_type (er_event e) \<noteq> STEP_COMPLETED) \<and>
     (\<forall>w \<in> set (pg_runs d'). rw_status w = COMPLETED \<longrightarrow>
        (\<exists>w0 \<in> set (pg_runs d). rw_run_id w0 = rw_run_id w \<and> rw_status w0 = COMPLETED))"

lemma unrecorded_refl [simp]: "unrecorded d d"
  by (auto simp: unrecorded_def)

lemma unrecorded_update_run:
  assumes "\<And>w. rw_run_id (f w) = rw_run_id w" and "\<And>w. rw_status (f w) = COMPLETED \<Longrightarrow> rw_status w = COMPLETED"
  shows "unrecorded d (update_run r f d)"
  using assms by (fastforce simp: unrecorded_def update_run_def row_update_def split: if_splits)

lemma unrecorded_append: "ty \<noteq> STEP_COMPLETED \<Longrightarrow> unrecorded d (fst (append_event_conn t r ty sk p d))"
  by (fastforce simp: unrecorded_def append_event_conn_def Let_def update_run_def row_update_def split: option.splits if_splits)

lemma unrecorded_set_status: "st \<noteq> COMPLETED \<Longrightarrow> unrecorded d (fst (pg_set_status t r st res err d))"
  by (auto simp: pg_set_status_def intro!: unrecorded_update_run) 

lemma unrecorded_bump: "unrecorded d (fst (pg_bump_attempt t r d))"
  by (auto simp: pg_bump_attempt_def intro: unrecorded_update_run)

lemma unrecorded_usage: "unrecorded d (pg_save_usage t r u d)"
  by (auto simp: pg_save_usage_def intro: unrecorded_update_run)

lemma unrecorded_queue: "pg_runs d' = pg_runs d \<Longrightarrow> pg_events d' = pg_events d \<Longrightarrow> unrecorded d d'"
  by (auto simp: unrecorded_def)

lemma unrecorded_claim: "unrecorded d (fst (pg_claim t w l d))"
  by (auto simp: pg_claim_def intro: unrecorded_queue split: list.splits)

lemma unrecorded_heartbeat: "unrecorded d (fst (pg_heartbeat t r w l d))"
  by (auto simp: pg_heartbeat_def intro: unrecorded_queue)

lemma unrecorded_release: "unrecorded d (pg_release t r w l d)"
  by (auto simp: pg_release_def intro: unrecorded_queue)

lemma unrecorded_dequeue: "unrecorded d (pg_dequeue r d)"
  by (auto simp: pg_dequeue_def intro: unrecorded_queue)

lemma unrecorded_trans: "unrecorded a b \<Longrightarrow> unrecorded b c \<Longrightarrow> unrecorded a c"
  unfolding unrecorded_def by metis

lemma unrecorded_cancel: "unrecorded d (fst (pg_request_cancel t r d))"
  by (auto simp: pg_request_cancel_def intro!: unrecorded_trans [OF unrecorded_update_run unrecorded_append] split: option.splits)

lemma unrecorded_submit: "unrecorded d (fst (pg_submit_run t r wn p k b d))"
proof -
  have "unrecorded d d1" if "append_event_conn t r RUN_STARTED None q
      (d\<lparr>pg_runs := pg_runs d @ [new_run_row t r wn p k b], pg_run_queue := z\<rparr>) = (d1, y)" for d1 q y z
  proof -
    let ?d = "d\<lparr>pg_runs := pg_runs d @ [new_run_row t r wn p k b], pg_run_queue := z\<rparr>"
    have "unrecorded ?d d1" using unrecorded_append [of RUN_STARTED ?d t r None q] that by simp
    moreover have "unrecorded d ?d" by (auto simp: unrecorded_def new_run_row_def)
    ultimately show ?thesis by (blast intro: unrecorded_trans)
  qed
  then show ?thesis by (auto simp: pg_submit_run_def Let_def split: option.splits prod.splits sum.splits)
qed

lemmas unrecorded_ops = unrecorded_refl unrecorded_append unrecorded_set_status unrecorded_bump unrecorded_usage unrecorded_claim unrecorded_heartbeat
  unrecorded_release unrecorded_dequeue unrecorded_cancel unrecorded_submit

text \<open>What replay finds in the log was recorded there.\<close>

lemma completed_from_log:
  "fst (build_replay_state events) key = Some v \<Longrightarrow>
   \<exists>e \<in> set events. ev_type e = STEP_COMPLETED \<and> ev_step_key e = Some key \<and> v = py_get (ev_payload e) ''result'' PNone"
proof -
  have step: "fst (replay_event cu e) key = Some v \<Longrightarrow> fst cu key = Some v \<or>
    ev_type e = STEP_COMPLETED \<and> ev_step_key e = Some key \<and> v = py_get (ev_payload e) ''result'' PNone" for cu e
    by (auto simp: replay_event_def split: option.splits event_type.splits if_splits)
  have "fst (foldl replay_event cu events) key = Some v \<Longrightarrow> fst cu key = Some v \<or>
    (\<exists>e \<in> set events. ev_type e = STEP_COMPLETED \<and> ev_step_key e = Some key \<and> v = py_get (ev_payload e) ''result'' PNone)" for cu
  proof (induction events arbitrary: cu)
    case (Cons e es)
    then have "fst (replay_event cu e) key = Some v \<or>
      (\<exists>e \<in> set es. ev_type e = STEP_COMPLETED \<and> ev_step_key e = Some key \<and> v = py_get (ev_payload e) ''result'' PNone)"
      by simp
    then show ?case using step [of cu e] by auto
  qed simp
  then show "fst (build_replay_state events) key = Some v \<Longrightarrow> ?thesis"
    unfolding build_replay_state_def by force
qed

section \<open>The contract\<close>

locale value_contract =
  fixes V :: "uuid \<Rightarrow> string \<Rightarrow> pyval \<Rightarrow> 'x \<Rightarrow> bool" and G :: "uuid \<Rightarrow> 'x \<Rightarrow> bool" and W :: "'x \<Rightarrow> 'x \<Rightarrow> bool"
  assumes W_refl: "W x x" and W_trans: "W x y \<Longrightarrow> W y z \<Longrightarrow> W x z"
    and V_stable: "V r key v x \<Longrightarrow> W x y \<Longrightarrow> V r key v y"
    and V_json: "V r key v x \<Longrightarrow> json_ok v \<Longrightarrow> V r key (json_norm v) x"
    and G_stable: "G r x \<Longrightarrow> W x y \<Longrightarrow> G r y"
begin

definition genuine :: "(pg, 'x) sys \<Rightarrow> bool" where
  "genuine s \<longleftrightarrow>
     (\<forall>e \<in> set (pg_events (sy_db s)). \<forall>key. ev_type (er_event e) = STEP_COMPLETED \<longrightarrow> ev_step_key (er_event e) = Some key \<longrightarrow>
        V (er_run_id e) key (py_get (ev_payload (er_event e)) ''result'' PNone) (sy_ext s)) \<and>
     (\<forall>w \<in> set (pg_runs (sy_db s)). rw_status w = COMPLETED \<longrightarrow> G (rw_run_id w) (sy_ext s))"

definition moves :: "(pg, 'x) sys \<Rightarrow> (pg, 'x) sys \<Rightarrow> bool" where
  "moves s s' \<longleftrightarrow> W (sy_ext s) (sy_ext s') \<and> (genuine s \<longrightarrow> genuine s')"

lemma moves_refl: "moves s s"
  by (simp add: moves_def W_refl)

lemma moves_trans: "moves s t \<Longrightarrow> moves t u \<Longrightarrow> moves s u"
  by (auto simp: moves_def intro: W_trans)

sublocale preorder_rel moves
  by unfold_locales (blast intro: moves_refl moves_trans)+

lemma genuine_moves: "genuine s \<Longrightarrow> moves s s' \<Longrightarrow> genuine s'"
  by (simp add: moves_def)

lemma moves_unrecorded: "unrecorded (sy_db s) d \<Longrightarrow> moves s (s\<lparr>sy_db := d\<rparr>)"
  unfolding moves_def genuine_def unrecorded_def by (auto simp: W_refl) metis

lemma moves_ext: "W (sy_ext s) x \<Longrightarrow> moves s (s\<lparr>sy_now := t, sy_ext := x\<rparr>)"
  by (auto simp: moves_def genuine_def intro: V_stable G_stable)

lemma moves_simps [simp]: "moves s (s\<lparr>sy_now := t\<rparr>)" "moves s (s\<lparr>sy_calls := cs\<rparr>)"
  by (simp_all add: moves_def W_refl) (simp_all add: genuine_def)

end

section \<open>One attempt\<close>

text \<open>The parts of the context that statements and counters leave alone.\<close>

definition recall :: "ctx \<Rightarrow> uuid \<times> (string \<Rightarrow> nat option) \<times> (string \<Rightarrow> pyval option)" where
  "recall c = (cx_run_id c, cx_ordinals c, cx_completed c)"

definition guard_unrecorded :: "(pg, 'x) deps \<Rightarrow> bool" where
  "guard_unrecorded E \<longleftrightarrow> (\<forall>guard. d_lease_guard E = Some guard \<longrightarrow> (\<forall>t d. unrecorded d (fst (guard t d))))"

lemma recall_simps [simp]:
  "recall (c\<lparr>cx_budget := b\<rparr>) = recall c" "recall (c\<lparr>cx_replayed_steps := n\<rparr>) = recall c"
  "recall (c\<lparr>cx_executed_steps := n\<rparr>) = recall c"
  by (simp_all add: recall_def cx_run_id_def)

context value_contract
begin

definition ctx_at :: "uuid \<Rightarrow> (string \<Rightarrow> nat option) \<Rightarrow> (pg, 'x) sys \<times> ctx \<Rightarrow> bool" where
  "ctx_at r os \<sigma> \<longleftrightarrow> genuine (fst \<sigma>) \<and> cx_run_id (snd \<sigma>) = r \<and> cx_ordinals (snd \<sigma>) = os \<and>
     (\<forall>key v. cx_completed (snd \<sigma>) key = Some v \<longrightarrow> V r key v (sy_ext (fst \<sigma>)))"

definition said :: "uuid \<Rightarrow> string \<Rightarrow> pyval \<Rightarrow> (pg, 'x) sys \<times> ctx \<Rightarrow> bool" where
  "said r key v \<sigma> \<longleftrightarrow> V r key v (sy_ext (fst \<sigma>))"

lemma stable_ctx_at [stable_intros]: "undisturbed moves (ctx_at r os)"
  by (auto simp: undisturbed_def ctx_at_def moves_def intro: V_stable)

lemma stable_said [stable_intros]: "undisturbed moves (said r key v)"
  by (auto simp: undisturbed_def said_def moves_def intro: V_stable)

lemma ctx_at_recall: "ctx_at r os (s, c) \<Longrightarrow> recall c' = recall c \<Longrightarrow> ctx_at r os (s, c')"
  by (simp add: ctx_at_def recall_def)

definition keeps :: "(pg, 'x) sys \<times> ctx \<Rightarrow> (pg, 'x) sys \<times> ctx \<Rightarrow> bool" where
  "keeps \<sigma> \<sigma>' \<longleftrightarrow> moves (fst \<sigma>) (fst \<sigma>') \<and> recall (snd \<sigma>') = recall (snd \<sigma>)"

lemma world_refl [simp]: "keeps \<sigma> \<sigma>"
  by (simp add: keeps_def moves_refl)

text \<open>A program that keeps everything, after which more may be known of the result.\<close>

lemma rg_keeping: "guar keeps p \<Longrightarrow> rg moves (ctx_at r os) p (\<lambda>x. ctx_at r os)"
  by (rule rg_keeps [where eq = recall]) (auto simp: keeps_def [abs_def] stable_ctx_at intro: ctx_at_recall)

lemma rg_keeping_said:
  "guar keeps p \<Longrightarrow> rg moves (\<lambda>\<sigma>. ctx_at r os \<sigma> \<and> said r key v \<sigma>) p (\<lambda>x \<sigma>. ctx_at r os \<sigma> \<and> said r key v \<sigma>)"
  by (rule rg_keeps [where eq = recall])
    (auto simp: keeps_def [abs_def] intro: ctx_at_recall intro!: stable_intros, simp add: said_def)

lemma keeps_gets: "guar keeps (gets f)"
  by (rule guar_getsI) simp

lemma keeps_ctx_gets: "guar keeps (ctx_gets f)"
  unfolding ctx_gets_def by (rule keeps_gets)

lemma keeps_modify: "(\<And>c. recall (f c) = recall c) \<Longrightarrow> guar keeps (ctx_modify f)"
  unfolding ctx_modify_def by (rule guar_modifyI) (auto simp: keeps_def apsnd_def map_prod_def moves_refl)

lemma keeps_statement: "(\<And>c t d. unrecorded d (fst (f c t d))) \<Longrightarrow> guar keeps (ctx_db_op f)"
  by (rule guar_ctx_db_op) (simp add: keeps_def moves_unrecorded)

lemma world_append: "d_store E = pg_store \<Longrightarrow> ty \<noteq> STEP_COMPLETED \<Longrightarrow> guar keeps (append E ty sk p)"
  unfolding append_def by (rule keeps_statement) (simp add: unrecorded_append)

lemma keeps_persist: "d_store E = pg_store \<Longrightarrow> guar keeps (persist_usage E)"
  unfolding persist_usage_def by (rule keeps_statement) (simp add: unrecorded_usage)

lemma keeps_status: "d_store E = pg_store \<Longrightarrow> st \<noteq> COMPLETED \<Longrightarrow> guar keeps (set_run_status E st res err)"
  unfolding set_run_status_def by (rule keeps_statement) (simp add: unrecorded_set_status)

lemma keeps_sleep: "guar keeps (sleep dt)"
  unfolding sleep_def by (rule guar_modifyI) (auto simp: keeps_def)

lemma keeps_log_call: "guar keeps (log_call key)"
  unfolding log_call_def by (rule guar_modifyI) (auto simp: keeps_def split_def)

lemma keeps_guards: "guard_unrecorded E \<Longrightarrow> guar keeps (checkpoint_guards E)"
proof -
  assume g: "guard_unrecorded E"
  have "guar keeps (case d_lease_guard E of None \<Rightarrow> Ret True | Some guard \<Rightarrow> ctx_db_op (\<lambda>c. guard))"
    using g by (cases "d_lease_guard E") (auto simp: guard_unrecorded_def intro!: keeps_statement)
  then show ?thesis
    unfolding checkpoint_guards_def
    by (auto intro!: guar_bindI keeps_ctx_gets keeps_gets keeps_statement guar_raise split: option.splits)
qed

lemmas keeps_intros = guar_Ret guar_raise guar_bindI guar_ebindI keeps_gets keeps_ctx_gets keeps_modify world_append
  keeps_persist keeps_status keeps_sleep keeps_log_call

section \<open>A step\<close>

text \<open>The statement that records a value, and the one that completes a run.\<close>

lemma moves_record:
  assumes "V r key v (sy_ext s)" and "py_get (json_norm p) ''result'' PNone = json_norm v" and "json_ok p \<Longrightarrow> json_ok v"
  shows "moves s (s\<lparr>sy_db := fst (append_event_conn t r STEP_COMPLETED (Some key) p (sy_db s))\<rparr>)"
proof (cases "json_ok p")
  case True
  then have "V r key (json_norm v) (sy_ext s)" using assms(1,3) by (blast intro: V_json)
  then show ?thesis
    using assms(2)
    by (auto simp: moves_def genuine_def W_refl append_event_conn_def Let_def update_run_def row_update_def split: option.splits)
qed (simp add: append_event_conn_def moves_refl)

lemma moves_complete:
  assumes "G r (sy_ext s)"
  shows "moves s (s\<lparr>sy_db := fst (pg_set_status t r COMPLETED res err (sy_db s))\<rparr>)"
  using assms by (auto simp: moves_def genuine_def W_refl pg_set_status_def update_run_def row_update_def split: if_splits)

lemma rg_record:
  assumes "d_store E = pg_store" and "py_get (json_norm p) ''result'' PNone = json_norm v" and "json_ok p \<Longrightarrow> json_ok v"
  shows "rg moves (\<lambda>\<sigma>. ctx_at r os \<sigma> \<and> said r key v \<sigma>) (append E STEP_COMPLETED (Some key) p)
    (\<lambda>x \<sigma>. ctx_at r os \<sigma> \<and> said r key v \<sigma>)"
  unfolding append_def ctx_db_op_def
proof (rule rg_atom)
  fix s :: "(pg, 'x) sys" and c
  let ?s = "s\<lparr>sy_db := fst (append_event_conn (sy_now s) r STEP_COMPLETED (Some key) p (sy_db s))\<rparr>"
  assume pre: "ctx_at r os (s, c) \<and> said r key v (s, c)"
  then have m: "moves s ?s" using assms(2,3) by (auto simp: said_def intro: moves_record)
  then have "ctx_at r os (?s, c)" "said r key v (?s, c)"
    using pre undisturbedD [OF stable_ctx_at] undisturbedD [OF stable_said] by blast+
  then show "moves s (fst (fst ((\<lambda>(s, c). let (d, r) = st_append_event (d_store E) (sy_now s) (cx_run_id c) STEP_COMPLETED (Some key) p (sy_db s)
        in ((s\<lparr>sy_db := d\<rparr>, c), r)) (s, c)))) \<and>
     ctx_at r os (fst ((\<lambda>(s, c). let (d, r) = st_append_event (d_store E) (sy_now s) (cx_run_id c) STEP_COMPLETED (Some key) p (sy_db s)
        in ((s\<lparr>sy_db := d\<rparr>, c), r)) (s, c))) \<and>
     said r key v (fst ((\<lambda>(s, c). let (d, r) = st_append_event (d_store E) (sy_now s) (cx_run_id c) STEP_COMPLETED (Some key) p (sy_db s)
        in ((s\<lparr>sy_db := d\<rparr>, c), r)) (s, c)))"
    using m pre assms(1) by (simp add: split_def Let_def ctx_at_def)
qed (intro stable_intros)+

lemma rg_complete_step:
  assumes "\<And>c. cx_run (f c) = cx_run c \<and> cx_ordinals (f c) = cx_ordinals c \<and> cx_completed (f c) = (cx_completed c)(key \<mapsto> v)"
  shows "rg moves (\<lambda>\<sigma>. ctx_at r os \<sigma> \<and> said r key v \<sigma>) (ctx_modify f) (\<lambda>x \<sigma>. ctx_at r os \<sigma> \<and> said r key v \<sigma>)"
  unfolding ctx_modify_def
  by (rule rg_modify, (intro stable_intros)+) (auto simp: ctx_at_def said_def assms cx_run_id_def moves_refl)

text \<open>What a step comes to: its context as before, and a value that says what is the case.\<close>

definition step_post :: "uuid \<Rightarrow> (string \<Rightarrow> nat option) \<Rightarrow> string \<Rightarrow> (pyval \<times> bool) py_result \<Rightarrow> (pg, 'x) sys \<times> ctx \<Rightarrow> bool" where
  "step_post r os key x \<sigma> \<longleftrightarrow> ctx_at r os \<sigma> \<and> (\<forall>v b. x = Inr (v, b) \<longrightarrow> said r key v \<sigma>)"

definition delivers :: "uuid \<Rightarrow> string \<Rightarrow> (pg, 'x, pyval py_result) ctx_prog \<Rightarrow> bool" where
  "delivers r key p \<longleftrightarrow>
     (\<forall>os. rg moves (ctx_at r os) p (\<lambda>x \<sigma>. ctx_at r os \<sigma> \<and> (\<forall>v. x = Inr v \<longrightarrow> said r key v \<sigma>)))"

definition verifies :: "uuid \<Rightarrow> string \<Rightarrow> (pg, 'x, pyval py_result) ctx_prog \<Rightarrow> bool" where
  "verifies r key p \<longleftrightarrow>
     (\<forall>os. rg moves (ctx_at r os) p (\<lambda>x \<sigma>. ctx_at r os \<sigma> \<and> (\<forall>v. x = Inr v \<longrightarrow> v \<noteq> PNone \<longrightarrow> said r key v \<sigma>)))"

lemma stable_post [stable_intros]: "undisturbed moves (step_post r os key x)"
proof -
  have "step_post r os key x = (\<lambda>\<sigma>. ctx_at r os \<sigma> \<and> (\<forall>v b. x = Inr (v, b) \<longrightarrow> said r key v \<sigma>))"
    by (simp add: fun_eq_iff step_post_def)
  then show ?thesis by (auto intro!: stable_intros stable_imp [where A = "\<lambda>_. x = Inr (v, b)" for v b])
qed

lemma rg_raise: "rg moves (ctx_at r os) (raise e) (step_post r os key)"
  unfolding raise_def by (rule rg_Ret) (auto simp: step_post_def intro: stable_intros)

lemma rg_finish:
  assumes E: "d_store E = pg_store"
  shows "rg moves (\<lambda>\<sigma>. ctx_at r os \<sigma> \<and> said r key v \<sigma>) (finish_step E key n v) (step_post r os key)"
proof -
  let ?P = "\<lambda>\<sigma>. ctx_at r os \<sigma> \<and> said r key v \<sigma>"
  have pg: "py_get (json_norm (PDict [(KStr ''result'', v), (KStr ''attempt'', PInt n)])) ''result'' PNone = json_norm v"
    by (simp add: dict_update_def)
  have st: "undisturbed moves ?P" by (intro stable_intros)
  have fin: "rg moves ?P (ebind (append E STEP_COMPLETED (Some key)
      (PDict [(KStr ''result'', v), (KStr ''attempt'', PInt n)])) (\<lambda>_.
     bind (ctx_modify (\<lambda>c. (complete_step key v c)\<lparr>cx_executed_steps := cx_executed_steps c + 1\<rparr>)) (\<lambda>_.
     bind (persist_usage E) (\<lambda>_. Ret (Inr (v, True)))))) (step_post r os key)"
  proof (rule rg_ebind [OF rg_record [OF E pg]])
    show "json_ok (PDict [(KStr ''result'', v), (KStr ''attempt'', PInt n)]) \<Longrightarrow> json_ok v" by simp
  next
    show "rg moves ?P (bind (ctx_modify (\<lambda>c. (complete_step key v c)\<lparr>cx_executed_steps := cx_executed_steps c + 1\<rparr>)) (\<lambda>_.
        bind (persist_usage E) (\<lambda>_. Ret (Inr (v, True))))) (step_post r os key)"
    proof (rule rg_bind [OF rg_complete_step])
      show "rg moves ?P (bind (persist_usage E) (\<lambda>_. Ret (Inr (v, True)))) (step_post r os key)"
        by (rule rg_bind [OF rg_keeping_said [OF keeps_persist [OF E]]]) (auto intro!: rg_Ret st simp: step_post_def)
    qed (simp add: complete_step_def)
  qed (auto intro: st simp: step_post_def)
  show ?thesis
  proof (cases "json_ok v")
    case True
    then show ?thesis using fin by (simp add: finish_step_def ensure_json_def ebind_def)
  next
    case False
    then show ?thesis
      by (auto simp: finish_step_def ensure_json_def ebind_def step_post_def intro!: rg_Ret st)
  qed
qed

text \<open>Statements that record nothing, and then something else or an exception.\<close>

lemma rg_keeping_then:
  "guar keeps p \<Longrightarrow> (\<And>x. rg moves (ctx_at r os) (k x) Q) \<Longrightarrow> rg moves (ctx_at r os) (bind p k) Q"
  by (rule rg_bind [OF rg_keeping])

lemma rg_keeping_ethen:
  "guar keeps p \<Longrightarrow> (\<And>x. rg moves (ctx_at r os) (k x) (step_post r os key)) \<Longrightarrow>
   rg moves (ctx_at r os) (ebind p k) (step_post r os key)"
  by (rule rg_ebind [OF rg_keeping]) (auto simp: step_post_def intro: stable_intros)

lemma rg_loop:
  assumes E: "d_store E = pg_store" and body: "delivers r key body"
  shows "rg moves (ctx_at r os) (attempt_loop E key body n left) (step_post r os key)"
proof (induction left)
  case 0
  then show ?case by (simp add: rg_raise)
next
  case (Suc left)
  have "rg moves (\<lambda>\<sigma>. ctx_at r os \<sigma> \<and> (\<forall>v. x = Inr v \<longrightarrow> said r key v \<sigma>))
    (case x of Inr result \<Rightarrow> finish_step E key (n - int left) result
     | Inl e \<Rightarrow> if passes_retry e then raise e
         else if left > 0 then
           ebind (append E STEP_RETRIED (Some key) (retry_payload (d_float_str E) (n - int left) e)) (\<lambda>_.
           bind (sleep (se_step_backoff_base (d_settings E) * 2 ^ nat (n - int left - 1))) (\<lambda>_.
           attempt_loop E key body n left))
         else
           ebind (append E STEP_FAILED (Some key) (failed_payload (d_float_str E) (n - int left) e)) (\<lambda>_.
           raise (StepFailedError key (n - int left) e))) (step_post r os key)" for x
  proof (cases x)
    case (Inr result)
    then show ?thesis by (simp add: rg_finish [OF E])
  next
    case (Inl e)
    then show ?thesis
      by (auto intro!: rg_raise rg_keeping_ethen rg_keeping_then world_append keeps_sleep E Suc.IH)
  qed
  from rg_bind [OF body [unfolded delivers_def, THEN spec] this] show ?case
    unfolding attempt_loop.simps by (rule rg_keeping_then [OF keeps_log_call])
qed

definition window_post :: "uuid \<Rightarrow> (string \<Rightarrow> nat option) \<Rightarrow> string \<Rightarrow> pyval option py_result \<Rightarrow> (pg, 'x) sys \<times> ctx \<Rightarrow> bool" where
  "window_post r os key x \<sigma> \<longleftrightarrow> ctx_at r os \<sigma> \<and> (\<forall>v. x = Inr (Some v) \<longrightarrow> said r key v \<sigma>)"

lemma stable_window [stable_intros]: "undisturbed moves (window_post r os key x)"
proof -
  have "window_post r os key x = (\<lambda>\<sigma>. ctx_at r os \<sigma> \<and> (\<forall>v. x = Inr (Some v) \<longrightarrow> said r key v \<sigma>))"
    by (simp add: fun_eq_iff window_post_def)
  then show ?thesis by (auto intro!: stable_intros stable_imp [where A = "\<lambda>_. x = Inr (Some v)" for v])
qed

lemma rg_window:
  assumes E: "d_store E = pg_store" and v: "\<And>p. verify = Some p \<Longrightarrow> verifies r key (p token)"
  shows "rg moves (ctx_at r os) (resolve_crash_window E key token idem verify) (window_post r os key)"
proof -
  let ?v = "case verify of None \<Rightarrow> Ret (Inr PNone) | Some v \<Rightarrow> v token"
  let ?M = "\<lambda>x \<sigma>. ctx_at r os \<sigma> \<and> (\<forall>v. x = Inr v \<longrightarrow> v \<noteq> PNone \<longrightarrow> said r key v \<sigma>)"
  have look: "rg moves (ctx_at r os) ?v ?M"
    using v by (cases verify) (auto simp: verifies_def intro: rg_Ret stable_intros)
  have raised: "rg moves (ctx_at r os) (raise e) (window_post r os key)" for e
    unfolding raise_def by (rule rg_Ret) (auto simp: window_post_def intro: stable_intros)
  have retry: "rg moves (ctx_at r os) (ebind (append E STEP_RETRIED (Some key) p) (\<lambda>_. Ret (Inr None))) (window_post r os key)" for p
    by (rule rg_ebind [OF rg_keeping [OF world_append [OF E]]])
      (auto simp: window_post_def intro!: rg_Ret stable_intros)
  have found: "rg moves (\<lambda>\<sigma>. ctx_at r os \<sigma> \<and> said r key u \<sigma>) (ebind (Ret (ensure_json u key)) (\<lambda>res.
       ebind (append E STEP_COMPLETED (Some key) (PDict [(KStr ''result'', res), (KStr ''recovered_by'', PStr ''verify'')])) (\<lambda>_.
       bind (ctx_modify (complete_step key u)) (\<lambda>_. Ret (Inr (Some u)))))) (window_post r os key)" for u
  proof (cases "json_ok u")
    case True
    have pg: "py_get (json_norm (PDict [(KStr ''result'', u), (KStr ''recovered_by'', PStr ''verify'')])) ''result'' PNone = json_norm u"
      by (simp add: dict_update_def)
    have "rg moves (\<lambda>\<sigma>. ctx_at r os \<sigma> \<and> said r key u \<sigma>) (bind (ctx_modify (complete_step key u)) (\<lambda>_. Ret (Inr (Some u)))) (window_post r os key)"
      by (rule rg_bind [OF rg_complete_step]) (auto simp: complete_step_def window_post_def intro!: rg_Ret stable_intros)
    then have "rg moves (\<lambda>\<sigma>. ctx_at r os \<sigma> \<and> said r key u \<sigma>)
       (ebind (append E STEP_COMPLETED (Some key) (PDict [(KStr ''result'', u), (KStr ''recovered_by'', PStr ''verify'')])) (\<lambda>_.
       bind (ctx_modify (complete_step key u)) (\<lambda>_. Ret (Inr (Some u))))) (window_post r os key)"
      by (intro rg_ebind [OF rg_record [OF E pg]]) (auto simp: window_post_def intro: stable_intros)
    with True show ?thesis by (simp add: ensure_json_def ebind_def)
  next
    case False
    then show ?thesis
      by (auto simp: ensure_json_def ebind_def window_post_def intro!: rg_Ret stable_intros)
  qed
  show ?thesis
    unfolding resolve_crash_window_def
  proof (rule rg_ebind [OF look])
    fix u
    show "rg moves (?M (Inr u)) (if u \<noteq> PNone then
       ebind (Ret (ensure_json u key)) (\<lambda>res.
       ebind (append E STEP_COMPLETED (Some key) (PDict [(KStr ''result'', res), (KStr ''recovered_by'', PStr ''verify'')])) (\<lambda>_.
       bind (ctx_modify (complete_step key u)) (\<lambda>_. Ret (Inr (Some u)))))
     else if idem = AT_LEAST_ONCE then
       ebind (append E STEP_RETRIED (Some key)
                (PDict [(KStr ''reason'', PStr ''crash_window''), (KStr ''token'', PStr (uuid_str token))])) (\<lambda>_.
       Ret (Inr None))
     else raise (AmbiguousStepError key (uuid_str token))) (window_post r os key)"
      by (auto intro: rg_pre [OF found] rg_pre [OF retry] rg_pre [OF raised])
  qed (auto simp: window_post_def intro!: stable_intros)
qed

lemma rg_step:
  assumes E: "d_store E = pg_store" and g: "guard_unrecorded E"
    and body: "delivers r key (fn (step_token r key))" and v: "\<And>p. verify = Some p \<Longrightarrow> verifies r key (p (step_token r key))"
  shows "rg moves (ctx_at r os) (step_with_key E key fn idem verify m) (step_post r os key)"
proof -
  let ?loop = "attempt_loop E key (fn (step_token r key)) (max_step_attempts E m) (nat (max_step_attempts E m))"
  have announce: "rg moves (ctx_at r os) (announce_step E key (step_token r key) b idem verify) (window_post r os key)" for b
  proof (cases b)
    case True
    then show ?thesis using rg_window [OF E v] by (simp add: announce_step_def)
  next
    case False
    have "rg moves (ctx_at r os) (ebind (append E STEP_STARTED (Some key) p) (\<lambda>_. Ret (Inr None))) (window_post r os key)" for p
      by (rule rg_ebind [OF rg_keeping [OF world_append [OF E]]])
        (auto simp: window_post_def intro!: rg_Ret stable_intros)
    with False show ?thesis by (simp add: announce_step_def)
  qed
  have go_on: "rg moves (window_post r os key (Inr x)) (case x of Some v \<Rightarrow> Ret (Inr (v, False)) | None \<Rightarrow> ?loop) (step_post r os key)" for x
  proof (cases x)
    case None
    have "rg moves (window_post r os key (Inr None)) ?loop (step_post r os key)"
      by (rule rg_pre [OF rg_loop [OF E body]]) (simp add: window_post_def)
    with None show ?thesis by simp
  next
    case (Some u)
    then show ?thesis by (auto simp: window_post_def step_post_def intro!: rg_Ret stable_window)
  qed
  have exec: "rg moves (ctx_at r os) (execute_step E key fn idem verify m) (step_post r os key)"
    unfolding execute_step_def
  proof (rule rg_keeping_ethen [OF keeps_guards [OF g]])
    let ?k = "\<lambda>(token, recovering). ebind (announce_step E key token recovering idem verify) (\<lambda>resolved.
       case resolved of Some v \<Rightarrow> Ret (Inr (v, False))
       | None \<Rightarrow> attempt_loop E key (fn token) (max_step_attempts E m) (nat (max_step_attempts E m)))"
    let ?f = "\<lambda>c. (step_token (cx_run_id c) key, cx_unresolved c key \<noteq> None)"
    have "rg moves (ctx_at r os) (ctx_gets ?f) (\<lambda>x \<sigma>. fst x = step_token r key \<and> ctx_at r os \<sigma>)"
      unfolding ctx_gets_def by (rule rg_gets, (intro stable_intros)+) (simp add: ctx_at_def)
    then show "rg moves (ctx_at r os) (bind (ctx_gets ?f) ?k) (step_post r os key)" for x
    proof (rule rg_bind)
      fix x
      show "rg moves (\<lambda>\<sigma>. fst x = step_token r key \<and> ctx_at r os \<sigma>) (?k x) (step_post r os key)"
        by (cases x) (auto intro!: rg_assume rg_ebind [OF announce] go_on stable_intros simp: window_post_def step_post_def)
    qed
  qed
  let ?g = "\<lambda>recorded. case recorded of
       Some v \<Rightarrow> bind (ctx_modify (\<lambda>c. c\<lparr>cx_replayed_steps := cx_replayed_steps c + 1\<rparr>)) (\<lambda>_. Ret (Inr (v, False)))
     | None \<Rightarrow> execute_step E key fn idem verify m"
  let ?M = "\<lambda>x \<sigma>. ctx_at r os \<sigma> \<and> (\<forall>v. x = Some v \<longrightarrow> said r key v \<sigma>)"
  have "rg moves (ctx_at r os) (ctx_gets (\<lambda>c. cx_completed c key)) ?M"
  proof -
    have "undisturbed moves (?M x)" for x
      by (auto intro!: stable_intros stable_imp [where A = "\<lambda>_. x = Some v" for v])
    then show ?thesis
      unfolding ctx_gets_def by (intro rg_gets stable_intros) (auto simp: ctx_at_def said_def)
  qed
  then show ?thesis
    unfolding step_with_key_def
  proof (rule rg_bind)
    fix x
    show "rg moves (?M x) (?g x) (step_post r os key)"
    proof (cases x)
      case None
      then show ?thesis using rg_pre [OF exec] by simp
    next
      case (Some u)
      have "rg moves (\<lambda>\<sigma>. ctx_at r os \<sigma> \<and> said r key u \<sigma>)
        (bind (ctx_modify (\<lambda>c. c\<lparr>cx_replayed_steps := cx_replayed_steps c + 1\<rparr>)) (\<lambda>_. Ret (Inr (u, False)))) (step_post r os key)"
        by (rule rg_bind [OF rg_keeping_said [OF keeps_modify]]) (auto intro!: rg_Ret stable_intros simp: step_post_def)
      with Some show ?thesis by simp
    qed
  qed
qed

end

section \<open>The calls of a workflow\<close>

definition next_number :: "(string \<Rightarrow> nat option) \<Rightarrow> string \<Rightarrow> nat" where
  "next_number os nm = Suc (case os nm of None \<Rightarrow> 0 | Some n \<Rightarrow> n)"

context value_contract
begin

definition on_world :: "rat \<times> 'x \<Rightarrow> rat \<times> 'x \<Rightarrow> bool" where
  "on_world a b \<longleftrightarrow> W (snd a) (snd b)"

sublocale world: preorder_rel on_world
  by unfold_locales (auto simp: on_world_def W_refl intro: W_trans)

lemma rg_next_key:
  "rg moves (ctx_at r os) (next_key nm)
     (\<lambda>key \<sigma>. key = step_key nm (next_number os nm) \<and> ctx_at r (os(nm \<mapsto> next_number os nm)) \<sigma>)"
  unfolding next_key_def
  by (rule rg_atom, (intro stable_intros)+)
    (auto simp: ctx_at_def ordinal_def next_number_def Let_def moves_refl cx_run_id_def)

lemma rg_outside:
  assumes "\<And>t x. relies on_world p (\<lambda>res a. T res (snd a)) (t, x)"
  shows "rg moves (ctx_at r os) (outside p) (\<lambda>res \<sigma>. ctx_at r os \<sigma> \<and> T res (sy_ext (fst \<sigma>)))"
proof -
  have "relies on_world p (\<lambda>res a. T res (snd a)) (sy_now s, sy_ext s) \<Longrightarrow> ctx_at r os (s, c) \<Longrightarrow>
    relies moves (local (outside p) c) (\<lambda>(res, c') s'. ctx_at r os (s', c') \<and> T res (sy_ext (fst (s', c')))) s" for s c
  proof (induction p arbitrary: s)
    case (Ret x)
    have "T x (sy_ext s')" if "moves s s'" for s'
      using Ret.prems(1) that by (auto simp: relies_Ret on_world_def moves_def)
    then show ?case
      using Ret.prems(2) undisturbedD [OF stable_ctx_at] by (fastforce simp: outside_def relies_Ret)
  next
    case (Atom f)
    have "moves s' (s'\<lparr>sy_now := fst (fst (f (sy_now s', sy_ext s'))), sy_ext := snd (fst (f (sy_now s', sy_ext s')))\<rparr>) \<and>
      relies moves (local (outside (snd (f (sy_now s', sy_ext s')))) c)
        (\<lambda>(res, c') s'. ctx_at r os (s', c') \<and> T res (sy_ext (fst (s', c'))))
        (s'\<lparr>sy_now := fst (fst (f (sy_now s', sy_ext s'))), sy_ext := snd (fst (f (sy_now s', sy_ext s')))\<rparr>)"
      if s: "moves s s'" for s'
    proof -
      let ?y = "f (sy_now s', sy_ext s')"
      let ?s = "s'\<lparr>sy_now := fst (fst ?y), sy_ext := snd (fst ?y)\<rparr>"
      have "on_world (sy_now s, sy_ext s) (sy_now s', sy_ext s')" using s by (simp add: on_world_def moves_def)
      then have y: "on_world (sy_now s', sy_ext s') (fst ?y)" "relies on_world (snd ?y) (\<lambda>res a. T res (snd a)) (fst ?y)"
        using Atom.prems(1) by (simp_all add: relies_Atom)
      then have m: "moves s' ?s" by (intro moves_ext) (simp add: on_world_def)
      have "ctx_at r os (?s, c)"
        using undisturbedD [OF stable_ctx_at undisturbedD [OF stable_ctx_at Atom.prems(2) s] m] .
      then show ?thesis using Atom.IH [of _ ?s] y(2) m by simp
    qed
    then show ?case by (simp add: outside_def relies_Atom split_beta')
  qed
  then show ?thesis using assms by (simp add: rg_def)
qed

definition fn_delivers :: "uuid \<Rightarrow> string \<Rightarrow> 'x pyfn \<Rightarrow> bool" where
  "fn_delivers r key fn \<longleftrightarrow> (\<forall>args t x. relies on_world (invoke fn r (step_token r key) args)
     (\<lambda>res a. \<forall>v. res = Inr v \<longrightarrow> V r key v (snd a)) (t, x))"

definition fn_verifies :: "uuid \<Rightarrow> string \<Rightarrow> 'x pyfn \<Rightarrow> bool" where
  "fn_verifies r key fn \<longleftrightarrow> (\<forall>args t x. relies on_world (invoke fn r (step_token r key) args)
     (\<lambda>res a. \<forall>v. res = Inr v \<longrightarrow> v \<noteq> PNone \<longrightarrow> V r key v (snd a)) (t, x))"

lemma rg_run_id: "rg moves (ctx_at r os) (ctx_gets cx_run_id) (\<lambda>rid \<sigma>. rid = r \<and> ctx_at r os \<sigma>)"
  unfolding ctx_gets_def by (rule rg_gets, (intro stable_intros)+) (simp add: ctx_at_def)

lemma rg_call_fn:
  assumes "\<And>t x. relies on_world (invoke fn r token args) (\<lambda>res a. T res (snd a)) (t, x)"
  shows "rg moves (ctx_at r os) (call_fn fn args token) (\<lambda>res \<sigma>. ctx_at r os \<sigma> \<and> T res (sy_ext (fst \<sigma>)))"
  unfolding call_fn_def
  by (rule rg_bind [OF rg_run_id]) (auto intro!: rg_assume rg_outside assms)

lemma delivers_tool: "fn_delivers r key (ts_fn spec) \<Longrightarrow> delivers r key (tool_body spec args (step_token r key))"
  unfolding delivers_def tool_body_def said_def
  by (auto intro!: rg_keeping_then keeps_modify rg_call_fn simp: fn_delivers_def)

lemma verifies_fn: "fn_verifies r key fn \<Longrightarrow> verifies r key (call_fn fn args (step_token r key))"
  unfolding verifies_def said_def by (auto intro!: rg_call_fn simp: fn_verifies_def)

lemma rg_call_tool:
  assumes E: "d_store E = pg_store" "guard_unrecorded E" and spec: "lookup_tool (d_registry E) nm = Inr spec"
    and key: "key = step_key (''tool:'' @ ts_name spec) (next_number os (''tool:'' @ ts_name spec))"
    and fn: "fn_delivers r key (ts_fn spec)" and v: "\<And>v. ts_verify spec = Some v \<Longrightarrow> fn_verifies r key v"
  shows "rg moves (ctx_at r os) (ctx_call_tool E nm args)
    (\<lambda>x \<sigma>. ctx_at r (os(''tool:'' @ ts_name spec \<mapsto> next_number os (''tool:'' @ ts_name spec))) \<sigma> \<and>
       (\<forall>v. x = Inr v \<longrightarrow> said r key v \<sigma>))" (is "rg _ _ _ ?Q")
proof -
  let ?os = "os(''tool:'' @ ts_name spec \<mapsto> next_number os (''tool:'' @ ts_name spec))"
  let ?k = "\<lambda>(result, executed). if executed then
      ebind (append E TOOL_INVOKED (Some key) (tool_invoked_payload spec args)) (\<lambda>_. Ret (Inr result)) else Ret (Inr result)"
  have step: "rg moves (ctx_at r ?os) (step_with_key E key (tool_body spec args) (ts_idempotency spec)
      (map_option (\<lambda>v. call_fn v args) (ts_verify spec)) None) (step_post r ?os key)"
    using v by (intro rg_step E delivers_tool fn) (auto intro: verifies_fn)
  have after: "rg moves (step_post r ?os key (Inr y)) (?k y) ?Q" for y
  proof -
    obtain u b where y: "y = (u, b)" by (cases y)
    have "rg moves (\<lambda>\<sigma>. ctx_at r ?os \<sigma> \<and> said r key u \<sigma>) (?k y) ?Q"
      unfolding y
      by (auto intro!: rg_Ret rg_ebind [OF rg_keeping_said [OF world_append [OF E(1)]]] stable_intros)
    then show ?thesis by (rule rg_pre) (simp add: step_post_def y)
  qed
  have "rg moves (ctx_at r ?os) (ebind (step_with_key E key (tool_body spec args) (ts_idempotency spec)
      (map_option (\<lambda>v. call_fn v args) (ts_verify spec)) None) ?k) ?Q"
    by (rule rg_ebind [OF step after]) (auto simp: step_post_def intro: stable_intros)
  note * = this
  show ?thesis
    unfolding ctx_call_tool_def spec sum.case
  proof (rule rg_bind [OF rg_next_key], rule rg_assume)
    fix key'
    assume "key' = step_key (''tool:'' @ ts_name spec) (next_number os (''tool:'' @ ts_name spec))"
    then have "key' = key" by (simp only: key)
    with * show "rg moves (ctx_at r ?os) (ebind (step_with_key E key' (tool_body spec args) (ts_idempotency spec)
        (map_option (\<lambda>v. call_fn v args) (ts_verify spec)) None) (\<lambda>(result, executed). if executed then
        ebind (append E TOOL_INVOKED (Some key') (tool_invoked_payload spec args)) (\<lambda>_. Ret (Inr result)) else Ret (Inr result))) ?Q"
      by (simp only:)
  qed
qed

lemma rg_no_tool:
  assumes "lookup_tool (d_registry E) nm = Inl e"
  shows "rg moves (ctx_at r os) (ctx_call_tool E nm args) (\<lambda>x \<sigma>. ctx_at r os \<sigma> \<and> (\<exists>e. x = Inl e))"
  unfolding ctx_call_tool_def assms sum.case raise_def by (rule rg_Ret) (auto intro: stable_intros)

lemma rg_model:
  assumes E: "d_store E = pg_store" "guard_unrecorded E" and key: "key = step_key nm (next_number os nm)"
    and p: "\<And>t x. relies on_world (pv_complete (d_provider E) req)
      (\<lambda>res a. \<forall>resp. res = Inr resp \<longrightarrow> V r key (response_to_dict resp) (snd a)) (t, x)"
  shows "rg moves (ctx_at r os) (ctx_model E nm req)
    (\<lambda>x \<sigma>. ctx_at r (os(nm \<mapsto> next_number os nm)) \<sigma> \<and>
       (\<forall>resp. x = Inr resp \<longrightarrow> (\<exists>raw. response_from_dict raw = Inr resp \<and> said r key raw \<sigma>)))" (is "rg _ _ _ ?Q")
proof -
  let ?os = "os(nm \<mapsto> next_number os nm)"
  let ?k = "\<lambda>key'. \<lambda>(raw, executed). ebind (Ret (response_from_dict raw)) (\<lambda>response.
     if executed then
       bind (ctx_modify (\<lambda>c. c\<lparr>cx_budget := (cx_budget c)
               \<lparr>bt_usage := add_model_usage (mr_input_tokens response) (mr_output_tokens response)
                  (mr_cost_usd response) (bt_usage (cx_budget c))\<rparr>\<rparr>)) (\<lambda>_.
       bind (persist_usage E) (\<lambda>_.
       ebind (append E MODEL_CALLED (Some key') (model_called_payload response)) (\<lambda>_.
       Ret (Inr response))))
     else Ret (Inr response))"
  have "delivers r key (model_body E req (step_token r key))"
    unfolding delivers_def model_body_def said_def
  proof
    fix os
    have "rg moves (ctx_at r os) (outside (pv_complete (d_provider E) req))
      (\<lambda>x \<sigma>. ctx_at r os \<sigma> \<and> (\<forall>resp. x = Inr resp \<longrightarrow> said r key (response_to_dict resp) \<sigma>))"
      unfolding said_def by (rule rg_outside) (rule p)
    then show "rg moves (ctx_at r os) (ebind (outside (pv_complete (d_provider E) req)) (\<lambda>resp. Ret (Inr (response_to_dict resp))))
      (\<lambda>x \<sigma>. ctx_at r os \<sigma> \<and> (\<forall>v. x = Inr v \<longrightarrow> V r key v (sy_ext (fst \<sigma>))))"
      by (rule rg_ebind) (auto intro!: rg_Ret stable_conj stable_ctx_at stable_said simp: said_def [symmetric])
  qed
  then have step: "rg moves (ctx_at r ?os) (step_with_key E key (model_body E req) AT_LEAST_ONCE None None) (step_post r ?os key)"
    by (intro rg_step E) simp_all
  have after: "rg moves (step_post r ?os key (Inr y)) (?k key y) ?Q" for y
  proof -
    obtain u b where y: "y = (u, b)" by (cases y)
    have st: "undisturbed moves (\<lambda>\<sigma>. ctx_at r ?os \<sigma> \<and> said r key u \<sigma>)" by (intro stable_intros)
    have "rg moves (\<lambda>\<sigma>. ctx_at r ?os \<sigma> \<and> said r key u \<sigma>) (?k key (u, b)) ?Q"
    proof (cases "response_from_dict u")
      case (Inl e)
      then show ?thesis by (auto simp: ebind_def intro!: rg_Ret st)
    next
      case (Inr resp)
      then show ?thesis
        by (auto simp: ebind_def [of "Ret _"]
            intro!: rg_Ret st rg_bind [OF rg_keeping_said [OF keeps_modify]] rg_bind [OF rg_keeping_said [OF keeps_persist]]
              rg_ebind [OF rg_keeping_said [OF world_append]] E(1))
    qed
    then show ?thesis unfolding y by (rule rg_pre) (simp add: step_post_def)
  qed
  have *: "rg moves (ctx_at r ?os) (ebind (step_with_key E key (model_body E req) AT_LEAST_ONCE None None) (?k key)) ?Q"
    by (rule rg_ebind [OF step after]) (auto simp: step_post_def intro: stable_intros)
  show ?thesis
    unfolding ctx_model_def
  proof (rule rg_bind [OF rg_next_key], rule rg_assume)
    fix key'
    assume "key' = step_key nm (next_number os nm)"
    then have "key' = key" by (simp only: key)
    with * show "rg moves (ctx_at r ?os) (ebind (step_with_key E key' (model_body E req) AT_LEAST_ONCE None None) (?k key')) ?Q"
      by (simp only:)
  qed
qed

section \<open>Attempts and workers\<close>

text \<open>The other half of the contract: a workflow that returns has done what completion says.\<close>

definition honest :: "(pg, 'x) deps \<Rightarrow> bool" where
  "honest E \<longleftrightarrow> d_store E = pg_store \<and>
     (\<forall>g nm f v r. guard_unrecorded (E\<lparr>d_lease_guard := g\<rparr>) \<longrightarrow> lookup_workflow (d_registry E) nm = Inr f \<longrightarrow>
        rg moves (ctx_at r (\<lambda>_. None)) (interp (E\<lparr>d_lease_guard := g\<rparr>) (f v))
          (\<lambda>x \<sigma>. cx_run_id (snd \<sigma>) = r \<and> (\<forall>v. x = Inr v \<longrightarrow> G r (sy_ext (fst \<sigma>)))))"

definition completing :: "uuid \<Rightarrow> (pg, 'x) sys \<times> ctx \<Rightarrow> bool" where
  "completing r \<sigma> \<longleftrightarrow> cx_run_id (snd \<sigma>) = r \<and> G r (sy_ext (fst \<sigma>))"

lemma stable_completing [stable_intros]: "undisturbed moves (completing r)"
  by (auto simp: undisturbed_def completing_def moves_def intro: G_stable)

lemma rg_completing: "guar keeps p \<Longrightarrow> rg moves (completing r) p (\<lambda>x. completing r)"
  by (rule rg_keeps [where eq = recall]) (auto simp: keeps_def [abs_def] completing_def recall_def intro: stable_completing)

lemma rg_true: "guar keeps p \<Longrightarrow> rg moves P p (\<lambda>_ _. True)"
  by (rule rg_pre [of _ "\<lambda>_. True"], rule rg_keeps [where eq = recall]) (auto simp: keeps_def [abs_def] intro: stable_intros)

lemma keeps_fail: "d_store E = pg_store \<Longrightarrow> guar keeps (fail E nm m b d)"
  unfolding fail_def Let_def by (intro keeps_intros) simp_all

lemma keeps_handle: "d_store E = pg_store \<Longrightarrow> guar keeps (handle E e)"
  by (cases e) (simp_all only: handle.simps Let_def, (intro keeps_intros keeps_fail; simp)+)

lemma rg_completed:
  assumes "d_store E = pg_store"
  shows "rg moves (completing r) (set_run_status E COMPLETED v PNone) (\<lambda>_ _. True)"
  unfolding set_run_status_def ctx_db_op_def
  by (rule rg_atom, (intro stable_intros)+)
    (auto simp: assms completing_def split_def Let_def intro: moves_complete)

lemma rg_complete:
  assumes E: "d_store E = pg_store"
  shows "rg moves (completing r) (complete E v) (\<lambda>_ _. True)"
proof -
  have fin: "rg moves (completing r) (ebind (set_run_status E COMPLETED v PNone) (\<lambda>_.
      bind (ctx_gets (make_outcome COMPLETED v PNone)) (\<lambda>oc. Ret (Inr oc)))) (\<lambda>_ _. True)"
    by (rule rg_ebind [OF rg_completed [OF E]]) (auto intro!: rg_true keeps_intros stable_intros)
  show ?thesis
    unfolding complete_def
    by (rule rg_bind [OF rg_completing [OF keeps_gets]], rule rg_ebind [OF rg_completing [OF world_append [OF E]]])
      (auto intro!: rg_bind [OF rg_completing [OF keeps_persist [OF E]]] fin stable_intros)
qed

lemma rg_drive:
  assumes h: "honest E" and g: "guard_unrecorded (E\<lparr>d_lease_guard := gd\<rparr>)" and r: "rr_run_id rr = r"
  shows "rg moves (ctx_at r (\<lambda>_. None)) (drive (E\<lparr>d_lease_guard := gd\<rparr>) rr) (\<lambda>_ _. True)"
proof -
  let ?E = "E\<lparr>d_lease_guard := gd\<rparr>"
  have E: "d_store ?E = pg_store" using h by (simp add: honest_def)
  show ?thesis
  proof (cases "lookup_workflow (d_registry ?E) (rr_workflow rr)")
    case (Inl e)
    then show ?thesis by (simp add: drive_def rg_true keeps_fail E)
  next
    case (Inr f)
    then have "rg moves (ctx_at r (\<lambda>_. None)) (interp ?E (f (rr_input rr)))
       (\<lambda>x \<sigma>. cx_run_id (snd \<sigma>) = r \<and> (\<forall>v. x = Inr v \<longrightarrow> G r (sy_ext (fst \<sigma>))))"
      using h g unfolding honest_def by simp
    moreover have "rg moves (\<lambda>\<sigma>. cx_run_id (snd \<sigma>) = r \<and> (\<forall>v. x = Inr v \<longrightarrow> G r (sy_ext (fst \<sigma>))))
       (case x of Inl e \<Rightarrow> handle ?E e | Inr result \<Rightarrow> complete ?E result) (\<lambda>_ _. True)" for x
      by (cases x) (auto intro: rg_true keeps_handle E rg_pre [OF rg_complete [OF E, of r]] simp: completing_def)
    ultimately show ?thesis
      unfolding drive_def Inr sum.case by (rule rg_bind)
  qed
qed

lemma relies_db_op: "(\<And>t d. unrecorded d (fst (f t d))) \<Longrightarrow> relies moves (db_op f) (\<lambda>_ _. True) s"
  by (rule relies_guar, rule guar_db_op) (simp add: moves_unrecorded)

lemma relies_then:
  assumes "relies moves p (\<lambda>_ _. True) s" and "genuine s" and "\<And>x s. genuine s \<Longrightarrow> relies moves (k x) (\<lambda>_ _. True) s"
  shows "relies moves (bind p k) (\<lambda>_ _. True) s"
proof (rule relies_bind)
  show "relies moves p (\<lambda>_ s. True \<and> genuine s) s"
    by (rule relies_frame [where F = genuine, OF assms(1,2)]) (rule genuine_moves)
qed (simp add: assms(3))

lemma relies_ethen:
  assumes "relies moves p (\<lambda>_ _. True) s" and "genuine s" and "\<And>x s. genuine s \<Longrightarrow> relies moves (k x) (\<lambda>_ _. True) s"
  shows "relies moves (ebind p k) (\<lambda>_ _. True) s"
  unfolding ebind_def
  by (rule relies_then [OF assms(1,2)]) (auto intro: assms(3) simp: relies_Ret split: sum.splits)

lemma guar_begin:
  assumes "d_store E = pg_store"
  shows "guar moves (begin_attempt E r rr)"
proof -
  have op: "(\<And>t d. unrecorded d (fst (f t d))) \<Longrightarrow> guar moves (db_op f)" for f :: "rat \<Rightarrow> pg \<Rightarrow> pg \<times> 'z"
    by (rule guar_db_op) (simp add: moves_unrecorded)
  have resume: "guar moves (if b then ebind (db_op (\<lambda>t. st_append_event (d_store E) t r RUN_RESUMED None p)) (\<lambda>_. Ret (Inr ()))
      else Ret (Inr ()))" for b p
    by (cases b) (simp_all add: assms guar_ebindI op unrecorded_append)
  have status: "guar moves (db_op (\<lambda>t. st_set_status (d_store E) t r RUNNING PNone PNone))"
    by (rule op) (simp add: assms unrecorded_set_status)
  have bump: "guar moves (db_op (\<lambda>t. st_bump_attempt (d_store E) t r))"
    by (rule op) (simp add: assms unrecorded_bump)
  show ?thesis
    unfolding begin_attempt_def
    by (rule guar_ebindI [OF bump]) (simp add: guar_raise guar_ebindI resume status split: option.split)
qed

lemma ctx_at_new:
  assumes "genuine s" and "rr_run_id rr = r"
  shows "ctx_at r (\<lambda>_. None) (s, new_context rr (pg_load_events r (sy_db s)))"
proof -
  have "V r key v (sy_ext s)" if rec: "fst (build_replay_state (pg_load_events r (sy_db s))) key = Some v" for key v
  proof -
    obtain e where e: "e \<in> set (pg_load_events r (sy_db s))" "ev_type e = STEP_COMPLETED" "ev_step_key e = Some key"
      "v = py_get (ev_payload e) ''result'' PNone"
      using completed_from_log [OF rec] by blast
    from e(1) obtain er where "er \<in> set (pg_events (sy_db s))" "er_run_id er = r" "er_event er = e"
      by (auto simp: pg_load_events_def)
    with assms(1) e(2,3) show ?thesis unfolding genuine_def e(4) by blast
  qed
  then show ?thesis using assms by (simp add: ctx_at_def new_context_def cx_run_id_def)
qed

lemma relies_execute:
  assumes h: "honest E" and g: "guard_unrecorded (E\<lparr>d_lease_guard := gd\<rparr>)" and s: "genuine s"
  shows "relies moves (execute (E\<lparr>d_lease_guard := gd\<rparr>) r) (\<lambda>_ _. True) s"
proof -
  let ?E = "E\<lparr>d_lease_guard := gd\<rparr>"
  have E: "d_store ?E = pg_store" using h by (simp add: honest_def)
  have drive: "relies moves (bind (gets (\<lambda>s. st_load_events (d_store ?E) r (sy_db s))) (\<lambda>events.
      bind (local (drive ?E rr) (new_context rr events)) (\<lambda>(x, c). Ret x))) (\<lambda>_ _. True) s"
    if "rr_run_id rr = r" "genuine s" for rr s
  proof (rule relies_gets)
    fix s'
    assume "moves s s'"
    then have "ctx_at r (\<lambda>_. None) (s', new_context rr (pg_load_events r (sy_db s')))"
      using ctx_at_new [OF genuine_moves [OF that(2)] that(1)] by blast
    then show "relies moves (bind (local (drive ?E rr) (new_context rr (st_load_events (d_store ?E) r (sy_db s')))) (\<lambda>(x, c). Ret x)) (\<lambda>_ _. True) s'"
      unfolding E pg_store_simps by (rule relies_local [OF rg_drive [OF h g that(1)]]) (simp add: relies_Ret)
  qed
  have attempt: "relies moves (run_attempt ?E r) (\<lambda>_ _. True) s" if "genuine s" for s
    unfolding run_attempt_def
  proof (rule relies_gets)
    fix s'
    assume m: "moves s s'"
    show "relies moves (bind (gets (\<lambda>s. st_load_events (d_store ?E) r (sy_db s))) (\<lambda>events.
        case st_get_run (d_store ?E) r (sy_db s') of
          None \<Rightarrow> raise (PyError ''AttributeError'' (Some ''NoneType object has no attribute run_id''))
        | Some rr \<Rightarrow> bind (local (drive ?E rr) (new_context rr events)) (\<lambda>(x, c). Ret x))) (\<lambda>_ _. True) s'"
    proof (cases "st_get_run (d_store ?E) r (sy_db s')")
      case None
      then show ?thesis by (auto intro!: relies_gets simp: raise_def relies_Ret)
    next
      case (Some rr)
      then show ?thesis using drive [of rr s'] pg_get_run_id E genuine_moves [OF that m] by simp
    qed
  qed
  show ?thesis
    unfolding execute_def
  proof (rule relies_gets)
    fix s'
    assume m: "moves s s'"
    then have s': "genuine s'" using s by (rule genuine_moves [rotated])
    have run: "relies moves (ebind (begin_attempt ?E r rr) (\<lambda>_. run_attempt ?E r)) (\<lambda>_ _. True) s'" for rr
      by (rule relies_ethen [OF relies_guar [OF guar_begin [OF E]] s' attempt])
    show "relies moves (case st_get_run (d_store ?E) r (sy_db s') of
        None \<Rightarrow> raise (PyError ''LookupError'' (Some (''run '' @ uuid_str r @ '' does not exist'')))
      | Some rr \<Rightarrow> if terminal (rr_status rr)
         then Ret (Inr \<lparr>oc_run_id = r, oc_status = rr_status rr, oc_result = rr_result rr,
                        oc_error = rr_error rr, oc_replayed_steps = 0, oc_executed_steps = 0\<rparr>)
         else ebind (begin_attempt ?E r rr) (\<lambda>_. run_attempt ?E r)) (\<lambda>_ _. True) s'"
      using run by (simp add: raise_def relies_Ret split: option.split)
  qed
qed

lemma relies_run_once:
  assumes h: "honest E" and s: "genuine s"
  shows "relies moves (run_once E w st) (\<lambda>_ _. True) s"
proof -
  have E: "d_store E = pg_store" using h by (simp add: honest_def)
  have "relies moves (process E w r st) (\<lambda>_ _. True) s" if "genuine s" for r st s
    unfolding process_def guarded_def
  proof (rule relies_then [OF relies_execute [OF h _ that] that])
    show "guard_unrecorded (E\<lparr>d_lease_guard := Some (owns E w r)\<rparr>)"
      by (auto simp: guard_unrecorded_def owns_def E unrecorded_heartbeat)
  qed (auto intro!: relies_then relies_db_op simp: E relies_Ret unrecorded_ops split: sum.split)
  then show ?thesis
    unfolding run_once_def
    by (auto intro!: relies_then [OF relies_db_op s] simp: E relies_Ret unrecorded_claim split: option.splits)
qed

text \<open>Whatever is interleaved with whatever and wherever it dies: the log stays genuine.\<close>

theorem interleave_genuine:
  assumes "genuine s" and "\<forall>p \<in> set ps. relies moves p (\<lambda>_ _. True) s"
  shows "genuine (snd (interleave sched (ps, s))) \<and> W (sy_ext s) (sy_ext (snd (interleave sched (ps, s))))"
  using interleave_relies [OF assms(2)] assms(1) by (auto simp: moves_def)

end

end
