(* ===== verification/Chaos.thy ===== *)
theory Chaos
  imports Genuine Refund
begin

text \<open>
  The promise of the refund example, and what \<open>scripts/chaos_kill.py\<close> measures: whatever workers run the
  agent at the same time and wherever they are killed, a run is refunded at most once, and a run that is
  completed has its refund in the ledger. The argument is the contract of \<open>Genuine\<close>: a recorded answer of
  the model is the next call of its plan, so an attempt asks for the refund once and under one key, whose
  token deduplicates; a recorded refund is in the ledger.
\<close>

section \<open>What recorded values say\<close>

definition refund_key :: string where
  "refund_key = step_key ''tool:issue_refund'' 1"

definition refund_token :: "uuid \<Rightarrow> uuid" where
  "refund_token r = step_token r refund_key"

definition landed :: "uuid \<Rightarrow> world \<Rightarrow> bool" where
  "landed r x \<longleftrightarrow> (\<exists>e \<in> set (wo_effects x). ef_token e = refund_token r)"

definition planned :: "string list \<Rightarrow> nat \<Rightarrow> string list" where
  "planned plan n = (if n < length plan then [plan ! n] else [])"

definition answers :: "string list \<Rightarrow> nat \<Rightarrow> pyval \<Rightarrow> bool" where
  "answers plan n v \<longleftrightarrow> (\<exists>resp. map tc_name (mr_tool_calls resp) = planned plan n \<and>
     (v = response_to_dict resp \<or> v = json_norm (response_to_dict resp) \<and> json_ok (response_to_dict resp)))"

definition value_says :: "string list \<Rightarrow> uuid \<Rightarrow> string \<Rightarrow> pyval \<Rightarrow> world \<Rightarrow> bool" where
  "value_says plan r key v x \<longleftrightarrow>
     (\<forall>n. key = step_key ''model'' (Suc n) \<longrightarrow> answers plan n v) \<and> (key = refund_key \<longrightarrow> landed r x)"

definition run_says :: "string list \<Rightarrow> uuid \<Rightarrow> world \<Rightarrow> bool" where
  "run_says plan r x \<longleftrightarrow> (''issue_refund'' \<in> set (take MAX_TURNS plan) \<longrightarrow> landed r x)"

definition tokens_ok :: "effect list \<Rightarrow> bool" where
  "tokens_ok es \<longleftrightarrow> distinct (map ef_token es) \<and>
     (\<forall>e \<in> set es. ef_kind e = ''refund'' \<longrightarrow> ef_token e = refund_token (ef_run_id e))"

definition world_moves :: "world \<Rightarrow> world \<Rightarrow> bool" where
  "world_moves x y \<longleftrightarrow> extends (wo_effects y) (wo_effects x) \<and> (tokens_ok (wo_effects x) \<longrightarrow> tokens_ok (wo_effects y))"

lemma landed_moves: "landed r x \<Longrightarrow> world_moves x y \<Longrightarrow> landed r y"
  by (auto simp: landed_def world_moves_def dest: extends_set)

lemma answers_norm: "answers plan n v \<Longrightarrow> json_ok v \<Longrightarrow> answers plan n (json_norm v)"
  unfolding answers_def by (metis json_norm_idem)

interpretation refund: value_contract "value_says plan" "run_says plan" world_moves for plan
proof
  show "world_moves x x" for x by (simp add: world_moves_def)
  show "world_moves x y \<Longrightarrow> world_moves y z \<Longrightarrow> world_moves x z" for x y z
    unfolding world_moves_def using extends_trans by blast
  show "value_says plan r key v x \<Longrightarrow> world_moves x y \<Longrightarrow> value_says plan r key v y" for r key v x y
    by (auto simp: value_says_def intro: landed_moves)
  show "value_says plan r key v x \<Longrightarrow> json_ok v \<Longrightarrow> value_says plan r key (json_norm v) x" for r key v x
    by (auto simp: value_says_def intro: answers_norm)
  show "run_says plan r x \<Longrightarrow> world_moves x y \<Longrightarrow> run_says plan r y" for r x y
    by (auto simp: run_says_def intro: landed_moves)
qed

text \<open>An answer that is read back, from memory or from the log, asks for what was planned.\<close>

lemma read_back_names:
  "response_from_dict (json_norm (response_to_dict resp)) = Inr resp' \<Longrightarrow>
   map tc_name (mr_tool_calls resp') = map tc_name (mr_tool_calls resp)"
proof -
  have "res_map tool_call_from_dict (map (json_norm \<circ> tool_call_to_dict) cs) = Inr cs' \<Longrightarrow> map tc_name cs' = map tc_name cs" for cs cs'
  proof (induction cs arbitrary: cs')
    case (Cons c cs)
    obtain c' where "tool_call_from_dict (json_norm (tool_call_to_dict c)) = Inr c'" "tc_name c' = tc_name c"
      by (simp add: tool_call_to_dict_def tool_call_from_dict_def item_str_def dict_update_def)
    with Cons show ?case by (auto simp: res_bind_def split: sum.splits)
  qed simp
  then show "response_from_dict (json_norm (response_to_dict resp)) = Inr resp' \<Longrightarrow> ?thesis"
    by (auto simp: response_to_dict_def response_from_dict_def dict_update_def get_str_def get_int_def get_float_def
        res_bind_def split: sum.splits)
qed

lemma answers_read:
  assumes "answers plan n v" and "response_from_dict v = Inr resp"
  shows "map tc_name (mr_tool_calls resp) = planned plan n"
proof -
  obtain r0 where r0: "map tc_name (mr_tool_calls r0) = planned plan n" "v = response_to_dict r0 \<or> v = json_norm (response_to_dict r0)"
    using assms(1) by (auto simp: answers_def)
  from r0(2) have "map tc_name (mr_tool_calls resp) = map tc_name (mr_tool_calls r0)"
    using assms(2) read_back_names [of r0 resp] by (auto simp: response_roundtrip)
  with r0(1) show ?thesis by simp
qed

section \<open>The code that runs outside\<close>

lemma echo_planned: "map tc_name (mr_tool_calls (echo_response fs pf ec messages)) = planned (ec_plan ec) (turn_of messages)"
  by (simp add: echo_response_def planned_def Let_def)

lemma model_delivers:
  assumes "ec_plan ec = plan" and "turn_of (rq_messages req) = n"
  shows "relies refund.on_world (pv_complete (refund_provider fs pf ec) req)
    (\<lambda>res a. \<forall>resp. res = Inr resp \<longrightarrow> value_says plan r (step_key ''model'' (Suc n)) (response_to_dict resp) (snd a)) (t, x)"
  (is "relies _ _ ?Q _")
proof -
  have "value_says plan r (step_key ''model'' (Suc n)) (response_to_dict (echo_response fs pf ec (rq_messages req))) y" for y
    using echo_planned [of fs pf ec "rq_messages req"] assms
    by (auto simp: value_says_def step_key_inj refund_key_def answers_def)
  then have resp: "relies refund.on_world (Ret (Inr (echo_response fs pf ec (rq_messages req)))) ?Q a" for a
    by (simp add: relies_Ret)
  have latency: "guar refund.on_world (if b then modify (\<lambda>(t, x). (t + dt, x)) else Ret ())" for b dt
    by (auto intro!: guar_modifyI simp: refund.on_world_def world_moves_def)
  have count: "guar refund.on_world (atom (\<lambda>(t, x). if wo_failures x < ec_fail_first_n ec
      then ((t, x\<lparr>wo_failures := wo_failures x + 1\<rparr>), Some (wo_failures x + 1)) else ((t, x), None)))"
    by (rule guar_atomI) (auto simp: refund.on_world_def world_moves_def)
  show ?thesis
    unfolding refund_provider_def echo_provider_def echo_complete_def provider.select_convs
  proof (rule refund.world.relies_bind [OF refund.world.relies_guar [OF count]])
    fix failure a
    have "relies refund.on_world (bind (if ec_latency_seconds ec \<noteq> 0 then modify (\<lambda>(t, x). (t + max 0 (ec_latency_seconds ec), x))
        else Ret ()) (\<lambda>_. Ret (Inr (echo_response fs pf ec (rq_messages req))))) ?Q a"
      by (rule refund.world.relies_bind [OF refund.world.relies_guar [OF latency] resp])
    then show "relies refund.on_world (case failure of
        Some n \<Rightarrow> Ret (Inl (PyError ''ConnectionError'' (Some (''simulated provider failure #'' @ str_int n))))
      | None \<Rightarrow> bind (if ec_latency_seconds ec \<noteq> 0 then modify (\<lambda>(t, x). (t + max 0 (ec_latency_seconds ec), x)) else Ret ())
          (\<lambda>_. Ret (Inr (echo_response fs pf ec (rq_messages req))))) ?Q a"
      by (cases failure) (simp_all add: relies_Ret)
  qed
qed

text \<open>A body that records nothing of its own, at a key nothing is said of.\<close>

lemma other_delivers:
  assumes "guar refund.on_world (invoke fn r (step_token r key) args)" and "\<And>v x. value_says plan r key v x"
  shows "relies refund.on_world (invoke fn r (step_token r key) args) (\<lambda>res a. \<forall>v. res = Inr v \<longrightarrow> value_says plan r key v (snd a)) a"
  by (rule relies_mono [OF refund.world.relies_guar [OF assms(1)]]) (simp add: assms(2))

definition recording :: "uuid \<Rightarrow> uuid \<Rightarrow> string \<Rightarrow> pyval \<Rightarrow> rat \<times> world \<Rightarrow> (rat \<times> world) \<times> bool py_result" where
  "recording token rid kind payload = (\<lambda>(t, x).
     let (es, r) = record_side_effect t token rid kind payload (wo_effects x) in ((t, x\<lparr>wo_effects := es\<rparr>), r))"

lemma record_effect_eq: "record_effect token rid kind payload = atom (recording token rid kind payload)"
  by (simp add: record_effect_def recording_def)

lemma recording_moves:
  "(kind = ''refund'' \<Longrightarrow> token = refund_token rid) \<Longrightarrow> refund.on_world a (fst (recording token rid kind payload a))"
  by (auto simp: recording_def refund.on_world_def world_moves_def record_side_effect_def tokens_ok_def Let_def split_def)

lemma recording_lands: "snd (recording (refund_token rid) rid kind payload a) = Inr v \<Longrightarrow> landed rid (snd (fst (recording (refund_token rid) rid kind payload a)))"
  by (auto simp: recording_def landed_def record_side_effect_def Let_def split_def split: if_splits)

lemma guar_record:
  "(kind = ''refund'' \<Longrightarrow> token = refund_token rid) \<Longrightarrow> guar refund.on_world (record_effect token rid kind payload)"
  unfolding record_effect_eq by (rule guar_atomI) (rule recording_moves)

lemma relies_record:
  "relies refund.on_world (record_effect (refund_token rid) rid kind payload) (\<lambda>res a. \<forall>v. res = Inr v \<longrightarrow> landed rid (snd a)) a"
  unfolding record_effect_eq
proof (rule refund.world.relies_atom)
  show "refund.on_world a' (fst (recording (refund_token rid) rid kind payload a'))" for a' by (rule recording_moves) simp
qed (auto intro: landed_moves dest!: recording_lands simp: refund.on_world_def)

lemma ledger_find: "find_side_effect isof token es \<noteq> PNone \<Longrightarrow> \<exists>e \<in> set es. ef_token e = token"
  using row_find_SomeD [of "\<lambda>e. ef_token e = token" es] by (auto simp: find_side_effect_def split: option.splits)

text \<open>The arguments a call passes on carry the run and the token of the step.\<close>

lemma invoke_cases:
  obtains e where "invoke fn r token args = Ret (Inl e)"
  | rest where "invoke fn r token args = pf_code fn
      ((if ''ctx'' \<in> set (pf_params fn) then [(''ctx'', ArgCtx r)] else [])
       @ (if ''token'' \<in> set (pf_params fn) \<or> pf_var_kwargs fn then [(''token'', ArgToken token)] else []) @ rest)"
proof (cases "\<exists>e. invoke fn r token args = Ret (Inl e)")
  case False
  define injected where "injected = (if ''ctx'' \<in> set (pf_params fn) then [(''ctx'', ArgCtx r)] else [])
       @ (if ''token'' \<in> set (pf_params fn) \<or> pf_var_kwargs fn then [(''token'', ArgToken token)] else [])"
  obtain rest where "invoke fn r token args = pf_code fn (injected @ rest)"
    using False unfolding invoke_def Let_def injected_def [symmetric] by (metis (no_types, lifting))
  then show ?thesis using that(2) unfolding injected_def append_assoc by blast
qed (use that(1) in blast)

lemma invoke_refund:
  obtains e where "invoke (issue_refund fs delay) r token args = Ret (Inl e)"
  | as where "ctx_arg as = Inr r" "token_arg as = Inr token"
      "invoke (issue_refund fs delay) r token args = pf_code (issue_refund fs delay) as"
proof (cases rule: invoke_cases [of "issue_refund fs delay" r token args])
  case (2 rest)
  moreover have "pf_params (issue_refund fs delay) = [''ctx'', ''token'', ''payment_id'', ''amount_cents'']"
    by (simp add: issue_refund_def)
  ultimately show ?thesis
    using that(2) [of "(''ctx'', ArgCtx r) # (''token'', ArgToken token) # rest"] by (simp add: ctx_arg_def token_arg_def)
qed (use that(1) in blast)

lemma invoke_landed:
  obtains e where "invoke (refund_landed isof) r token args = Ret (Inl e)"
  | as where "token_arg as = Inr token" "invoke (refund_landed isof) r token args = pf_code (refund_landed isof) as"
proof (cases rule: invoke_cases [of "refund_landed isof" r token args])
  case (2 rest)
  moreover have "pf_params (refund_landed isof) = [''ctx'', ''token'']" by (simp add: refund_landed_def)
  ultimately show ?thesis
    using that(2) [of "(''ctx'', ArgCtx r) # (''token'', ArgToken token) # rest"] by (simp add: token_arg_def)
qed (use that(1) in blast)

lemma refund_delivers: "refund.fn_delivers plan r refund_key (issue_refund fs delay)"
  unfolding refund.fn_delivers_def
proof (intro allI)
  fix args t x
  let ?Q = "\<lambda>res a. \<forall>v. res = Inr v \<longrightarrow> value_says plan r refund_key v (snd a)"
  have lands: "landed r y \<Longrightarrow> value_says plan r refund_key v y" for v y
    by (simp add: value_says_def refund_key_def step_key_inj)
  have stay: "landed r (snd a) \<Longrightarrow> refund.on_world a b \<Longrightarrow> landed r (snd b)" for a b
    by (auto simp: refund.on_world_def intro: landed_moves)
  have body: "relies refund.on_world (pf_code (issue_refund fs delay) as) ?Q a"
    if "ctx_arg as = Inr r" "token_arg as = Inr (refund_token r)" for as a
  proof -
    have fin: "relies refund.on_world (ebind (Ret delay) (\<lambda>d.
        bind (if d \<noteq> 0 then modify (\<lambda>(t, x). (t + max 0 d, x)) else Ret ()) (\<lambda>_.
        Ret (Inr (refund_result pid amount token created))))) ?Q a"
      if l: "landed r (snd a)" for pid amount token created a
    proof (cases delay)
      case (Inr d)
      have "guar refund.on_world (if d \<noteq> 0 then modify (\<lambda>(t, x). (t + max 0 d, x)) else Ret ())"
        by (auto intro!: guar_modifyI simp: refund.on_world_def world_moves_def)
      from relies_frame [OF refund.world.relies_guar [OF this], where F = "\<lambda>a. landed r (snd a)"] l stay
      have "relies refund.on_world (if d \<noteq> 0 then modify (\<lambda>(t, x). (t + max 0 d, x)) else Ret ()) (\<lambda>_ a. True \<and> landed r (snd a)) a"
        by blast
      then have "relies refund.on_world (bind (if d \<noteq> 0 then modify (\<lambda>(t, x). (t + max 0 d, x)) else Ret ()) (\<lambda>_.
        Ret (Inr (refund_result pid amount token created)))) ?Q a"
      proof (rule refund.world.relies_bind)
        show "True \<and> landed r (snd a) \<Longrightarrow> relies refund.on_world (Ret (Inr (refund_result pid amount token created))) ?Q a" for a
          using stay [of a] by (auto simp: relies_Ret simp del: split_paired_All intro: lands)
      qed
      with Inr show ?thesis by (simp add: ebind_def)
    qed (simp add: ebind_def relies_Ret)
    have rec: "relies refund.on_world (ebind (record_effect (refund_token r) r ''refund'' p) (\<lambda>created. ebind (Ret delay) (\<lambda>d.
        bind (if d \<noteq> 0 then modify (\<lambda>(t, x). (t + max 0 d, x)) else Ret ()) (\<lambda>_.
        Ret (Inr (refund_result pid amount (refund_token r) created)))))) ?Q a" for p pid amount a
      by (rule refund.world.relies_ebind [OF relies_record fin]) simp_all
    show ?thesis
      unfolding issue_refund_def pyfn.select_convs that
      using rec by (simp add: ebind_def [of "Ret _"] relies_Ret split: sum.split)
  qed
  show "relies refund.on_world (invoke (issue_refund fs delay) r (step_token r refund_key) args) ?Q (t, x)"
  proof (cases rule: invoke_refund [of fs delay r "step_token r refund_key" args])
    case (2 as)
    then show ?thesis using body [of as] by (simp add: refund_token_def)
  qed (simp add: relies_Ret)
qed

lemma landed_verifies: "refund.fn_verifies plan r refund_key (refund_landed isof)"
  unfolding refund.fn_verifies_def
proof (intro allI)
  fix args t x
  let ?Q = "\<lambda>res a. \<forall>v. res = Inr v \<longrightarrow> v \<noteq> PNone \<longrightarrow> value_says plan r refund_key v (snd a)"
  have body: "relies refund.on_world (pf_code (refund_landed isof) as) ?Q a" if "token_arg as = Inr (refund_token r)" for as a
  proof -
    have found: "value_says plan r refund_key v (snd b)"
      if "find_side_effect isof (refund_token r) (wo_effects (snd c)) = v" "v \<noteq> PNone" "refund.on_world c b" for v b c
    proof -
      have "landed r (snd c)" using ledger_find that(1,2) by (auto simp: landed_def)
      then have "landed r (snd b)" using that(3) by (auto simp: refund.on_world_def intro: landed_moves)
      then show ?thesis by (simp add: value_says_def refund_key_def step_key_inj)
    qed
    have "relies refund.on_world (gets (\<lambda>(t, x). Inr (find_side_effect isof (refund_token r) (wo_effects x)))) ?Q a"
      unfolding gets_def
      by (rule refund.world.relies_atom) (auto simp: refund.world.R_refl split_def intro: found)
    then show ?thesis by (simp add: refund_landed_def that ebind_def)
  qed
  show "relies refund.on_world (invoke (refund_landed isof) r (step_token r refund_key) args) ?Q (t, x)"
  proof (cases rule: invoke_landed [of isof r "step_token r refund_key" args])
    case (2 as)
    then show ?thesis using body [of as] by (simp add: refund_token_def)
  qed (simp add: relies_Ret)
qed

text \<open>The other two tools, at their own keys.\<close>

lemma quiet_key: "nm \<noteq> ''model'' \<Longrightarrow> nm \<noteq> ''tool:issue_refund'' \<Longrightarrow> value_says plan r (step_key nm n) v x"
  by (simp add: value_says_def refund_key_def step_key_inj)

lemma lookup_delivers: "refund.fn_delivers plan r (step_key ''tool:lookup_payment'' n) (lookup_payment fs)"
proof -
  have "guar refund.on_world (invoke (lookup_payment fs) r token args)" for token args
    by (cases rule: invoke_cases [of "lookup_payment fs" r token args]) (auto simp: lookup_payment_def)
  then show ?thesis by (auto simp: refund.fn_delivers_def intro!: other_delivers quiet_key)
qed

lemma notify_delivers: "refund.fn_delivers plan r (step_key ''tool:notify_customer'' n) notify_customer"
proof -
  have code: "guar refund.on_world (pf_code notify_customer as)" for as
    unfolding notify_customer_def pyfn.select_convs
    by (intro guar_ebind_Ret guar_ebindI guar_record) auto
  have "guar refund.on_world (invoke notify_customer r token args)" for token args
    by (cases rule: invoke_cases [of notify_customer r token args]) (auto simp: code)
  then show ?thesis by (auto simp: refund.fn_delivers_def intro!: other_delivers quiet_key)
qed

section \<open>The agent\<close>

lemma next_number_upd: "next_number (os(nm \<mapsto> k)) nm' = (if nm' = nm then Suc k else next_number os nm')"
  by (simp add: next_number_def)

definition asked :: "string list \<Rightarrow> nat \<Rightarrow> uuid \<Rightarrow> (pg, world) sys \<Rightarrow> bool" where
  "asked plan n r s \<longleftrightarrow> (''issue_refund'' \<in> set (take n plan) \<longrightarrow> landed r (sy_ext s))"

definition agent_post :: "string list \<Rightarrow> uuid \<Rightarrow> pyval py_result \<Rightarrow> (pg, world) sys \<times> ctx \<Rightarrow> bool" where
  "agent_post plan r x \<sigma> \<longleftrightarrow> cx_run_id (snd \<sigma>) = r \<and> (\<forall>v. x = Inr v \<longrightarrow> run_says plan r (sy_ext (fst \<sigma>)))"

lemma asked_moves: "asked plan n r s \<Longrightarrow> refund.moves plan s s' \<Longrightarrow> asked plan n r s'"
  by (auto simp: asked_def refund.moves_def intro: landed_moves)

lemma stable_asked: "undisturbed (refund.moves plan) (\<lambda>\<sigma>. asked plan n r (fst \<sigma>))"
  by (auto simp: undisturbed_def intro: asked_moves)

lemma ctx_at_id: "refund.ctx_at plan r os \<sigma> \<Longrightarrow> cx_run_id (snd \<sigma>) = r"
  by (simp add: refund.ctx_at_def)

lemma rg_raised: "rg (refund.moves plan) (\<lambda>\<sigma>. refund.ctx_at plan r os \<sigma> \<and> P (fst \<sigma>)) (interp E (WRaise e)) (agent_post plan r)"
  by (rule rg_pre [of _ "refund.ctx_at plan r os"], unfold interp.simps raise_def, rule refund.rg_Ret)
    (auto simp: agent_post_def refund.ctx_at_def intro: refund.stable_ctx_at)

text \<open>The agent returns when it has nothing more to ask for, or at the end of its turns.\<close>

lemma rg_summary:
  assumes "\<And>s. asked plan n r s \<Longrightarrow> run_says plan r (sy_ext s)"
  shows "rg (refund.moves plan) (\<lambda>\<sigma>. refund.ctx_at plan r os \<sigma> \<and> asked plan n r (fst \<sigma>)) (interp E (refund_summary txt tr)) (agent_post plan r)"
proof -
  let ?P = "\<lambda>\<sigma>. refund.ctx_at plan r os \<sigma> \<and> asked plan n r (fst \<sigma>)"
  have st: "undisturbed (refund.moves plan) ?P" by (intro stable_conj refund.stable_ctx_at stable_asked)
  have "rg (refund.moves plan) ?P (ctx_gets (\<lambda>c. (cx_executed_steps c, cx_replayed_steps c))) (\<lambda>_. ?P)"
    unfolding ctx_gets_def by (rule refund.rg_gets) (use st in simp_all)
  then show ?thesis
    unfolding refund_summary_def interp.simps comp_def
  proof (rule refund.rg_bind)
    fix y :: "nat \<times> nat"
    show "rg (refund.moves plan) ?P (interp E (case y of (executed, replayed) \<Rightarrow> WReturn (PDict
       [(KStr ''summary'', PStr txt), (KStr ''steps_executed'', PInt (int executed)),
        (KStr ''steps_replayed'', PInt (int replayed)), (KStr ''transcript'', PList tr)]))) (agent_post plan r)"
      unfolding split_def interp.simps
      by (rule refund.rg_Ret [OF st]) (use assms ctx_at_id in \<open>auto simp: agent_post_def\<close>)
  qed
qed

lemma tool_names: "lookup_tool (refund_registry fs isof delay) nm = Inr spec \<Longrightarrow> ts_name spec = nm"
  by (auto simp: lookup_tool_def refund_registry_def refund_tools_def lookup_tool_spec_def refund_tool_spec_def
      notify_tool_spec_def Let_def split: if_splits)

lemma count_once:
  assumes "count_list plan a \<le> 1" and "n < length plan" and "plan ! n = a"
  shows "count_list (take n plan) a = 0"
proof -
  have "count_list plan a = count_list (take n plan) a + count_list (drop n plan) a"
    by (metis append_take_drop_id count_list_append)
  moreover have "drop n plan = a # drop (Suc n) plan" using assms(2,3) by (metis Cons_nth_drop_Suc)
  ultimately show ?thesis using assms(1) by simp
qed

text \<open>The tool call of turn \<open>n\<close>.\<close>

lemma rg_planned_call:
  assumes E: "d_store E = pg_store" "guard_unrecorded E" "d_registry E = refund_registry fs isof delay"
    and once: "count_list plan ''issue_refund'' \<le> 1" and n: "n < length plan"
    and os: "next_number os ''tool:issue_refund'' = Suc (count_list (take n plan) ''issue_refund'')"
    and spec: "lookup_tool (refund_registry fs isof delay) (plan ! n) = Inr spec"
  shows "rg (refund.moves plan) (\<lambda>\<sigma>. refund.ctx_at plan r os \<sigma> \<and> asked plan n r (fst \<sigma>)) (ctx_call_tool E (plan ! n) args)
    (\<lambda>x \<sigma>. refund.ctx_at plan r (os(''tool:'' @ plan ! n \<mapsto> next_number os (''tool:'' @ plan ! n))) \<sigma> \<and>
       (\<forall>v. x = Inr v \<longrightarrow> asked plan (Suc n) r (fst \<sigma>)))"
proof -
  let ?nm = "''tool:'' @ plan ! n"
  let ?key = "step_key ?nm (next_number os ?nm)"
  have name: "ts_name spec = plan ! n" using tool_names [OF spec] .
  have specs: "spec \<in> {lookup_tool_spec fs, refund_tool_spec fs isof delay, notify_tool_spec}" using refund_tool_cases [OF spec] .
  have issue: "?key = refund_key" if "plan ! n = ''issue_refund''"
    using os count_once [OF once n that] that by (simp add: refund_key_def)
  have key: "?key = step_key (''tool:'' @ ts_name spec) (next_number os (''tool:'' @ ts_name spec))" by (simp add: name)
  have fn: "refund.fn_delivers plan r ?key (ts_fn spec)"
  proof -
    consider "spec = lookup_tool_spec fs" | "spec = refund_tool_spec fs isof delay" | "spec = notify_tool_spec" using specs by blast
    then show ?thesis
    proof cases
      case 1
      then have "?nm = ''tool:lookup_payment''" using name by (simp add: lookup_tool_spec_def)
      then show ?thesis unfolding 1 by (simp add: lookup_tool_spec_def lookup_delivers)
    next
      case 2
      then have "?key = refund_key" using name by (intro issue) (simp add: refund_tool_spec_def)
      then show ?thesis unfolding 2 by (simp only: refund_tool_spec_def tool_spec.select_convs refund_delivers)
    next
      case 3
      then have "?nm = ''tool:notify_customer''" using name by (simp add: notify_tool_spec_def)
      then show ?thesis unfolding 3 by (simp add: notify_tool_spec_def notify_delivers)
    qed
  qed
  have v: "refund.fn_verifies plan r ?key v" if "ts_verify spec = Some v" for v
  proof -
    have s: "spec = refund_tool_spec fs isof delay" "v = refund_landed isof"
      using specs that by (auto simp: lookup_tool_spec_def refund_tool_spec_def notify_tool_spec_def)
    then have "?key = refund_key" using name by (intro issue) (simp add: refund_tool_spec_def)
    then show ?thesis unfolding s(2) by (simp only: landed_verifies)
  qed
  have call: "rg (refund.moves plan) (refund.ctx_at plan r os) (ctx_call_tool E (plan ! n) args)
    (\<lambda>x \<sigma>. refund.ctx_at plan r (os(?nm \<mapsto> next_number os ?nm)) \<sigma> \<and> (\<forall>v. x = Inr v \<longrightarrow> refund.said plan r ?key v \<sigma>))"
    using refund.rg_call_tool [OF E(1,2) spec [folded E(3)] key fn v, where args = args] by (simp add: name)
  have more: "asked plan (Suc n) r (fst \<sigma>)" if "asked plan n r (fst \<sigma>)" "refund.said plan r ?key v \<sigma>" for v \<sigma>
  proof (cases "plan ! n = ''issue_refund''")
    case True
    then show ?thesis using that(2) issue by (simp add: asked_def refund.said_def value_says_def)
  next
    case False
    then show ?thesis using that(1) n by (auto simp: asked_def take_Suc_conv_app_nth)
  qed
  show ?thesis
    by (rule rg_post [OF rg_frame [OF call, where F = "asked plan n r"]]) (use asked_moves more in blast)+
qed

lemma rg_after_call:
  assumes "\<And>v. rg R (\<lambda>\<sigma>. P \<sigma> \<and> Q \<sigma>) (k (Inr v)) T" and "\<And>e. rg R P (k (Inl e)) T"
  shows "rg R (\<lambda>\<sigma>. P \<sigma> \<and> (\<forall>v. x = Inr v \<longrightarrow> Q \<sigma>)) (k x) T"
  using assms by (cases x) (auto intro: rg_pre)

lemma rg_turns:
  assumes E: "d_store E = pg_store" "guard_unrecorded E" "d_registry E = refund_registry fs isof delay"
    "d_provider E = refund_provider fs pf ec" and plan: "ec_plan ec = plan" and once: "count_list plan ''issue_refund'' \<le> 1"
  shows "m + n = MAX_TURNS \<Longrightarrow> turn_of messages = n \<Longrightarrow> next_number os ''model'' = Suc n \<Longrightarrow>
    next_number os ''tool:issue_refund'' = Suc (count_list (take n plan) ''issue_refund'') \<Longrightarrow>
    rg (refund.moves plan) (\<lambda>\<sigma>. refund.ctx_at plan r os \<sigma> \<and> asked plan n r (fst \<sigma>))
      (interp E (agent_turns fs' schemas m messages tr)) (agent_post plan r)"
proof (induction m arbitrary: n messages os tr)
  case 0
  have "run_says plan r (sy_ext s)" if "asked plan n r s" for s
    using that 0 by (simp add: asked_def run_says_def)
  then show ?case by (simp add: rg_summary)
next
  case (Suc m)
  let ?os = "os(''model'' \<mapsto> next_number os ''model'')"
  let ?key = "step_key ''model'' (next_number os ''model'')"
  let ?req = "agent_request schemas messages"
  let ?T = "agent_post plan r"
  have model: "rg (refund.moves plan) (refund.ctx_at plan r os) (ctx_model E ''model'' ?req)
    (\<lambda>x \<sigma>. refund.ctx_at plan r ?os \<sigma> \<and>
       (\<forall>resp. x = Inr resp \<longrightarrow> (\<exists>raw. response_from_dict raw = Inr resp \<and> refund.said plan r ?key raw \<sigma>)))"
  proof (rule refund.rg_model [OF E(1,2) refl])
    fix t x
    show "relies refund.on_world (pv_complete (d_provider E) ?req)
      (\<lambda>res a. \<forall>resp. res = Inr resp \<longrightarrow> value_says plan r ?key (response_to_dict resp) (snd a)) (t, x)"
      unfolding E(4) Suc.prems(3) by (rule model_delivers [OF plan]) (simp add: agent_request_def Suc.prems(2))
  qed
  define go :: "model_response \<Rightarrow> world wf" where "go resp = (if \<not> wants_tools resp then refund_summary (mr_text resp) tr
     else call_tools fs' (mr_tool_calls resp) tr [] (\<lambda>tr results. agent_turns fs' schemas m
            (messages @ [assistant_message resp, user_message (PList results)]) tr))" for resp
  have names: "map tc_name (mr_tool_calls resp) = planned plan n"
    if "response_from_dict raw = Inr resp" "refund.said plan r ?key raw \<sigma>" for raw resp \<sigma>
    using that by (auto simp: refund.said_def value_says_def Suc.prems(3) intro: answers_read)
  have turn: "rg (refund.moves plan) (\<lambda>\<sigma>. refund.ctx_at plan r ?os \<sigma> \<and> asked plan n r (fst \<sigma>)) (interp E (go resp)) ?T"
    if resp: "map tc_name (mr_tool_calls resp) = planned plan n" for resp
  proof (cases "n < length plan")
    case False
    then have "\<not> wants_tools resp" using resp by (simp add: planned_def wants_tools_def)
    moreover have "run_says plan r (sy_ext s)" if "asked plan n r s" for s
      using that False by (auto simp: asked_def run_says_def dest: in_set_takeD)
    ultimately show ?thesis by (simp add: go_def rg_summary)
  next
    case True
    then obtain c where c: "mr_tool_calls resp = [c]" "tc_name c = plan ! n" using resp by (auto simp: planned_def map_eq_Cons_conv)
    let ?nm = "''tool:'' @ plan ! n"
    let ?os' = "?os(?nm \<mapsto> next_number ?os ?nm)"
    define onward :: "pyval py_result \<Rightarrow> world wf" where "onward x = (case x of Inl e \<Rightarrow> WRaise e | Inr out \<Rightarrow>
        agent_turns fs' schemas m (messages @ [assistant_message resp, user_message (PList
          [PDict [(KStr ''type'', PStr ''tool_result''), (KStr ''tool_use_id'', PStr (tc_id c)),
                  (KStr ''content'', PStr (json_text fs' out))]])])
          (tr @ [PDict [(KStr ''tool'', PStr (tc_name c)), (KStr ''output'', out)]]))" for x
    have count: "count_list (take (Suc n) plan) ''issue_refund'' =
        count_list (take n plan) ''issue_refund'' + (if plan ! n = ''issue_refund'' then 1 else 0)"
      using True by (simp add: take_Suc_conv_app_nth)
    have rest: "rg (refund.moves plan) (\<lambda>\<sigma>. refund.ctx_at plan r ?os' \<sigma> \<and> asked plan (Suc n) r (fst \<sigma>))
        (interp E (agent_turns fs' schemas m (messages @ [assistant_message resp, user_message (PList results)]) tr')) ?T" for results tr'
    proof (rule Suc.IH)
      have tool: "(''tool:issue_refund'' = ?nm) = (plan ! n = ''issue_refund'')" "''model'' \<noteq> ?nm" by auto
      show "next_number ?os' ''model'' = Suc (Suc n)" unfolding next_number_upd using Suc.prems(3) tool(2) by simp
      show "next_number ?os' ''tool:issue_refund'' = Suc (count_list (take (Suc n) plan) ''issue_refund'')"
      proof (cases "plan ! n = ''issue_refund''")
        case True
        then show ?thesis unfolding next_number_upd count using Suc.prems(4) by (simp add: next_number_upd)
      next
        case False
        then show ?thesis unfolding next_number_upd count tool(1) using Suc.prems(4) by simp
      qed
    qed (use Suc.prems in \<open>simp_all add: assistant_message_def user_message_def\<close>)
    have "rg (refund.moves plan) (\<lambda>\<sigma>. refund.ctx_at plan r ?os \<sigma> \<and> asked plan n r (fst \<sigma>)) (ctx_call_tool E (plan ! n) args)
       (\<lambda>x \<sigma>. refund.ctx_at plan r os2 \<sigma> \<and> (\<forall>v. x = Inr v \<longrightarrow> asked plan (Suc n) r (fst \<sigma>)))"
      if "lookup_tool (refund_registry fs isof delay) (plan ! n) = Inr spec" "os2 = ?os'" for args spec os2
      unfolding that(2)
      by (rule rg_planned_call [OF E(1,2,3) once True _ that(1)]) (simp add: next_number_upd Suc.prems(4))
    note call = this
    have run: "interp E (go resp) = bind (ctx_call_tool E (plan ! n) (tc_arguments c)) (\<lambda>x. interp E (onward x))"
      using c by (simp add: go_def wants_tools_def onward_def comp_def cong: sum.case_cong)
    have inl: "rg (refund.moves plan) (\<lambda>\<sigma>. refund.ctx_at plan r os2 \<sigma>) (interp E (onward (Inl e))) ?T" for os2 e
      using rg_raised [of plan r os2 "\<lambda>_. True"] by (simp add: onward_def)
    show ?thesis
    proof (cases "lookup_tool (refund_registry fs isof delay) (plan ! n)")
      case (Inl e)
      have none: "rg (refund.moves plan) (\<lambda>\<sigma>. refund.ctx_at plan r ?os \<sigma> \<and> (\<exists>e. x = Inl e)) (interp E (onward x)) ?T" for x
        using inl [of ?os] by (cases x) (auto simp: rg_def)
      have "rg (refund.moves plan) (refund.ctx_at plan r ?os) (interp E (go resp)) ?T"
        unfolding run using refund.rg_bind [OF refund.rg_no_tool none] Inl E(3) by simp
      then show ?thesis by (rule rg_pre) simp
    next
      case (Inr spec)
      show ?thesis
        unfolding run
      proof (rule refund.rg_bind [OF call [OF Inr refl]])
        show "rg (refund.moves plan) (\<lambda>\<sigma>. refund.ctx_at plan r ?os' \<sigma> \<and> (\<forall>v. x = Inr v \<longrightarrow> asked plan (Suc n) r (fst \<sigma>)))
          (interp E (onward x)) ?T" for x
        proof (rule rg_after_call [where k = "\<lambda>x. interp E (onward x)"])
          show "rg (refund.moves plan) (\<lambda>\<sigma>. refund.ctx_at plan r ?os' \<sigma> \<and> asked plan (Suc n) r (fst \<sigma>)) (interp E (onward (Inr v))) ?T" for v
            using rest by (simp add: onward_def)
        qed (rule inl)
      qed
    qed
  qed
  have run: "interp E (agent_turns fs' schemas (Suc m) messages tr) =
      bind (ctx_model E ''model'' ?req) (\<lambda>x. interp E (case x of Inl e \<Rightarrow> WRaise e | Inr resp \<Rightarrow> go resp))"
    by (simp add: go_def comp_def cong: sum.case_cong)
  have after: "rg (refund.moves plan) (\<lambda>\<sigma>. (refund.ctx_at plan r ?os \<sigma> \<and>
       (\<forall>resp. x = Inr resp \<longrightarrow> (\<exists>raw. response_from_dict raw = Inr resp \<and> refund.said plan r ?key raw \<sigma>))) \<and> asked plan n r (fst \<sigma>))
     (interp E (case x of Inl e \<Rightarrow> WRaise e | Inr resp \<Rightarrow> go resp)) ?T" for x
  proof (cases x)
    case (Inl e)
    then show ?thesis using rg_pre [OF rg_raised [of plan r ?os "asked plan n r"]] by simp
  next
    case (Inr resp)
    show ?thesis
    proof (cases "map tc_name (mr_tool_calls resp) = planned plan n")
      case True
      then show ?thesis unfolding Inr sum.case by (intro rg_pre [OF turn]) auto
    next
      case False
      then show ?thesis using names Inr by (auto simp: rg_def)
    qed
  qed
  show ?case
    unfolding run by (rule refund.rg_bind [OF rg_frame [OF model, where F = "asked plan n r"] after]) (rule asked_moves)
qed

lemma refund_honest:
  assumes E: "refund_deps E fs pf isof delay ec" "d_store E = pg_store" and plan: "ec_plan ec = plan"
    and once: "count_list plan ''issue_refund'' \<le> 1"
  shows "refund.honest plan E"
  unfolding refund.honest_def
proof (intro conjI allI impI)
  fix g nm f v r
  let ?E = "E\<lparr>d_lease_guard := g\<rparr>"
  assume guard: "guard_unrecorded ?E" and f: "lookup_workflow (d_registry E) nm = Inr f"
  have fv: "f v = refund_agent fs \<lparr>rg_workflows = [], rg_tools = refund_tools fs isof delay\<rparr> v"
    using f E(1) by (auto simp: refund_deps_def lookup_workflow_def refund_registry_def Let_def split: if_splits)
  have start: "rg (refund.moves plan) (\<lambda>\<sigma>. refund.ctx_at plan r (\<lambda>_. None) \<sigma> \<and> asked plan 0 r (fst \<sigma>))
      (interp ?E (agent_turns fs schemas MAX_TURNS [user_message (PStr q)] [])) (agent_post plan r)" for schemas q
    by (rule rg_turns [where isof = isof and delay = delay and pf = pf])
      (use E plan once guard in \<open>simp_all add: refund_deps_def next_number_def user_message_def\<close>)
  have raised: "rg (refund.moves plan) (\<lambda>\<sigma>. refund.ctx_at plan r (\<lambda>_. None) \<sigma> \<and> asked plan 0 r (fst \<sigma>)) (interp ?E (WRaise e)) (agent_post plan r)" for e
    by (rule rg_raised)
  have "rg (refund.moves plan) (\<lambda>\<sigma>. refund.ctx_at plan r (\<lambda>_. None) \<sigma> \<and> asked plan 0 r (fst \<sigma>)) (interp ?E (f v)) (agent_post plan r)"
    unfolding fv refund_agent_def using start raised by (simp only: split: sum.split) blast
  then have "rg (refund.moves plan) (refund.ctx_at plan r (\<lambda>_. None)) (interp ?E (f v)) (agent_post plan r)"
    by (rule rg_pre) (simp add: asked_def)
  then show "rg (refund.moves plan) (refund.ctx_at plan r (\<lambda>_. None)) (interp ?E (f v))
      (\<lambda>x \<sigma>. cx_run_id (snd \<sigma>) = r \<and> (\<forall>v. x = Inr v \<longrightarrow> run_says plan r (sy_ext (fst \<sigma>))))"
    by (simp add: agent_post_def [abs_def])
qed (rule E(2))

section \<open>One refund\<close>

text \<open>
  Everybody who acts on the system: workers of any settings that run the agent with the plan of the
  offline provider, clients that submit and cancel runs, heartbeats, and time that passes.
\<close>

definition request :: "(rat \<Rightarrow> pg \<Rightarrow> pg \<times> 'r) \<Rightarrow> (pg, 'x) worker_prog" where
  "request f = bind (db_op f) (\<lambda>_. Ret (new_stats, None))"

inductive refund_client :: "string list \<Rightarrow> (pg, world) worker_prog \<Rightarrow> bool" for plan where
  worker:
    "refund_deps E fs pf isof delay ec \<Longrightarrow> d_store E = pg_store \<Longrightarrow> ec_plan ec = plan \<Longrightarrow>
     refund_client plan (run_once E w st)"
| submit: "refund_client plan (request (\<lambda>t. pg_submit_run t r wn p k b))"
| cancel: "refund_client plan (request (\<lambda>t. pg_request_cancel t r))"
| heartbeat: "refund_client plan (request (\<lambda>t. pg_heartbeat t r w l))"
| wait: "refund_client plan (bind (modify (\<lambda>s. s\<lparr>sy_now := sy_now s + dt\<rparr>)) (\<lambda>_. Ret (new_stats, None)))"

lemma relies_client:
  assumes "refund_client plan p" and "count_list plan ''issue_refund'' \<le> 1" and "refund.genuine plan s"
  shows "relies (refund.moves plan) p (\<lambda>_ _. True) s"
  using assms(1)
proof cases
  case (worker E fs pf isof delay ec w st)
  then show ?thesis using refund.relies_run_once [OF refund_honest assms(3)] assms(2) by blast
next
  case (wait dt)
  then show ?thesis by (auto intro!: refund.relies_guar guar_bindI guar_modifyI)
qed (auto simp: request_def intro!: refund.relies_guar guar_bindI guar_db_op refund.moves_unrecorded unrecorded_ops)

text \<open>Nobody has worked yet: nothing is recorded, nothing completed, nothing refunded.\<close>

definition untouched :: "(pg, world) sys \<Rightarrow> bool" where
  "untouched s \<longleftrightarrow> (\<forall>e \<in> set (pg_events (sy_db s)). ev_type (er_event e) \<noteq> STEP_COMPLETED) \<and>
     (\<forall>w \<in> set (pg_runs (sy_db s)). rw_status w \<noteq> COMPLETED) \<and> wo_effects (sy_ext s) = []"

lemma same_token_once: "distinct (map f xs) \<Longrightarrow> (\<And>x. x \<in> set xs \<Longrightarrow> P x \<Longrightarrow> f x = t) \<Longrightarrow> length (filter P xs) \<le> 1"
proof (induction xs)
  case (Cons x xs)
  have "filter P xs = []" if "P x"
    using that Cons.prems by (fastforce simp: filter_empty_conv)
  with Cons show ?case by auto
qed simp

lemma one_refund_per_token: "tokens_ok es \<Longrightarrow> count_side_effects r ''refund'' es \<le> 1"
  unfolding count_side_effects_def
  by (rule same_token_once [where f = ef_token and t = "refund_token r"]) (auto simp: tokens_ok_def)

lemma untouched_start: "untouched s \<Longrightarrow> refund.genuine plan s \<and> tokens_ok (wo_effects (sy_ext s))"
  by (auto simp: refund.genuine_def untouched_def tokens_ok_def)

lemma chaos_outcome:
  assumes "\<forall>p \<in> set ps. refund_client plan p" and "count_list plan ''issue_refund'' \<le> 1" and "untouched s"
    and "interleave sched (ps, s) = (ps', s')"
  shows "count_side_effects r ''refund'' (wo_effects (sy_ext s')) \<le> 1 \<and>
    (status_of pg_store r (sy_db s') = Some COMPLETED \<longrightarrow> ''issue_refund'' \<in> set (take MAX_TURNS plan) \<longrightarrow>
       (\<exists>e \<in> set (wo_effects (sy_ext s')). ef_token e = step_token r (step_key ''tool:issue_refund'' 1) \<and>
          (ef_run_id e = r \<longrightarrow> ef_kind e = ''refund'' \<longrightarrow> count_side_effects r ''refund'' (wo_effects (sy_ext s')) = 1)))"
proof -
  have start: "refund.genuine plan s" using untouched_start [OF assms(3)] by blast
  have "refund.genuine plan s' \<and> world_moves (sy_ext s) (sy_ext s')"
    using refund.interleave_genuine [OF start, of ps sched] relies_client [OF _ assms(2) start] assms(1,4) by simp
  then have g: "refund.genuine plan s'" and t: "tokens_ok (wo_effects (sy_ext s'))"
    using untouched_start [OF assms(3)] by (simp_all add: world_moves_def)
  have le: "count_side_effects r ''refund'' (wo_effects (sy_ext s')) \<le> 1"
    by (rule one_refund_per_token [OF t])
  have "\<exists>e \<in> set (wo_effects (sy_ext s')). ef_token e = refund_token r"
    if completed: "status_of pg_store r (sy_db s') = Some COMPLETED" "''issue_refund'' \<in> set (take MAX_TURNS plan)"
  proof -
    obtain w where w: "find_run r (sy_db s') = Some w" "rw_status w = COMPLETED"
      using completed(1) by (cases "find_run r (sy_db s')") (simp_all add: status_of_def pg_get_run_def to_run_def)
    then have "w \<in> set (pg_runs (sy_db s'))" "rw_run_id w = r" using find_run_SomeD by blast+
    with g w(2) completed(2) show ?thesis by (auto simp: refund.genuine_def run_says_def landed_def)
  qed
  moreover have "count_side_effects r ''refund'' (wo_effects (sy_ext s')) = 1"
    if "e \<in> set (wo_effects (sy_ext s'))" "ef_run_id e = r" "ef_kind e = ''refund''" for e
  proof -
    have "e \<in> set (filter (\<lambda>e. ef_run_id e = r \<and> ef_kind e = ''refund'') (wo_effects (sy_ext s')))" using that by simp
    then have "0 < count_side_effects r ''refund'' (wo_effects (sy_ext s'))"
      unfolding count_side_effects_def by (rule length_pos_if_in_set)
    then show ?thesis using le by simp
  qed
  ultimately show ?thesis using le by (auto simp: refund_token_def refund_key_def)
qed


text \<open>The same facts, as one number, for the clients of this theory.\<close>

lemma refunded_once:
  assumes "\<forall>p \<in> set ps. refund_client plan p" and "count_list plan ''issue_refund'' \<le> 1" and "untouched s"
    and "interleave sched (ps, s) = (ps', s')" and "status_of pg_store r (sy_db s') = Some COMPLETED"
    and "''issue_refund'' \<in> set (take MAX_TURNS plan)"
    and "\<forall>e \<in> set (wo_effects (sy_ext s')). ef_token e = step_token r (step_key ''tool:issue_refund'' 1) \<longrightarrow>
         ef_run_id e = r \<and> ef_kind e = ''refund''"
  shows "count_side_effects r ''refund'' (wo_effects (sy_ext s')) = 1"
  using chaos_outcome [OF assms(1-4), of r] assms(5-7) by blast

definition demo_input :: "string \<Rightarrow> pyval" where
  "demo_input pid = PDict [(KStr ''payment_id'', PStr pid), (KStr ''amount_cents'', PInt 100)]"

definition refund_sys :: "(pg, world) sys" where
  "refund_sys = \<lparr>sy_now = 0, sy_db = pg_empty, sy_ext = \<lparr>wo_effects = [], wo_failures = 0\<rparr>, sy_calls = []\<rparr>"

lemma untouched_refund_sys: "untouched refund_sys"
  by (simp add: untouched_def refund_sys_def pg_empty_def)

lemma refund_demo_client: "refund_client agent_tools (run_once refund_demo w st)"
  by (rule refund_client.worker [of _ "\<lambda>_. ''0.0''" "\<lambda>_. 0" "\<lambda>_. []" "Inr 0" "default_echo\<lparr>ec_plan := agent_tools\<rparr>"])
    (simp_all add: refund_demo_def refund_deps_def)


end
