(* ===== verification/Anthropic.thy ===== *)
theory Anthropic
  imports Echo Budgets
begin

text \<open>
  \<open>src/anchor/providers/anthropic.py\<close>: the provider that asks a real model. The package \<open>anthropic\<close> and the
  service behind it are not in the repository: \<open>create\<close>, the call \<open>client.messages.create(**kwargs)\<close> of a client
  made with a key, is a parameter, any program over the outside world. What is modelled is what the file
  does around it: the choice of the key and the prices, the request it sends, what it makes of the answer.
\<close>

section \<open>Making the provider\<close>

record anthropic =
  an_model :: string
  an_key :: string
  an_price_in :: rat
  an_price_out :: rat

definition runtime_error :: "string \<Rightarrow> exn" where
  "runtime_error m = PyError ''RuntimeError'' (Some m)"

definition price :: "(string \<Rightarrow> rat py_result) \<Rightarrow> env \<Rightarrow> string \<Rightarrow> rat py_result" where
  "price float_of env direction = env_num float_of env (''ANCHOR_PRICE_'' @ direction @ ''_PER_MTOK'') 0"

text \<open>\<open>a or b\<close> on optional strings: an empty one counts as none.\<close>

definition or_str :: "string option \<Rightarrow> string option \<Rightarrow> string option" where
  "or_str a b = (case a of None \<Rightarrow> b | Some s \<Rightarrow> if s = [] then b else a)"

definition new_anthropic ::
  "bool \<Rightarrow> (string \<Rightarrow> rat py_result) \<Rightarrow> env \<Rightarrow> string \<Rightarrow> string option \<Rightarrow> rat option \<Rightarrow> rat option \<Rightarrow> anthropic py_result" where
  "new_anthropic installed float_of env model api_key price_in price_out =
     (if \<not> installed then
        Inl (runtime_error (''the anthropic package is required for ANCHOR_MODEL_PROVIDER=anthropic; ''
             @ ''pip install '' @ repr_str ''anchor-runtime[anthropic]''))
      else
        (case or_str api_key (env ''ANTHROPIC_API_KEY'') of
           None \<Rightarrow> Inl (runtime_error ''ANTHROPIC_API_KEY is not set'')
         | Some key \<Rightarrow>
             if key = [] then Inl (runtime_error ''ANTHROPIC_API_KEY is not set'')
             else
               res_bind (case price_in of Some p \<Rightarrow> Inr p | None \<Rightarrow> price float_of env ''IN'') (\<lambda>pin.
               res_bind (case price_out of Some p \<Rightarrow> Inr p | None \<Rightarrow> price float_of env ''OUT'') (\<lambda>pout.
                 Inr \<lparr>an_model = model, an_key = key, an_price_in = pin, an_price_out = pout\<rparr>))))"

section \<open>A request and its answer\<close>

definition request_kwargs :: "anthropic \<Rightarrow> model_request \<Rightarrow> pydict" where
  "request_kwargs an rq =
     [(KStr ''model'', PStr (an_model an)), (KStr ''max_tokens'', PInt (rq_max_tokens rq)),
      (KStr ''messages'', PList (rq_messages rq))]
     @ (case rq_tools rq of None \<Rightarrow> [] | Some ts \<Rightarrow> if ts = [] then [] else [(KStr ''tools'', PList ts)])
     @ (case rq_system rq of None \<Rightarrow> [] | Some s \<Rightarrow> if s = [] then [] else [(KStr ''system'', PStr s)])"

text \<open>The blocks of a message: a block of another type is passed over.\<close>

datatype block = Text_Block string | Tool_Use_Block string string pydict | Other_Block string

record message =
  ms_content :: "block list"
  ms_stop_reason :: "string option"
  ms_input_tokens :: int
  ms_output_tokens :: int

fun block_text :: "block \<Rightarrow> string" where
  "block_text (Text_Block s) = s"
| "block_text _ = []"

fun block_calls :: "block \<Rightarrow> tool_call list" where
  "block_calls (Tool_Use_Block i n input) = [\<lparr>tc_id = i, tc_name = n, tc_arguments = input\<rparr>]"
| "block_calls _ = []"

definition message_cost :: "anthropic \<Rightarrow> message \<Rightarrow> rat" where
  "message_cost an m =
     of_int (ms_input_tokens m) / 1000000 * an_price_in an + of_int (ms_output_tokens m) / 1000000 * an_price_out an"

definition message_response :: "anthropic \<Rightarrow> message \<Rightarrow> model_response" where
  "message_response an m =
     \<lparr>mr_text = concat (map block_text (ms_content m)),
      mr_tool_calls = concat (map block_calls (ms_content m)),
      mr_stop_reason = (case or_str (ms_stop_reason m) None of None \<Rightarrow> ''end_turn'' | Some s \<Rightarrow> s),
      mr_input_tokens = ms_input_tokens m, mr_output_tokens = ms_output_tokens m,
      mr_cost_usd = message_cost an m, mr_model = an_model an\<rparr>"

definition anthropic_complete ::
  "(string \<Rightarrow> pydict \<Rightarrow> ('x, message) outside) \<Rightarrow> anthropic \<Rightarrow> model_request \<Rightarrow> ('x, model_response) outside" where
  "anthropic_complete create an rq =
     ebind (create (an_key an) (request_kwargs an rq)) (\<lambda>m. Ret (Inr (message_response an m)))"

definition anthropic_provider :: "(string \<Rightarrow> pydict \<Rightarrow> ('x, message) outside) \<Rightarrow> anthropic \<Rightarrow> 'x provider" where
  "anthropic_provider create an = \<lparr>pv_name = ''anthropic'', pv_complete = anthropic_complete create an\<rparr>"

section \<open>What the runtime gets\<close>

text \<open>
  The runtime is told of a tool call exactly when the message has a block for it, and what the provider does
  to the world is what the one call of the service does; an exception of the service passes through.
\<close>

lemma anthropic_calls:
  "wants_tools (message_response an m) \<longleftrightarrow> (\<exists>i n input. Tool_Use_Block i n input \<in> set (ms_content m))"
proof -
  have "concat (map block_calls bs) \<noteq> [] \<longleftrightarrow> (\<exists>i n input. Tool_Use_Block i n input \<in> set bs)" for bs
  proof (induction bs)
    case (Cons b bs)
    then show ?case by (cases b) auto
  qed simp
  then show ?thesis by (simp add: wants_tools_def message_response_def)
qed

lemma run_anthropic:
  "run (anthropic_complete create an rq) s =
     (case run (create (an_key an) (request_kwargs an rq)) s of
        (s', Inl e) \<Rightarrow> (s', Inl e) | (s', Inr m) \<Rightarrow> (s', Inr (message_response an m)))"
  by (simp add: anthropic_complete_def split: prod.split sum.split)

text \<open>Without prices in the environment the cost stays what it was, and the tokens are counted.\<close>

lemma unpriced:
  assumes "new_anthropic True float_of env model key None None = Inr an"
    and "env ''ANCHOR_PRICE_IN_PER_MTOK'' = None" and "env ''ANCHOR_PRICE_OUT_PER_MTOK'' = None"
  shows "mr_cost_usd (message_response an m) = 0"
  using assms
  by (auto simp: new_anthropic_def price_def env_num_def message_response_def message_cost_def
      split: option.splits if_splits)

text \<open>A provider is made only with a key, and keeps the prices it is given.\<close>

lemma new_anthropic_key:
  assumes "new_anthropic installed float_of env model key price_in price_out = Inr an"
  shows "an_key an \<noteq> [] \<and> an_model an = model \<and> (\<forall>p. price_in = Some p \<longrightarrow> an_price_in an = p) \<and>
    (\<forall>p. price_out = Some p \<longrightarrow> an_price_out an = p)"
  using assms by (auto simp: new_anthropic_def res_bind_def split: option.splits if_splits sum.splits)

end
