(* ===== verification/Cli.thy ===== *)
theory Cli
  imports Echo Dynamo
begin

text \<open>
  The small functions at the edges: the choice of the store in \<open>store/__init__.py\<close>, the lines that
  \<open>cli.py\<close> prints for a run and for an event, and the percentile of \<open>scripts/loadtest.py\<close>.
\<close>

section \<open>The choice of the store\<close>

datatype store_choice = Use_Postgres settings | Use_Dynamo string "string option" string

definition build_store :: "settings \<Rightarrow> store_choice py_result" where
  "build_store cfg =
     (if se_backend cfg = ''postgres'' then Inr (Use_Postgres cfg)
      else if se_backend cfg = ''dynamo'' then
        Inr (Use_Dynamo (se_dynamo_table cfg) (se_dynamo_queue_url cfg) (se_dynamo_region cfg))
      else Inl (value_error (''unknown ANCHOR_BACKEND: '' @ repr_str (se_backend cfg))))"

text \<open>A backend is taken exactly when it is one of the two, and the other settings are handed on as they are.\<close>

lemma build_store_ok: "(\<exists>s. build_store cfg = Inr s) \<longleftrightarrow> se_backend cfg = ''postgres'' \<or> se_backend cfg = ''dynamo''"
  by (simp add: build_store_def)

section \<open>Lines\<close>

definition spaces :: "nat \<Rightarrow> string" where
  "spaces n = replicate n (CHR '' '')"

definition pad_left :: "nat \<Rightarrow> string \<Rightarrow> string" where
  "pad_left w s = spaces (w - length s) @ s"

definition pad_right :: "nat \<Rightarrow> string \<Rightarrow> string" where
  "pad_right w s = s @ spaces (w - length s)"

definition format_run :: "(rat \<Rightarrow> string) \<Rightarrow> run_record \<Rightarrow> string list" where
  "format_run fs rr =
     [''run '' @ uuid_str (rr_run_id rr) @ ''  workflow='' @ rr_workflow rr @ ''  status='' @ status_value (rr_status rr)
        @ ''  attempt='' @ str_nat (rr_attempt rr) @ ''  usage='' @ json_text fs (PDict (usage_to_dict (rr_usage rr))),
      replicate 96 (CHR ''-'')]"

text \<open>The payload came out of the log, so it is JSON and \<open>default=str\<close> has nothing to do.\<close>

definition event_detail :: "(rat \<Rightarrow> string) \<Rightarrow> event \<Rightarrow> string" where
  "event_detail fs e =
     (let detail = json_text fs (ev_payload e)
      in if 140 < length detail then take 137 detail @ ''...'' else detail)"

definition format_event :: "(rat \<Rightarrow> string) \<Rightarrow> event \<Rightarrow> string" where
  "format_event fs e =
     (let key = (case ev_step_key e of None \<Rightarrow> ''-'' | Some k \<Rightarrow> if k = [] then ''-'' else k)
      in ''  '' @ pad_left 3 (str_nat (ev_seq e)) @ ''  '' @ pad_right 20 (event_type_name (ev_type e)) @ ''  ''
         @ pad_right 28 key @ ''  '' @ event_detail fs e)"

lemma event_detail_short: "length (event_detail fs e) \<le> 140"
  by (simp add: event_detail_def Let_def)

section \<open>Percentiles\<close>

text \<open>An index below zero counts from the end, as in Python.\<close>

definition percentile :: "rat list \<Rightarrow> rat \<Rightarrow> rat py_result" where
  "percentile values p =
     (if values = [] then Inr 0
      else let ordered = sort values; len = int (length ordered);
               index = min (round_even (p / 100 * of_int (len - 1))) (len - 1)
           in if 0 \<le> index then Inr (ordered ! nat index)
              else if - len \<le> index then Inr (ordered ! nat (len + index))
              else Inl (PyError ''IndexError'' (Some ''list index out of range'')))"

lemma sort_nonempty: "values \<noteq> [] \<Longrightarrow> sort values \<noteq> []"
  by (metis set_empty set_sort)

text \<open>For a percentage it is one of the values, and the largest for 100.\<close>

lemma percentile_mem:
  assumes "values \<noteq> []" and "0 \<le> p"
  shows "\<exists>v \<in> set values. percentile values p = Inr v"
proof -
  define index where "index = min (round_even (p / 100 * of_int (int (length values) - 1))) (int (length values) - 1)"
  have len: "1 \<le> length values" using assms(1) by (cases "values") simp_all
  then have "0 \<le> p / 100 * of_int (int (length values) - 1)" using assms(2) by simp
  then have i: "0 \<le> index" "nat index < length (sort values)"
    using len assms(1) round_even_nonneg unfolding index_def by simp_all
  then have "sort values ! nat index \<in> set (sort values)" by (intro nth_mem)
  moreover have "percentile values p = Inr (sort values ! nat index)"
    using assms(1) i(1) sort_nonempty [OF assms(1)] by (simp add: percentile_def Let_def index_def)
  ultimately show ?thesis by simp
qed

lemma percentile_max:
  assumes "values \<noteq> []"
  shows "percentile values 100 = Inr (sort values ! (length values - 1))"
proof -
  have "nat (int (length values) - 1) = length values - 1" "1 \<le> length values" using assms by (cases "values"; simp)+
  moreover have "sort values \<noteq> []" by (rule sort_nonempty [OF assms])
  ultimately show ?thesis using assms round_even_int [of "int (length values) - 1"] by (simp add: percentile_def Let_def)
qed

end
