(* ===== verification/Commands.thy ===== *)
theory Commands
  imports Cli Api Chaos Worker_Loop
begin

text \<open>
  The commands of \<open>src/anchor/cli.py\<close> as programs over the system. What a command prints is its result: lines,
  and the document that \<open>submit\<close> prints with \<open>json.dumps\<close>. Connecting, migrating and the logging setup are
  I/O; \<open>api\<close> hands over to uvicorn, and \<open>migrate\<close> applies the schema, on which the model of the store rests.
\<close>

datatype printed = Line string | Document pyval

datatype finish =
    Done
  | Exit nat \<comment> \<open>\<open>typer.Exit\<close>\<close>
  | Died exn

type_synonym 'x command = "((pg, 'x) sys, printed list \<times> finish) prog"

section \<open>The commands\<close>

text \<open>\<open>anchor worker --concurrency\<close>: zero is no override, as nothing is.\<close>

definition worker_settings :: "settings \<Rightarrow> int option \<Rightarrow> settings" where
  "worker_settings cfg concurrency =
     (case concurrency of None \<Rightarrow> cfg | Some n \<Rightarrow> if n = 0 then cfg else cfg\<lparr>se_worker_concurrency := n\<rparr>)"

definition worker_command :: "(pg, 'x) deps \<Rightarrow> int option \<Rightarrow> (pg, 'x) deps" where
  "worker_command E concurrency = E\<lparr>d_settings := worker_settings (d_settings E) concurrency\<rparr>"

definition cli_budget :: "int option \<Rightarrow> int option \<Rightarrow> rat option \<Rightarrow> budget" where
  "cli_budget max_tokens max_tool_calls max_wall_seconds =
     no_budget\<lparr>b_max_tokens := max_tokens, b_max_tool_calls := max_tool_calls, b_max_wall_seconds := max_wall_seconds\<rparr>"

definition submit_command ::
  "(string \<Rightarrow> rat) \<Rightarrow> (rat \<Rightarrow> string) \<Rightarrow> uuid \<Rightarrow> uuid \<Rightarrow> string \<Rightarrow> string \<Rightarrow> string option \<Rightarrow> budget \<Rightarrow> 'x command" where
  "submit_command pf isof run_id fresh workflow payload key b =
     (case json_loads pf payload of
        Inl e \<Rightarrow> Ret ([], Died e)
      | Inr doc \<Rightarrow>
          bind (db_op (\<lambda>t. pg_submit_run t run_id workflow doc (submission_key fresh key) b)) (\<lambda>r.
          case r of
            Inl e \<Rightarrow> Ret ([], Died e)
          | Inr (rr, created) \<Rightarrow>
              Ret ([Document (PDict ((KStr ''created'', PBool created) # run_to_api isof rr))], Done)))"

definition run_lines :: "(rat \<Rightarrow> string) \<Rightarrow> run_record \<Rightarrow> event list \<Rightarrow> printed list" where
  "run_lines fs rr events = map Line (format_run fs rr @ map (format_event fs) events)"

definition tail_command :: "(rat \<Rightarrow> string) \<Rightarrow> string \<Rightarrow> 'x command" where
  "tail_command fs text =
     (case read_uuid text of
        Inl e \<Rightarrow> Ret ([], Died e)
      | Inr r \<Rightarrow>
          bind (gets (\<lambda>s. pg_get_run r (sy_db s))) (\<lambda>ro.
          case ro of
            None \<Rightarrow> Ret ([Line (''no such run: '' @ text)], Exit 1)
          | Some rr \<Rightarrow>
              bind (gets (\<lambda>s. pg_load_events r (sy_db s))) (\<lambda>events.
              Ret (run_lines fs rr events, Done))))"

definition demo_payload :: "string \<Rightarrow> int \<Rightarrow> pyval" where
  "demo_payload payment_id amount_cents =
     PDict [(KStr ''payment_id'', PStr payment_id), (KStr ''amount_cents'', PInt amount_cents),
            (KStr ''reason'', PStr ''customer request'')]"

definition demo_budget :: budget where
  "demo_budget = no_budget\<lparr>b_max_tokens := Some 50000, b_max_tool_calls := Some 10, b_max_wall_seconds := Some 120\<rparr>"

definition demo_echo :: "string \<Rightarrow> int \<Rightarrow> echo" where
  "demo_echo payment_id amount_cents =
     default_echo\<lparr>ec_plan := [''lookup_payment'', ''issue_refund'', ''notify_customer''],
                  ec_arguments_from_input := True,
                  ec_final_text := ''Refunded '' @ str_int amount_cents @ '' cents on '' @ payment_id @ ''.''\<rparr>"

definition demo_line :: "outcome \<Rightarrow> nat \<Rightarrow> string" where
  "demo_line oc refunds =
     newline @ ''status='' @ status_value (oc_status oc) @ '' executed='' @ str_nat (oc_executed_steps oc)
     @ '' replayed='' @ str_nat (oc_replayed_steps oc) @ '' refunds_recorded='' @ str_nat refunds"

text \<open>\<open>E\<close> carries the store, the registry and the settings of the process; the provider is the command's.\<close>

definition demo_command ::
  "(pg, world) deps \<Rightarrow> (string \<Rightarrow> rat) \<Rightarrow> uuid \<Rightarrow> uuid \<Rightarrow> string \<Rightarrow> string \<Rightarrow> int \<Rightarrow> world command" where
  "demo_command E pf run_id fresh w payment_id amount_cents =
     (let fs = d_float_str E;
          E' = E\<lparr>d_provider := refund_provider fs pf (demo_echo payment_id amount_cents)\<rparr>
      in bind (db_op (\<lambda>t. pg_submit_run t run_id ''refund_agent'' (demo_payload payment_id amount_cents)
                 (''demo-'' @ uuid_str fresh) demo_budget)) (\<lambda>r.
         case r of
           Inl e \<Rightarrow> Ret ([], Died e)
         | Inr (rr, _) \<Rightarrow>
             let id = rr_run_id rr; first = [Line (''submitted run '' @ uuid_str id @ newline)] in
             bind (run_once E' w new_stats) (\<lambda>(stats, outcome).
             bind (gets (\<lambda>s. pg_get_run id (sy_db s))) (\<lambda>final.
             case final of
               None \<Rightarrow> Ret (first, Died (PyError ''AttributeError'' (Some ''NoneType object has no attribute run_id'')))
             | Some rr \<Rightarrow>
                 bind (gets (\<lambda>s. pg_load_events id (sy_db s))) (\<lambda>events.
                 bind (gets (\<lambda>s. count_side_effects id ''refund'' (wo_effects (sy_ext s)))) (\<lambda>refunds.
                 case outcome of
                   None \<Rightarrow> Ret (first @ run_lines fs rr events,
                               Died (PyError ''AttributeError'' (Some ''NoneType object has no attribute status'')))
                 | Some oc \<Rightarrow> Ret (first @ run_lines fs rr events @ [Line (demo_line oc refunds)], Done)))))))"

section \<open>What they do\<close>

text \<open>The override reaches the loop as the number of its slots.\<close>

lemma worker_command_slots:
  "slots (worker_command E concurrency) =
     (case concurrency of None \<Rightarrow> slots E | Some n \<Rightarrow> if n = 0 then slots E else n)"
  by (simp add: worker_command_def worker_settings_def slots_def split: option.split)

text \<open>What the API accepts, \<open>anchor submit\<close> does to the database as well; it accepts more.\<close>

lemma cli_budget_roundtrip: "budget_from_dict (budget_to_dict b) = b"
  by (rule budget_dict_roundtrip)

theorem submit_as_api:
  assumes "json_loads pf payload = Inr (PDict d)" and "budget_in b" and "wn \<in> set (workflow_names g)"
  shows "fst (run (submit_command pf isof r f wn payload key b) s) =
    fst (run (submit_run g isof r f \<lparr>sb_workflow = wn, sb_input = d, sb_budget = b\<rparr> key) s)"
  using assms
  by (auto simp: submit_command_def submit_run_def db_op_def cli_budget_roundtrip split: sum.splits prod.splits)

text \<open>\<open>tail\<close> reads and prints: one line for every event, in the order of the log.\<close>

theorem tail_reads:
  "fst (run (tail_command fs text) s) = s \<and>
   (snd (snd (run (tail_command fs text) s)) = Done \<longrightarrow>
      (\<exists>r rr. read_uuid text = Inr r \<and> pg_get_run r (sy_db s) = Some rr \<and>
         fst (snd (run (tail_command fs text) s)) =
           map Line (format_run fs rr) @ map (\<lambda>e. Line (format_event fs e)) (pg_load_events r (sy_db s))))"
  by (auto simp: tail_command_def run_lines_def split: sum.split option.split)

text \<open>The demo never refunds twice, on whatever database it is run.\<close>

theorem demo_one_refund:
  assumes E: "d_store E = pg_store" "d_registry E = refund_registry (d_float_str E) isof delay" and s: "untouched s"
  shows "count_side_effects r ''refund'' (wo_effects (sy_ext (fst (run (demo_command E pf rid fresh w pid amount) s)))) \<le> 1"
proof -
  let ?plan = "ec_plan (demo_echo pid amount)"
  let ?E = "E\<lparr>d_provider := refund_provider (d_float_str E) pf (demo_echo pid amount)\<rparr>"
  have h: "refund.honest ?plan ?E"
    by (rule refund_honest [where fs = "d_float_str E" and pf = pf and isof = isof and delay = delay and ec = "demo_echo pid amount"])
      (simp_all add: refund_deps_def E demo_echo_def)
  note start = untouched_start [OF s, of ?plan]
  have out: "relies (refund.moves ?plan) (bind (gets f) k) (\<lambda>_ _. True) s"
    if "\<And>x. guar (refund.moves ?plan) (k x)" for f s and k :: "'z \<Rightarrow> ((pg, world) sys, printed list \<times> finish) prog"
    by (rule refund.relies_guar) (auto intro!: guar_bindI guar_getsI refund.R_refl that)
  have "relies (refund.moves ?plan) (demo_command E pf rid fresh w pid amount) (\<lambda>_ _. True) s"
    unfolding demo_command_def Let_def
  proof (rule refund.relies_then [OF refund.relies_db_op])
    show "refund.genuine ?plan s" using start by blast
    show "unrecorded d (fst (pg_submit_run t rid ''refund_agent'' (demo_payload pid amount) (''demo-'' @ uuid_str fresh) demo_budget d))" for t d
      by (rule unrecorded_submit)
  qed (auto intro!: refund.relies_then [OF refund.relies_run_once [OF h]] out guar_bindI guar_getsI refund.R_refl
      simp: relies_Ret split: sum.split option.split)
  then have "refund.moves ?plan s (fst (run (demo_command E pf rid fresh w pid amount) s))"
    using refund.relies_run by blast
  then have "tokens_ok (wo_effects (sy_ext (fst (run (demo_command E pf rid fresh w pid amount) s))))"
    using start by (simp add: refund.moves_def world_moves_def)
  then show ?thesis by (rule one_refund_per_token)
qed

end
