(* ===== verification/Scripts.thy ===== *)
theory Scripts
  imports Chaos Cli
begin

text \<open>
  The scripts that measure the runtime: \<open>scripts/chaos_kill.py\<close> kills a worker inside the refund and looks
  at what its successor makes of it, \<open>scripts/loadtest.py\<close> counts what many workers get done. Starting and
  killing processes, waiting and printing are I/O; modelled are the environments the workers get, what the
  scripts compute from the database, and their verdicts.
\<close>

section \<open>The environments of the workers\<close>

definition PLAN :: string where
  "PLAN = ''lookup_payment,issue_refund,notify_customer''"

definition chaos_worker_env :: "(rat \<Rightarrow> string) \<Rightarrow> string \<Rightarrow> env \<Rightarrow> rat \<Rightarrow> rat \<Rightarrow> env" where
  "chaos_worker_env fs src_dir env chaos_delay lease =
     env(''ANCHOR_ECHO_PLAN'' \<mapsto> PLAN, ''ANCHOR_MODEL_PROVIDER'' \<mapsto> ''echo'',
         ''ANCHOR_CHAOS_DELAY_SECONDS'' \<mapsto> fs chaos_delay, ''ANCHOR_LEASE_SECONDS'' \<mapsto> fs lease,
         ''ANCHOR_HEARTBEAT_SECONDS'' \<mapsto> fs (max (lease / 4) (1 / 4)),
         ''ANCHOR_POLL_INTERVAL'' \<mapsto> ''0.1'', ''PYTHONPATH'' \<mapsto> src_dir)"

definition load_worker_env :: "string \<Rightarrow> env \<Rightarrow> int \<Rightarrow> env" where
  "load_worker_env src_dir env concurrency =
     env(''ANCHOR_ECHO_PLAN'' \<mapsto> PLAN, ''ANCHOR_MODEL_PROVIDER'' \<mapsto> ''echo'',
         ''ANCHOR_WORKER_CONCURRENCY'' \<mapsto> str_int concurrency, ''ANCHOR_POLL_INTERVAL'' \<mapsto> ''0.05'',
         ''PYTHONPATH'' \<mapsto> src_dir)"

section \<open>A crash trial\<close>

definition contains :: "string \<Rightarrow> string \<Rightarrow> bool" where
  "contains needle s \<longleftrightarrow> (\<exists>i \<in> set [0..<Suc (length s)]. take (length needle) (drop i s) = needle)"

text \<open>What \<open>wait_for_step_started\<close> looks for, and what \<open>wait_for_terminal\<close> does.\<close>

definition step_announced :: "string \<Rightarrow> event list \<Rightarrow> bool" where
  "step_announced needle events \<longleftrightarrow>
     (\<exists>e \<in> set events. ev_type e = STEP_STARTED \<and>
        contains needle (case ev_step_key e of None \<Rightarrow> [] | Some k \<Rightarrow> k))"

definition trial_over :: "run_record option \<Rightarrow> bool" where
  "trial_over ro = (case ro of None \<Rightarrow> False | Some rr \<Rightarrow> terminal (rr_status rr))"

definition chaos_payload :: pyval where
  "chaos_payload = PDict [(KStr ''payment_id'', PStr ''pay_002''), (KStr ''amount_cents'', PInt 129900),
                          (KStr ''reason'', PStr ''chaos'')]"

definition chaos_budget :: budget where
  "chaos_budget = no_budget\<lparr>b_max_tool_calls := Some 10, b_max_model_calls := Some 8, b_max_wall_seconds := Some 120\<rparr>"

definition chaos_submit :: "rat \<Rightarrow> uuid \<Rightarrow> uuid \<Rightarrow> pg \<Rightarrow> pg \<times> (run_record \<times> bool) py_result" where
  "chaos_submit t run_id fresh =
     pg_submit_run t run_id ''refund_agent'' chaos_payload (''chaos-'' @ uuid_str fresh) chaos_budget"

record trial =
  tr_trial :: nat
  tr_run_id :: string
  tr_status :: string
  tr_refunds_at_kill :: nat
  tr_refunds_final :: nat
  tr_attempts :: nat
  tr_resume_events :: nat
  tr_recovered_by_verify :: nat
  tr_recovery_seconds :: rat
  tr_events :: nat

definition round2 :: "rat \<Rightarrow> rat" where
  "round2 x = of_int (round_even (x * 100)) / 100"

text \<open>\<open>at_kill\<close> is the ledger when the victim died; the rest is read when the rescuer is done.\<close>

definition trial_result :: "nat \<Rightarrow> uuid \<Rightarrow> effect list \<Rightarrow> rat \<Rightarrow> (pg, world) sys \<Rightarrow> trial" where
  "trial_result trial r at_kill recovery_seconds s =
     (let final = pg_get_run r (sy_db s); events = pg_load_events r (sy_db s) in
      \<lparr>tr_trial = trial, tr_run_id = uuid_str r,
       tr_status = (case final of None \<Rightarrow> ''UNKNOWN'' | Some rr \<Rightarrow> status_value (rr_status rr)),
       tr_refunds_at_kill = count_side_effects r ''refund'' at_kill,
       tr_refunds_final = count_side_effects r ''refund'' (wo_effects (sy_ext s)),
       tr_attempts = (case final of None \<Rightarrow> 0 | Some rr \<Rightarrow> rr_attempt rr),
       tr_resume_events = length (filter (\<lambda>e. ev_type e = RUN_RESUMED) events),
       tr_recovered_by_verify =
         length (filter (\<lambda>e. py_get (ev_payload e) ''recovered_by'' PNone = PStr ''verify'') events),
       tr_recovery_seconds = round2 recovery_seconds, tr_events = length events\<rparr>)"

definition duplicated :: "trial list \<Rightarrow> trial list" where
  "duplicated results = filter (\<lambda>t. tr_refunds_final t \<noteq> 1) results"

definition unfinished :: "trial list \<Rightarrow> trial list" where
  "unfinished results = filter (\<lambda>t. tr_status t \<noteq> status_value COMPLETED) results"

definition verified :: "trial list \<Rightarrow> nat" where
  "verified results = sum_list (map tr_recovered_by_verify results)"

definition chaos_exit :: "trial list \<Rightarrow> nat" where
  "chaos_exit results = (if duplicated results = [] \<and> unfinished results = [] then 0 else 1)"

section \<open>The load test\<close>

definition load_done :: "(string \<times> nat) list \<Rightarrow> nat" where
  "load_done counts =
     sum_list (map (\<lambda>st. case map_of counts st of None \<Rightarrow> 0 | Some n \<Rightarrow> n)
       [''COMPLETED'', ''FAILED'', ''CANCELLED'', ''NEEDS_REVIEW''])"

record load_report =
  lr_statuses :: "(string \<times> nat) list"
  lr_latencies :: "rat list"
  lr_steps :: nat

text \<open>The loop over the submitted runs; a run that is not there raises.\<close>

primrec load_runs :: "uuid list \<Rightarrow> pg \<Rightarrow> load_report \<Rightarrow> load_report py_result" where
  "load_runs [] d rep = Inr rep"
| "load_runs (r # rs) d rep =
     (case pg_get_run r d of
        None \<Rightarrow> Inl (PyError ''AttributeError'' (Some ''NoneType object has no attribute status''))
      | Some rr \<Rightarrow>
          let name = status_value (rr_status rr);
              seen = (case map_of (lr_statuses rep) name of None \<Rightarrow> 0 | Some n \<Rightarrow> n)
          in load_runs rs d (rep
               \<lparr>lr_statuses := dict_set (lr_statuses rep) name (seen + 1),
                lr_latencies := (case rr_finished_at rr of None \<Rightarrow> lr_latencies rep
                                 | Some t \<Rightarrow> lr_latencies rep @ [(t - rr_created_at rr) * 1000]),
                lr_steps := lr_steps rep + length (pg_load_events r d)\<rparr>))"

definition load_summary :: "uuid list \<Rightarrow> pg \<Rightarrow> load_report py_result" where
  "load_summary rs d = load_runs rs d \<lparr>lr_statuses = [], lr_latencies = [], lr_steps = 0\<rparr>"

definition load_exit :: "nat \<Rightarrow> load_report \<Rightarrow> nat" where
  "load_exit runs rep =
     (if (case map_of (lr_statuses rep) (status_value COMPLETED) of None \<Rightarrow> 0 | Some n \<Rightarrow> n) = runs then 0 else 1)"

section \<open>What the numbers mean\<close>

text \<open>
  The workers of both scripts are the workers of \<open>Chaos\<close>: their settings choose the offline provider, whose
  plan asks for the refund once. \<open>float\<close> reads back what \<open>str\<close> printed.
\<close>

lemma plan_words:
  "filter (\<lambda>n. n \<noteq> []) (map strip (split_on (CHR '','') PLAN)) = [''lookup_payment'', ''issue_refund'', ''notify_customer'']"
  by code_simp

lemma chaos_workers:
  assumes "load_settings int_of float_of (chaos_worker_env fs src env delay lease) = Inr se"
    and "\<And>x. float_of (fs x) = Inr x" and "\<And>x. fs x \<noteq> []"
  shows "se_lease_seconds se = lease \<and> se_heartbeat_seconds se = max (lease / 4) (1 / 4) \<and>
    (\<exists>ec. build_provider se = Inr (Echo ec) \<and> ec_plan ec = [''lookup_payment'', ''issue_refund'', ''notify_customer''] \<and>
       count_list (ec_plan ec) ''issue_refund'' \<le> 1)"
proof -
  have e: "se_lease_seconds se = lease" "se_heartbeat_seconds se = max (lease / 4) (1 / 4)"
    "se_model_provider se = ''echo''" "se_echo_plan se = PLAN"
    using assms by (auto simp: load_settings_def chaos_worker_env_def env_num_def env_str_def res_bind_def split: sum.splits)
  have "lower ''echo'' = ''echo''" by code_simp
  then show ?thesis using e plan_words by (simp add: build_provider_def)
qed

text \<open>
  The chaos script passes. After any number of trials, under any schedule and wherever workers were
  killed: when every run of the trials is completed, the script counts no duplicate and no unfinished run and
  exits with 0, unless another effect took the token of one of the refunds.
\<close>

theorem chaos_passes:
  assumes "\<forall>p \<in> set ps. refund_client agent_tools p" and "untouched s" and "interleave sched (ps, s) = (ps', s')"
    and "\<forall>(k, r, es, t) \<in> set trials. status_of pg_store r (sy_db s') = Some COMPLETED \<and>
      (\<forall>e \<in> set (wo_effects (sy_ext s')). ef_token e = step_token r (step_key ''tool:issue_refund'' 1) \<longrightarrow>
         ef_run_id e = r \<and> ef_kind e = ''refund'')"
  shows "chaos_exit (map (\<lambda>(k, r, es, t). trial_result k r es t s') trials) = 0"
proof -
  have "tr_refunds_final (trial_result k r es t s') = 1 \<and> tr_status (trial_result k r es t s') = status_value COMPLETED"
    if "(k, r, es, t) \<in> set trials" for k r es t
  proof -
    have over: "status_of pg_store r (sy_db s') = Some COMPLETED" using assms(4) that by blast
    have "count_list agent_tools ''issue_refund'' \<le> 1" "''issue_refund'' \<in> set (take MAX_TURNS agent_tools)"
      by (simp_all add: agent_tools_def MAX_TURNS_def)
    then have "count_side_effects r ''refund'' (wo_effects (sy_ext s')) = 1"
      using refunded_once [OF assms(1) _ assms(2,3) over] assms(4) that by blast
    then show ?thesis using over by (auto simp: trial_result_def Let_def status_of_def)
  qed
  then have "duplicated (map (\<lambda>(k, r, es, t). trial_result k r es t s') trials) = []"
    "unfinished (map (\<lambda>(k, r, es, t). trial_result k r es t s') trials) = []"
    by (auto simp: duplicated_def unfinished_def filter_empty_conv)
  then show ?thesis by (simp add: chaos_exit_def)
qed

text \<open>The load test waits until as many runs are over as it submitted: its sum counts the rows that are over.\<close>

lemma map_of_counts:
  "map_of (filter (\<lambda>(k, n). n \<noteq> (0 :: nat)) (map (\<lambda>x. (f x, g x)) xs)) y =
     (case map_of (map (\<lambda>x. (f x, g x)) xs) y of None \<Rightarrow> None | Some n \<Rightarrow> if n = 0 then None else Some n)"
  if "distinct (map f xs)"
  using that
proof (induction xs)
  case (Cons x xs)
  have "map_of (map (\<lambda>x. (f x, g x)) xs) (f x) = None" using Cons.prems by (auto simp: map_of_eq_None_iff)
  with Cons show ?case by auto
qed simp

lemma status_lookup: "map_of (map (\<lambda>st. (status_value st, g st)) run_statuses) (status_value st) = Some (g st)"
  by (cases st) (simp_all add: run_statuses_def)

lemma load_done_terminal: "load_done (pg_status_counts d) = length (filter (\<lambda>w. terminal (rw_status w)) (pg_runs d))"
proof -
  let ?n = "\<lambda>st. length (filter (\<lambda>w. rw_status w = st) (pg_runs d))"
  have "distinct (map status_value run_statuses)" by (simp add: run_statuses_def)
  then have look: "(case map_of (pg_status_counts d) (status_value st) of None \<Rightarrow> 0 | Some n \<Rightarrow> n) = ?n st" for st
    unfolding pg_status_counts_def by (simp only: map_of_counts status_lookup) simp
  have names: "[''COMPLETED'', ''FAILED'', ''CANCELLED'', ''NEEDS_REVIEW''] = map status_value [COMPLETED, FAILED, CANCELLED, NEEDS_REVIEW]"
    by simp
  have "load_done (pg_status_counts d) = sum_list (map ?n [COMPLETED, FAILED, CANCELLED, NEEDS_REVIEW])"
    unfolding load_done_def names by (simp only: list.map look)
  also have "\<dots> = length (filter (\<lambda>w. terminal (rw_status w)) (pg_runs d))"
  proof (induction "pg_runs d" arbitrary: d)
    case (Cons w ws)
    have "sum_list (map (\<lambda>st. length (filter (\<lambda>w. rw_status w = st) ws)) [COMPLETED, FAILED, CANCELLED, NEEDS_REVIEW]) =
        length (filter (\<lambda>w. terminal (rw_status w)) ws)"
      using Cons.hyps(1) [of "d\<lparr>pg_runs := ws\<rparr>"] by simp
    then show ?case using Cons.hyps(2) [symmetric] by (cases "rw_status w") simp_all
  qed simp
  finally show ?thesis .
qed

text \<open>Every submitted run is counted once, and nothing is lost between the statuses.\<close>

lemma load_summary_total:
  assumes "load_summary rs d = Inr rep"
  shows "sum_list (map snd (lr_statuses rep)) = length rs \<and> length (lr_latencies rep) \<le> length rs"
proof -
  have "load_runs rs d rep0 = Inr rep \<Longrightarrow>
    sum_list (map snd (lr_statuses rep)) = sum_list (map snd (lr_statuses rep0)) + length rs \<and>
    length (lr_latencies rep) \<le> length (lr_latencies rep0) + length rs" for rep0
  proof (induction rs arbitrary: rep0)
    case (Cons r rs)
    have s: "sum_list (map snd (dict_set m k ((case map_of m k of None \<Rightarrow> 0 | Some n \<Rightarrow> n) + 1))) = sum_list (map snd m) + 1"
      for m :: "(string \<times> nat) list" and k by (rule sum_dict_set) simp
    obtain rr where rr: "pg_get_run r d = Some rr" using Cons.prems by (cases "pg_get_run r d") simp_all
    define rep1 where "rep1 = rep0
      \<lparr>lr_statuses := dict_set (lr_statuses rep0) (status_value (rr_status rr))
         ((case map_of (lr_statuses rep0) (status_value (rr_status rr)) of None \<Rightarrow> 0 | Some n \<Rightarrow> n) + 1),
       lr_latencies := (case rr_finished_at rr of None \<Rightarrow> lr_latencies rep0
                        | Some t \<Rightarrow> lr_latencies rep0 @ [(t - rr_created_at rr) * 1000]),
       lr_steps := lr_steps rep0 + length (pg_load_events r d)\<rparr>"
    have "load_runs rs d rep1 = Inr rep" using Cons.prems rr by (simp add: rep1_def Let_def)
    from Cons.IH [OF this] s [of "lr_statuses rep0" "status_value (rr_status rr)"] show ?case
      by (simp add: rep1_def split: option.splits)
  qed simp
  from this [OF assms [unfolded load_summary_def]] show ?thesis by simp
qed

end
