(* ===== verification/Spec2Isabelle.thy ===== *)
theory Spec2Isabelle
  imports Safety Typed Replay Outcomes Recovery Anomalies Store_Facts Declarations Api Dynamo_Concurrent Gather Tasks
    Worker_Loop Chaos Anthropic Commands Scripts
begin

text \<open>
  Anchor (\<open>src/anchor\<close>) is a durable execution runtime: a workflow is an asynchronous Python function
  that reaches the outside world only through steps of its \<open>RunContext\<close>; every step is announced
  and recorded in an append-only log, so that a run whose worker dies is claimed by another worker
  and replayed from the log. This development models the runtime and proves what its log, its queue
  and its leases promise.

  The parts and their theories.

  \<^item> \<open>Prelude\<close>, \<open>Prog\<close>, \<open>Interleave\<close>: tables as lists of rows, and coroutines as trees of atoms. An atom
    is one uninterruptible piece of a coroutine (a statement sent to the database, a read of the clock, a
    step of a tool's body). \<open>run\<close> runs a coroutine alone, \<open>crash n\<close> is what a process leaves behind
    that dies after \<open>n\<close> atoms, \<open>guar\<close> is what every atom guarantees whatever others do in between,
    \<open>interleave\<close> runs several by a schedule.
  \<^item> \<open>Py_Values\<close>, \<open>Py_Text\<close>, \<open>Json\<close>: Python values, their texts, and \<open>json.dumps\<close> and \<open>json.loads\<close> as the
    connections of \<open>store/postgres.py\<close> use them.
  \<^item> \<open>Events\<close>, \<open>Errors\<close>, \<open>Models\<close>, \<open>Budgets\<close>, \<open>Config\<close>, \<open>Providers\<close>, \<open>Registry\<close>: \<open>events.py\<close> (with
    \<open>uuid5\<close> and its SHA-1), \<open>errors.py\<close>, \<open>models.py\<close>, \<open>budget.py\<close>, \<open>config.py\<close>, \<open>providers/base.py\<close>,
    \<open>registry.py\<close>.
  \<^item> \<open>Store\<close>: the \<open>Store\<close> protocol of \<open>store/__init__.py\<close> as a record of operations, and the contracts
    its clients rely on, as locales: \<open>guaranteed_store\<close>, \<open>log_store\<close>, \<open>run_store\<close>, \<open>lease_store\<close>.
  \<^item> \<open>Postgres\<close>: \<open>store/postgres.py\<close>, every operation as one transaction on the tables of
    \<open>schema/001_init.sql\<close>. \<open>Postgres_Inv\<close>: the invariant of the tables, and the interpretation of
    every contract on this store.
  \<^item> \<open>Dynamo\<close>: \<open>store/dynamo.py\<close>, every call of the table or the queue as an atom of its own.
  \<^item> \<open>Context\<close>: \<open>context.py\<close>, the replay state, the step keys, the checkpoint, the retry loop and the
    crash window; a workflow is a tree of calls of the context (\<open>wf\<close>) that \<open>interp\<close> runs. \<open>Gather\<close>:
    \<open>RunContext.gather\<close>, with the schedule of its branches as an argument.
  \<^item> \<open>Engine\<close>: one attempt of a run (\<open>engine.py\<close>); \<open>Worker\<close>: claiming, processing, the heartbeat and
    the statistics (\<open>worker.py\<close>); \<open>System\<close>: any number of workers, requests and heartbeats over one
    database, interleaved atom by atom, workers killed anywhere; \<open>Worker_Loop\<close>: \<open>Worker.run_forever\<close>, its
    slots, its tasks and its shutdown.
  \<^item> \<open>Api\<close>: the handlers of \<open>api.py\<close>. \<open>Echo\<close>: \<open>providers/echo.py\<close> and the choice of the provider.
    \<open>Anthropic\<close>: \<open>providers/anthropic.py\<close>, with the call of the service as a parameter.
    \<open>Refund\<close>: \<open>examples/refund_agent.py\<close>, its tools, verifier and workflow. \<open>Declarations\<close>: the decorators
    \<open>tool\<close> and \<open>workflow\<close>, and the import of the example, which fills the registry. \<open>Cli\<close>: the choice
    of the store, the lines of \<open>cli.py\<close>, the percentile of \<open>scripts/loadtest.py\<close>. \<open>Commands\<close>: the commands
    \<open>worker\<close>, \<open>submit\<close>, \<open>tail\<close> and \<open>demo\<close> of \<open>cli.py\<close>, what they print as their result. \<open>Scripts\<close>: the
    environments of the workers, the counts and the verdicts of \<open>scripts/chaos_kill.py\<close> and
    \<open>scripts/loadtest.py\<close>.

  What is proved.

  \<^item> \<open>Protocol\<close>, \<open>Context_Inv\<close>, \<open>Step_Inv\<close>, \<open>Engine_Inv\<close>, \<open>Guarantees\<close>, \<open>History\<close>: the step protocol as an
    automaton over the log of one key, the invariant that ties the log, the context and the entries into
    bodies, and its preservation by every operation at every atom. \<open>Amid\<close>: coroutines disturbed by others,
    with a rely between any two atoms and a guarantee of every atom; the operations of the context are
    proved under it once, a coroutine that runs alone being the case without disturbance.
  \<^item> \<open>Safety\<close>: at-most-once execution, write-ahead logging, steps recorded once, over every history of
    attempts killed anywhere; numbering and growth of the log under any interleaving of workers. \<open>Typed\<close>: the
    types of the columns, which no interleaving breaks, so that every answer of the API is JSON.
  \<^item> \<open>Replay\<close>: a finished run replayed from its log returns the same value and does nothing else;
    \<open>Gather\<close>: so does a gather, under every schedule.
  \<^item> \<open>Steps\<close>: a single step, branch by branch: a fresh one, the checkpoint, the crash window, retries.
  \<^item> \<open>Tasks\<close>: a machine of many steps at the same time on one context, the branches of gathers and those that
    run on after one has raised, disturbed by the rest of the system, killed and begun again: the protocol and
    at-most-once hold for it, \<open>gather\<close> is one of its runs, and what a gather returns is in the log.
  \<^item> \<open>Rely\<close>, \<open>Genuine\<close>, \<open>Chaos\<close>: what a coroutine does while others move the system under it; the contract
    of a workflow whose recorded steps are genuine, kept by every operation of the runtime whatever runs
    beside it (\<open>value_contract\<close>); and, by its interpretation on the refund agent, that any number of workers
    under any interleaving, killed anywhere, refund a run at most once and a completed one exactly once.
    \<open>Scripts\<close> and \<open>Commands\<close> rest on it: the chaos script exits with 0, the demo refunds once.
  \<^item> \<open>Outcomes\<close>: what an attempt reports and what it leaves in the database.
  \<^item> \<open>Recovery\<close>: no run is lost and every crashed run is claimed again, with one worker at a time;
    \<open>Anomalies\<close>: what concurrent workers can still do.
  \<^item> \<open>Worker_Loop\<close>: the loop keeps to its slots, stops claiming when told to, and refines the cluster of
    \<open>System\<close>, so that what is proved there holds for workers with many runs in flight.
  \<^item> \<open>Store_Facts\<close>, \<open>Api\<close>: the promises of the single operations of the Postgres store and of the requests.
  \<^item> \<open>Dynamo_Facts\<close>, \<open>Dynamo_Concurrent\<close>: the items of a run as its log, submission, claim and cancellation
    over DynamoDB, what crashes leave behind, and appends at the same time.
  \<^item> \<open>Json\<close>: what is written is read back. \<open>Refund\<close>: the agent stops, and its ledger stays in order.
  \<^item> \<open>Demo\<close>: a small workflow, database and registry on which the hypotheses of the theorems hold.

  Parameters of the model, because their code is not in the repository: the model provider, the call
  \<open>messages.create\<close> of the client of Anthropic's service, the functions a workflow or a tool calls (\<open>pyfn\<close>, any program over the outside world), the DynamoDB table and
  the SQS queue (\<open>table_api\<close> and \<open>queue_api\<close>; \<open>table_ok\<close> says that writes find what was written before,
  \<open>current\<close> that reads have caught up, which the code does not ask for), \<open>traceback\<close>, the printing and reading
  of floats and times. A float is the number it prints as.

  Fuel and bounds: \<open>json_loads\<close> reads with the length of the text as fuel, which is enough because every
  recursive call has consumed a character; every other loop of the code that is modelled is structural (the
  retry loop counts its passes down). Numbers of the DynamoDB log are padded to twenty digits; the theorems
  on it ask for fewer events than that.

  Not modelled: connection pooling and the event loop of \<open>asyncio\<close> other than as interleaving of atoms;
  the rounding of float arithmetic; the order of keys that \<open>jsonb\<close> gives back; the creation of tables;
  the commands \<open>migrate\<close> and \<open>api\<close> and the logging of \<open>cli.py\<close>; starting, killing and waiting for processes in
  the scripts, whose workers are the coroutines of \<open>Chaos\<close>. The messages of exceptions that the interpreter
  itself raises are shortened. A workflow tree (\<open>wf\<close>) calls steps, tools and the model
  and reads the counters, but does not call \<open>gather\<close>; what attempts with gathers do is the machine of \<open>Tasks\<close>,
  one process of a run at a time.
\<close>

end
